(* ===== verification/Prelude.thy ===== *)
theory Prelude
  imports Main "HOL-Library.Word" "HOL-Library.Monad_Syntax"
begin

text \<open>
  Shared vocabulary of the development: the machine integer types of the i686 target, the
  collections of simplification rules the component theories extend, and the generic facts
  on words, lists and \<open>option\<close> that several components use.

  Conventions used by every component theory:
  \<^item> \<open>unsigned\<close> C integers are words (\<open>u8\<close>, \<open>u16\<close>, \<open>u32\<close>, \<open>u64\<close>): arithmetic wraps;
  \<^item> a C \<open>int\<close> whose value is only a status or a small count is a HOL \<open>int\<close>; an \<open>int\<close> that
    takes part in arithmetic is an \<open>i32\<close>, the same bits as \<open>u32\<close>, read with \<^const>\<open>sint\<close>
    (the kernel is built with \<open>-O0\<close>, where signed overflow wraps);
  \<^item> a C pointer is an \<open>addr\<close> (a \<open>u32\<close>) with \<open>0\<close> for \<open>NULL\<close>, or an index into the array
    that holds the pointed-to structures;
  \<^item> a loop with no syntactic bound is a \<open>partial_function (option)\<close>: \<^const>\<open>None\<close> means that
    the call does not come back.
\<close>

unbundle bit_operations_syntax

type_synonym u8 = "8 word"
type_synonym u16 = "16 word"
type_synonym u32 = "32 word"
type_synonym u64 = "64 word"
type_synonym i32 = "32 word"
type_synonym addr = "32 word"

named_theorems mem_simps "reading a byte store after a sequence of writes"
named_theorems frame_simps "what an operation leaves alone"

subsection \<open>Words\<close>

lemma word_succ_nat: "(a::'a::len word) + of_nat (Suc i) = a + 1 + of_nat i"
  by (simp add: algebra_simps)

lemma of_nat_inj_word:
  assumes "i < 2 ^ LENGTH('a)" and "j < 2 ^ LENGTH('a)"
    and "(of_nat i :: 'a::len word) = of_nat j"
  shows "i = j"
  using assms by (metis take_bit_nat_eq_self unsigned_of_nat of_nat_id)

lemma unat_of_nat_u32: "n < 4294967296 \<Longrightarrow> unat (of_nat n :: u32) = n"
  by (simp add: unsigned_of_nat take_bit_nat_eq_self)

lemma u32_unat_less: "unat (x :: u32) < 4294967296"
  using unsigned_less [of x, where 'a = nat] by simp

lemma unat_Suc_u32: "unat (x :: u32) + 1 < 4294967296 \<Longrightarrow> unat (x + 1) = Suc (unat x)"
  by (simp add: unat_word_ariths)

lemma word_eq_minus_self: "(a :: 'a::len word) = a - b \<longleftrightarrow> b = 0"
  by (simp add: eq_diff_eq)

subsection \<open>Lists\<close>

lemma nth_Cons_pos: "0 < i \<Longrightarrow> (x # xs) ! i = xs ! (i - 1)"
  by (cases i) auto

lemma length_takeWhile_less: "x \<in> set xs \<Longrightarrow> \<not> P x \<Longrightarrow> length (takeWhile P xs) < length xs"
  by (induction xs) auto

lemma all_less_Suc_conv: "(\<forall>i < Suc n. P i) \<longleftrightarrow> P 0 \<and> (\<forall>i < n. P (Suc i))"
  using less_Suc_eq_0_disj by auto

end
