(* ===== verification/CMemory.thy ===== *)
theory CMemory
  imports Prelude
begin

text \<open>
  The byte-addressed memory that the C code of \<open>libk/\<close> reads and writes through pointers,
  the set of addresses a buffer occupies, and C strings in it. The store is explicit because
  several of the routines behave differently when their buffers overlap.
\<close>

type_synonym mem = "addr \<Rightarrow> u8"

text \<open>\<open>region a n\<close> is the set of the \<open>n\<close> addresses from \<open>a\<close> upwards (modulo \<open>2 ^ 32\<close>).\<close>

definition region :: "addr \<Rightarrow> nat \<Rightarrow> addr set" where
  "region a n = (\<lambda>i. a + of_nat i) ` {..<n}"

definition bytes_at :: "mem \<Rightarrow> addr \<Rightarrow> nat \<Rightarrow> u8 list" where
  "bytes_at m a n = map (\<lambda>i. m (a + of_nat i)) [0..<n]"

text \<open>\<open>cstr m a xs\<close>: at address \<open>a\<close> of \<open>m\<close> stands the string \<open>xs\<close> and its terminator.\<close>

primrec cstr :: "mem \<Rightarrow> addr \<Rightarrow> u8 list \<Rightarrow> bool" where
  "cstr m a [] \<longleftrightarrow> m a = 0"
| "cstr m a (x # xs) \<longleftrightarrow> m a = x \<and> x \<noteq> 0 \<and> cstr m (a + 1) xs"

subsection \<open>Regions\<close>

lemma region_0 [simp]: "region a 0 = {}"
  by (simp add: region_def)

lemma region_Suc: "region a (Suc n) = insert a (region (a + 1) n)"
proof -
  have "{..<Suc n} = insert 0 (Suc ` {..<n})"
    by (rule lessThan_Suc_eq_insert_0)
  then show ?thesis
    by (simp add: region_def image_image algebra_simps)
qed

lemma region_2: "region a 2 = {a, a + 1}"
  by (simp add: numeral_2_eq_2 region_Suc)

lemma region_Suc_last: "region a (Suc n) = insert (a + of_nat n) (region a n)"
  by (auto simp: region_def lessThan_Suc)

lemma region_mono: "n \<le> k \<Longrightarrow> region a n \<subseteq> region a k"
  by (auto simp: region_def)

lemma region_mem: "x \<in> region a n \<longleftrightarrow> (\<exists>i < n. x = a + of_nat i)"
  by (auto simp: region_def)

lemma region_memI: "i < n \<Longrightarrow> a + of_nat i \<in> region a n"
  by (auto simp: region_def)

lemma region_disjD:
  "region a n \<inter> region b k = {} \<Longrightarrow> i < n \<Longrightarrow> j < k \<Longrightarrow> a + of_nat i \<noteq> b + of_nat j"
  by (auto simp: region_def disjoint_iff)

lemma region_head_fresh:
  assumes "n < 2 ^ 32"
  shows "a \<notin> region (a + 1) n"
proof
  assume "a \<in> region (a + 1) n"
  then obtain i where "i < n" and "a = a + 1 + of_nat i"
    by (auto simp: region_mem)
  then have "(of_nat (Suc i) :: u32) = of_nat 0"
    by (simp add: algebra_simps)
  moreover have "Suc i < 2 ^ LENGTH(32)" using \<open>i < n\<close> assms by simp
  ultimately have "Suc i = 0"
    using of_nat_inj_word [of "Suc i" 0, where 'a = 32] by simp
  then show False by simp
qed

lemma region_offset_distinct:
  assumes "i < n" "j < n" "n \<le> 2 ^ 32" "(a :: addr) + of_nat i = a + of_nat j"
  shows "i = j"
  using assms of_nat_inj_word [of i j, where 'a = 32] by simp

lemma region_offset_sub:
  assumes "i + n \<le> k"
  shows "region (a + of_nat i) n \<subseteq> region a k"
proof
  fix x assume "x \<in> region (a + of_nat i) n"
  then obtain j where "j < n" "x = a + of_nat (i + j)"
    by (auto simp: region_mem add.assoc)
  then show "x \<in> region a k" using assms by (auto intro: region_memI simp del: of_nat_add)
qed

lemma region_offset_disj:
  assumes "i + n \<le> 2 ^ 32"
  shows "region (a + of_nat i) n \<inter> region a i = {}"
proof (rule ccontr)
  assume "region (a + of_nat i) n \<inter> region a i \<noteq> {}"
  then obtain j k where "j < n" "k < i" "a + of_nat (i + j) = a + of_nat k"
    by (auto simp: region_mem add.assoc)
  then show False
    using region_offset_distinct [of "i + j" "i + n" k a] assms by auto
qed

subsection \<open>Strings\<close>

lemma cstr_nth: "cstr m a xs \<Longrightarrow> i < length xs \<Longrightarrow> m (a + of_nat i) = xs ! i"
proof (induction xs arbitrary: a i)
  case Nil
  then show ?case by simp
next
  case (Cons x xs)
  then show ?case
    by (cases i) (auto simp: word_succ_nat simp del: of_nat_Suc)
qed

lemma cstr_end: "cstr m a xs \<Longrightarrow> m (a + of_nat (length xs)) = 0"
  by (induction xs arbitrary: a) (auto simp: word_succ_nat simp del: of_nat_Suc)

lemma cstr_nonzero: "cstr m a xs \<Longrightarrow> 0 \<notin> set xs"
  by (induction xs arbitrary: a) auto

lemma cstr_iff:
  "cstr m a xs \<longleftrightarrow>
     0 \<notin> set xs \<and> (\<forall>i < length xs. m (a + of_nat i) = xs ! i) \<and> m (a + of_nat (length xs)) = 0"
proof (induction xs arbitrary: a)
  case Nil
  then show ?case by simp
next
  case (Cons x xs)
  have "(\<forall>i < length (x # xs). m (a + of_nat i) = (x # xs) ! i) \<longleftrightarrow>
        m a = x \<and> (\<forall>i < length xs. m (a + 1 + of_nat i) = xs ! i)"
    by (auto simp: all_less_Suc_conv word_succ_nat simp del: of_nat_Suc)
  then show ?case
    by (auto simp: Cons.IH word_succ_nat simp del: of_nat_Suc)
qed

lemma cstr_unique: "cstr m a xs \<Longrightarrow> cstr m a ys \<Longrightarrow> xs = ys"
proof (induction xs arbitrary: a ys)
  case Nil
  then show ?case by (cases ys) auto
next
  case (Cons x xs)
  then show ?case by (cases ys) auto
qed

text \<open>A string fits in the address space: its bytes are at distinct addresses.\<close>

lemma cstr_length:
  assumes "cstr m a xs"
  shows "length xs < 2 ^ 32"
proof (rule ccontr)
  assume "\<not> length xs < 2 ^ 32"
  define k where "k = unat (of_nat (length xs) :: u32)"
  have "k < 2 ^ 32"
    using u32_unat_less by (simp add: k_def)
  then have "k < length xs"
    using \<open>\<not> length xs < 2 ^ 32\<close> by linarith
  have "m (a + of_nat k) = xs ! k"
    by (rule cstr_nth [OF assms \<open>k < length xs\<close>])
  moreover have "m (a + of_nat k) = 0"
    using cstr_end [OF assms] by (simp add: k_def)
  ultimately show False
    using cstr_nonzero [OF assms] \<open>k < length xs\<close> by (metis nth_mem)
qed

lemma cstr_upd [mem_simps]:
  "x \<notin> region a (Suc (length xs)) \<Longrightarrow> cstr (m(x := v)) a xs = cstr m a xs"
  by (induction xs arbitrary: a) (auto simp: region_Suc)

lemma cstr_cong:
  assumes "\<And>x. x \<in> region a (Suc (length xs)) \<Longrightarrow> m' x = m x"
  shows "cstr m' a xs = cstr m a xs"
  using assms
proof (induction xs arbitrary: a)
  case Nil
  then show ?case by (simp add: region_Suc)
next
  case (Cons x xs)
  have "m' a = m a" by (rule Cons.prems) (simp add: region_Suc)
  moreover have "cstr m' (a + 1) xs = cstr m (a + 1) xs"
    by (rule Cons.IH, rule Cons.prems) (subst region_Suc, simp)
  ultimately show ?case by simp
qed

lemma cstr_append:
  "cstr m a (xs @ ys) \<longleftrightarrow>
     0 \<notin> set xs \<and> (\<forall>i < length xs. m (a + of_nat i) = xs ! i) \<and> cstr m (a + of_nat (length xs)) ys"
proof (induction xs arbitrary: a)
  case Nil
  then show ?case by simp
next
  case (Cons x xs)
  then show ?case
    by (auto simp: all_less_Suc_conv word_succ_nat simp del: of_nat_Suc)
qed

lemma bytes_at_nth: "i < n \<Longrightarrow> bytes_at m a n ! i = m (a + of_nat i)"
  by (simp add: bytes_at_def)

lemma length_bytes_at [simp]: "length (bytes_at m a n) = n"
  by (simp add: bytes_at_def)

lemma bytes_at_0 [simp]: "bytes_at m a 0 = []"
  by (simp add: bytes_at_def)

lemma bytes_at_cong:
  "(\<And>x. x \<in> region a n \<Longrightarrow> m' x = m x) \<Longrightarrow> bytes_at m' a n = bytes_at m a n"
  by (simp add: bytes_at_def region_memI)

lemma bytes_at_Suc: "bytes_at m a (Suc n) = m a # bytes_at m (a + 1) n"
  by (rule nth_equalityI) (auto simp: bytes_at_nth nth_Cons word_succ_nat simp del: of_nat_Suc split: nat.splits)

end
