(* ===== verification/CType.thy ===== *)
theory CType
  imports CMemory
begin

text \<open>
  Character classification and case conversion: \<open>libk/ctypes.c\<close>, and the \<open>isalnum\<close> and
  \<open>lower\<close> of \<open>libk/string.c\<close>. A C \<open>char\<close> is signed on the target, so a byte handed to a
  parameter of type \<open>char\<close> or \<open>int\<close> is read with \<^const>\<open>sint\<close>.
\<close>

definition char_int :: "u8 \<Rightarrow> int" where
  "char_int c = sint c"

definition isspace :: "int \<Rightarrow> bool" where
  "isspace c \<longleftrightarrow> c = 32 \<or> c = 9 \<or> c = 10 \<or> c = 11 \<or> c = 12 \<or> c = 13"

definition isalpha :: "int \<Rightarrow> bool" where
  "isalpha c \<longleftrightarrow> (65 \<le> c \<and> c \<le> 90) \<or> (97 \<le> c \<and> c \<le> 122)"

definition tolower :: "int \<Rightarrow> int" where
  "tolower c = (if 65 \<le> c \<and> c \<le> 90 then c + (97 - 65) else c)"

definition isdigit :: "int \<Rightarrow> bool" where
  "isdigit c \<longleftrightarrow> 48 \<le> c \<and> c \<le> 57"

definition isxdigit :: "int \<Rightarrow> bool" where
  "isxdigit c \<longleftrightarrow> isdigit c \<or> (97 \<le> c \<and> c \<le> 102) \<or> (65 \<le> c \<and> c \<le> 70)"

definition islower :: "int \<Rightarrow> bool" where
  "islower c \<longleftrightarrow> 97 \<le> c \<and> c \<le> 122"

definition toupper :: "int \<Rightarrow> int" where
  "toupper c = (if islower c then c - (97 - 65) else c)"

definition upper :: "u8 \<Rightarrow> u8" where
  "upper c = (if 97 \<le> char_int c \<and> char_int c \<le> 122 then c - 32 else c)"

definition lower :: "u8 \<Rightarrow> u8" where
  "lower c = (if 65 \<le> char_int c \<and> char_int c \<le> 90 then c + 32 else c)"

definition isalnum :: "int \<Rightarrow> bool" where
  "isalnum c \<longleftrightarrow> (97 \<le> c \<and> c \<le> 122) \<or> (65 \<le> c \<and> c \<le> 90) \<or> (48 \<le> c \<and> c \<le> 57)"

lemmas ctype_defs = isspace_def isalpha_def tolower_def isdigit_def isxdigit_def
  islower_def toupper_def isalnum_def

subsection \<open>How the classes relate\<close>

lemma char_int_alt: "char_int c = (uint c + 128) mod 256 - 128"
  using int_word_sint [of "uint c", where 'a = 8] by (simp add: char_int_def)

lemma u8_uint_range: "0 \<le> uint (c :: u8)" "uint (c :: u8) < 256"
  using uint_lt2p [of c] by simp_all

lemma char_int_range: "- 128 \<le> char_int c \<and> char_int c < 128"
  by (simp add: char_int_alt)

lemma char_int_0 [simp]: "char_int 0 = 0"
  by (simp add: char_int_def)

lemma int_mod_shift:
  "0 \<le> u \<Longrightarrow> u < 256 \<Longrightarrow> (u + 128) mod 256 - 128 = (if u < 128 then u else u - (256 :: int))"
  by (cases "u < 128") (auto simp: mod_pos_pos_trivial mod_add_if_z)

lemma int_shift_inj:
  "0 \<le> u \<Longrightarrow> u < 256 \<Longrightarrow> 0 \<le> v \<Longrightarrow> v < 256 \<Longrightarrow>
     (if u < 128 then u else u - 256) = (if v < 128 then v else v - (256 :: int)) \<Longrightarrow> u = v"
  by (simp split: if_splits)

lemma int_between_shift:
  "0 \<le> u \<Longrightarrow> u < 256 \<Longrightarrow> 0 \<le> lo \<Longrightarrow> hi < 128 \<Longrightarrow>
     lo \<le> (if u < 128 then u else u - 256) \<and> (if u < 128 then u else u - 256) \<le> hi \<longleftrightarrow>
     lo \<le> u \<and> u \<le> (hi :: int)"
  by (cases "u < 128"; simp; linarith)

lemma char_int_cases:
  "char_int c = (if uint c < 128 then uint c else uint c - 256)"
  unfolding char_int_alt by (rule int_mod_shift [OF u8_uint_range])

lemma char_int_eq_iff [simp]: "char_int c = char_int d \<longleftrightarrow> c = d"
proof
  assume "char_int c = char_int d"
  then have "uint c = uint d"
    unfolding char_int_cases by (rule int_shift_inj [OF u8_uint_range u8_uint_range])
  then show "c = d" by (rule word_uint_eqI)
qed simp

lemma char_int_between:
  "0 \<le> lo \<Longrightarrow> hi < 128 \<Longrightarrow>
     lo \<le> char_int c \<and> char_int c \<le> hi \<longleftrightarrow> lo \<le> uint c \<and> uint c \<le> hi"
  unfolding char_int_cases by (rule int_between_shift [OF u8_uint_range])

text \<open>Case conversion only moves letters, and moving there and back is the identity on them.\<close>

lemma isalnum_split: "isalnum c \<longleftrightarrow> isalpha c \<or> isdigit c"
  by (auto simp: ctype_defs)

lemma isxdigit_alnum: "isxdigit c \<Longrightarrow> isalnum c"
  by (auto simp: ctype_defs)

lemma tolower_toupper: "islower c \<Longrightarrow> tolower (toupper c) = c"
  by (auto simp: ctype_defs)

lemma toupper_tolower: "isalpha c \<Longrightarrow> \<not> islower c \<Longrightarrow> toupper (tolower c) = c"
  by (auto simp: ctype_defs)

lemma isspace_not_digit: "isspace c \<Longrightarrow> \<not> isdigit c"
  by (auto simp: ctype_defs)

end
