(* ===== verification/CString.thy ===== *)
theory CString
  imports CType
begin

text \<open>
  The memory and string routines of \<open>libk/string.c\<close> over the byte store of \<open>CMemory\<close>. A
  routine that writes returns the new store; a routine whose loop stops only at a terminator
  is a \<open>partial_function (option)\<close>.
\<close>

subsection \<open>Blocks of memory\<close>

text \<open>\<open>memset\<close>: \<open>for (; n != 0; n--) *temp++ = c\<close>.\<close>

primrec memset_loop :: "mem \<Rightarrow> addr \<Rightarrow> u8 \<Rightarrow> nat \<Rightarrow> mem" where
  "memset_loop m temp c 0 = m"
| "memset_loop m temp c (Suc n) = memset_loop (m(temp := c)) (temp + 1) c n"

definition memset :: "mem \<Rightarrow> addr \<Rightarrow> u8 \<Rightarrow> u32 \<Rightarrow> mem" where
  "memset m dst c n = memset_loop m dst c (unat n)"

text \<open>The two copying loops of \<open>memcpy\<close> and \<open>memmove\<close>.\<close>

primrec copy_up :: "mem \<Rightarrow> addr \<Rightarrow> addr \<Rightarrow> nat \<Rightarrow> mem" where
  "copy_up m p q 0 = m"
| "copy_up m p q (Suc n) = copy_up (m(p := m q)) (p + 1) (q + 1) n"

primrec copy_down :: "mem \<Rightarrow> addr \<Rightarrow> addr \<Rightarrow> nat \<Rightarrow> mem" where
  "copy_down m p q 0 = m"
| "copy_down m p q (Suc n) = copy_down (m(p - 1 := m (q - 1))) (p - 1) (q - 1) n"

definition memcpy :: "mem \<Rightarrow> addr \<Rightarrow> addr \<Rightarrow> u32 \<Rightarrow> mem" where
  "memcpy m dst src n = copy_up m dst src (unat n)"

definition memmove :: "mem \<Rightarrow> addr \<Rightarrow> addr \<Rightarrow> u32 \<Rightarrow> mem" where
  "memmove m dest src sz =
     (if src < dest \<and> src + sz > dest
      then copy_down m (dest + sz) (src + sz) (unat sz)
      else copy_up m dest src (unat sz))"

text \<open>\<open>memcmp\<close> compares through \<open>unsigned char\<close>.\<close>

primrec memcmp_loop :: "mem \<Rightarrow> addr \<Rightarrow> addr \<Rightarrow> nat \<Rightarrow> int" where
  "memcmp_loop m s1 s2 0 = 0"
| "memcmp_loop m s1 s2 (Suc count) =
     (if m s1 \<noteq> m s2 then (if m s1 < m s2 then - 1 else 1)
      else memcmp_loop m (s1 + 1) (s2 + 1) count)"

definition memcmp :: "mem \<Rightarrow> addr \<Rightarrow> addr \<Rightarrow> u32 \<Rightarrow> int" where
  "memcmp m str1 str2 count = memcmp_loop m str1 str2 (unat count)"

text \<open>\<open>memcmp_string\<close> walks the same bytes with an index.\<close>

function memcmp_string_loop :: "mem \<Rightarrow> addr \<Rightarrow> addr \<Rightarrow> nat \<Rightarrow> nat \<Rightarrow> int" where
  "memcmp_string_loop m a b sz i =
     (if i < sz then
        (if m (a + of_nat i) < m (b + of_nat i) then - 1
         else if m (b + of_nat i) < m (a + of_nat i) then 1
         else memcmp_string_loop m a b sz (Suc i))
      else 0)"
  by pat_completeness auto
termination
  by (relation "measure (\<lambda>(m, a, b, sz, i). sz - i)") auto

declare memcmp_string_loop.simps [simp del]

definition memcmp_string :: "mem \<Rightarrow> addr \<Rightarrow> addr \<Rightarrow> u32 \<Rightarrow> int" where
  "memcmp_string m aptr bptr sz = memcmp_string_loop m aptr bptr (unat sz) 0"

subsection \<open>Scanning strings\<close>

partial_function (option) strchr :: "mem \<Rightarrow> addr \<Rightarrow> int \<Rightarrow> addr option" where
  "strchr m str character =
     (if m str = 0 then Some 0
      else if char_int (m str) = character then Some str
      else strchr m (str + 1) character)"

partial_function (option) strlen_loop :: "mem \<Rightarrow> addr \<Rightarrow> u32 \<Rightarrow> u32 option" where
  "strlen_loop m s len = (if m s = 0 then Some len else strlen_loop m (s + 1) (len + 1))"

definition strlen :: "mem \<Rightarrow> addr \<Rightarrow> u32 option" where
  "strlen m s = strlen_loop m s 0"

partial_function (option) strcmp_loop :: "mem \<Rightarrow> addr \<Rightarrow> addr \<Rightarrow> u32 \<Rightarrow> int option" where
  "strcmp_loop m s1 s2 i =
     (if m (s1 + i) = m (s2 + i)
      then (if m (s2 + i) = 0 then Some 0 else strcmp_loop m s1 s2 (i + 1))
      else Some 1)"

definition strcmp :: "mem \<Rightarrow> addr \<Rightarrow> addr \<Rightarrow> int option" where
  "strcmp m s1 s2 = strcmp_loop m s1 s2 0"

partial_function (option) strstr_loop :: "mem \<Rightarrow> addr \<Rightarrow> addr \<Rightarrow> u32 \<Rightarrow> addr option" where
  "strstr_loop m s1 s2 n =
     (if m s1 = 0 then Some 0
      else if memcmp_string m s1 s2 n = 0 then Some s1
      else strstr_loop m (s1 + 1) s2 n)"

definition strstr :: "mem \<Rightarrow> addr \<Rightarrow> addr \<Rightarrow> addr option" where
  "strstr m s1 s2 = do { n \<leftarrow> strlen m s2; strstr_loop m s1 s2 n }"

primrec strncmp_loop :: "mem \<Rightarrow> addr \<Rightarrow> addr \<Rightarrow> nat \<Rightarrow> int" where
  "strncmp_loop m s1 s2 0 = 0"
| "strncmp_loop m s1 s2 (Suc n) =
     (if m s1 \<noteq> m s2 then uint (m s1) - uint (m s2)
      else if m s1 = 0 then 0
      else strncmp_loop m (s1 + 1) (s2 + 1) n)"

definition strncmp :: "mem \<Rightarrow> addr \<Rightarrow> addr \<Rightarrow> u32 \<Rightarrow> int" where
  "strncmp m s1 s2 n = strncmp_loop m s1 s2 (unat n)"

partial_function (option) strrchr_loop :: "mem \<Rightarrow> addr \<Rightarrow> int \<Rightarrow> addr \<Rightarrow> addr option" where
  "strrchr_loop m str ch last_occurrence =
     (if m str = 0 then Some last_occurrence
      else strrchr_loop m (str + 1) ch
             (if char_int (m str) = ch then str else last_occurrence))"

definition strrchr :: "mem \<Rightarrow> addr \<Rightarrow> int \<Rightarrow> addr option" where
  "strrchr m str ch = (if str = 0 then Some 0 else strrchr_loop m str ch 0)"

partial_function (option) strcspn_loop :: "mem \<Rightarrow> addr \<Rightarrow> addr \<Rightarrow> u32 \<Rightarrow> u32 option" where
  "strcspn_loop m str reject len =
     (if m (str + len) = 0 then Some len
      else do {
        r \<leftarrow> strchr m reject (char_int (m (str + len)));
        if r \<noteq> 0 then Some len else strcspn_loop m str reject (len + 1)
      })"

definition strcspn :: "mem \<Rightarrow> addr \<Rightarrow> addr \<Rightarrow> u32 option" where
  "strcspn m str reject = strcspn_loop m str reject 0"

partial_function (option) string_length_loop :: "mem \<Rightarrow> addr \<Rightarrow> u32 \<Rightarrow> u32 option" where
  "string_length_loop m s i = (if m (s + i) \<noteq> 0 then string_length_loop m s (i + 1) else Some i)"

definition string_length :: "mem \<Rightarrow> addr \<Rightarrow> u32 option" where
  "string_length m s = string_length_loop m s 0"

subsection \<open>Building strings\<close>

definition ctos :: "mem \<Rightarrow> addr \<Rightarrow> u8 \<Rightarrow> mem" where
  "ctos m s c = m(s := c, s + 1 := 0)"

partial_function (option) strcpy_loop :: "mem \<Rightarrow> addr \<Rightarrow> addr \<Rightarrow> i32 \<Rightarrow> (i32 \<times> mem) option" where
  "strcpy_loop m dst src i =
     (if m src \<noteq> 0 then strcpy_loop (m(dst := m src)) (dst + 1) (src + 1) (i + 1)
      else Some (i, m(dst := m src)))"

definition strcpy :: "mem \<Rightarrow> addr \<Rightarrow> addr \<Rightarrow> (i32 \<times> mem) option" where
  "strcpy m dst src = strcpy_loop m dst src 0"

definition backspace :: "mem \<Rightarrow> addr \<Rightarrow> (bool \<times> mem) option" where
  "backspace m buffer = do {
     len \<leftarrow> strlen m buffer;
     Some (if 0 < sint len then (True, m(buffer + (len - 1) := 0)) else (False, m))
   }"

text \<open>\<open>strlen (src)\<close> is evaluated twice, the second time after the copy.\<close>

definition strcat :: "mem \<Rightarrow> addr \<Rightarrow> addr \<Rightarrow> mem option" where
  "strcat m dest src = do {
     dlen \<leftarrow> strlen m dest;
     n \<leftarrow> strlen m src;
     let m1 = memcpy m (dest + dlen) src n in do {
       n' \<leftarrow> strlen m1 src;
       Some (m1(dest + dlen + n' := 0))
     }
   }"

primrec strncpy_loop :: "mem \<Rightarrow> addr \<Rightarrow> addr \<Rightarrow> nat \<Rightarrow> mem" where
  "strncpy_loop m d s 0 = m"
| "strncpy_loop m d s (Suc n) =
     (if m s = 0 then memset_loop (m(d := m s)) (d + 1) 0 n
      else strncpy_loop (m(d := m s)) (d + 1) (s + 1) n)"

definition strncpy :: "mem \<Rightarrow> addr \<Rightarrow> addr \<Rightarrow> u32 \<Rightarrow> mem" where
  "strncpy m dst src n = strncpy_loop m dst src (unat n)"

definition strncat :: "mem \<Rightarrow> addr \<Rightarrow> addr \<Rightarrow> u32 \<Rightarrow> mem option" where
  "strncat m dest src destSize = do {
     destLen \<leftarrow> strlen m dest;
     srcLen \<leftarrow> strlen m src;
     let availableSpace = destSize - destLen;
         srcLen' = (if srcLen \<ge> availableSpace then availableSpace - 1 else srcLen);
         m1 = strncpy m (dest + destLen) src srcLen'
     in Some (m1(dest + (destLen + srcLen') := 0))
   }"

definition append_c :: "mem \<Rightarrow> addr \<Rightarrow> u8 \<Rightarrow> mem option" where
  "append_c m s n = do {
     len \<leftarrow> string_length m s;
     Some (m(s + len := n, s + (len + 1) := 0))
   }"

partial_function (option) parse_string_loop ::
  "mem \<Rightarrow> addr \<Rightarrow> addr \<Rightarrow> u8 \<Rightarrow> u32 \<Rightarrow> mem option" where
  "parse_string_loop m parser string c i =
     (if m (string + i) \<noteq> c
      then parse_string_loop (m(parser + i := m (string + i))) parser string c (i + 1)
      else Some (m(parser + i := 0)))"

definition parse_string :: "mem \<Rightarrow> addr \<Rightarrow> addr \<Rightarrow> u8 \<Rightarrow> mem option" where
  "parse_string m parser string c = parse_string_loop m parser string c 0"

subsection \<open>Tokenising\<close>

text \<open>
  \<open>strtok\<close> keeps its position in the static variable \<open>next_token\<close>, which is an argument and a
  result here. \<open>is_delim\<close> is the test \<open>strchr (delimiters, *next_token) != NULL\<close>.
\<close>

definition is_delim :: "mem \<Rightarrow> addr \<Rightarrow> u8 \<Rightarrow> bool option" where
  "is_delim m delimiters c = map_option (\<lambda>r. r \<noteq> 0) (strchr m delimiters (char_int c))"

partial_function (option) skip_delims :: "mem \<Rightarrow> addr \<Rightarrow> addr \<Rightarrow> addr option" where
  "skip_delims m delimiters p =
     (if m p = 0 then Some p
      else do {
        d \<leftarrow> is_delim m delimiters (m p);
        if d then skip_delims m delimiters (p + 1) else Some p
      })"

partial_function (option) skip_token :: "mem \<Rightarrow> addr \<Rightarrow> addr \<Rightarrow> addr option" where
  "skip_token m delimiters p =
     (if m p = 0 then Some p
      else do {
        d \<leftarrow> is_delim m delimiters (m p);
        if d then Some p else skip_token m delimiters (p + 1)
      })"

text \<open>The result is (returned pointer, new \<open>next_token\<close>, new memory).\<close>

definition strtok_from :: "mem \<Rightarrow> addr \<Rightarrow> addr \<Rightarrow> (addr \<times> addr \<times> mem) option" where
  "strtok_from m next_token delimiters = do {
     current_token \<leftarrow> skip_delims m delimiters next_token;
     if m current_token = 0 then Some (0, current_token, m)
     else do {
       stop \<leftarrow> skip_token m delimiters current_token;
       Some (if m stop \<noteq> 0 then (current_token, stop + 1, m(stop := 0))
             else (current_token, stop, m))
     }
   }"

definition strtok :: "mem \<Rightarrow> addr \<Rightarrow> addr \<Rightarrow> addr \<Rightarrow> (addr \<times> addr \<times> mem) option" where
  "strtok m next_token str delimiters =
     strtok_from m (if str \<noteq> 0 then str else next_token) delimiters"

text \<open>\<open>strtok_r\<close> keeps the position behind \<open>saveptr\<close>; the result is as for \<open>strtok\<close>.\<close>

definition strtok_r :: "mem \<Rightarrow> addr \<Rightarrow> addr \<Rightarrow> addr \<Rightarrow> (addr \<times> addr \<times> mem) option" where
  "strtok_r m saveptr str delim =
     (if str = 0 \<and> saveptr = 0 then Some (0, saveptr, m)
      else do {
        p \<leftarrow> skip_token m delim (if str \<noteq> 0 then str else saveptr);
        Some (if m p \<noteq> 0 then (str, p + 1, m(p := 0)) else (str, 0, m))
      })"


subsection \<open>Copying and filling blocks\<close>

lemma memset_loop_frame [frame_simps]:
  "x \<notin> region p n \<Longrightarrow> memset_loop m p c n x = m x"
  by (induction n arbitrary: m p) (auto simp: region_Suc)

lemma memset_loop_inside: "x \<in> region p n \<Longrightarrow> memset_loop m p c n x = c"
proof (induction n arbitrary: m p)
  case 0
  then show ?case by simp
next
  case (Suc n)
  then show ?case
    by (cases "x \<in> region (p + 1) n") (auto simp: region_Suc memset_loop_frame)
qed

text \<open>
  An upward copy is right as soon as no byte is overwritten before it is read: the \<open>i\<close>-th
  write must not hit the \<open>j\<close>-th source byte for \<open>i < j\<close>.
\<close>

lemma copy_up_frame [frame_simps]: "x \<notin> region p n \<Longrightarrow> copy_up m p q n x = m x"
  by (induction n arbitrary: m p q) (auto simp: region_Suc)

lemma copy_up_spec:
  assumes "n \<le> 2 ^ 32"
    and "\<And>i j. i < j \<Longrightarrow> j < n \<Longrightarrow> p + of_nat i \<noteq> q + of_nat j"
    and "i < n"
  shows "copy_up m p q n (p + of_nat i) = m (q + of_nat i)"
  using assms
proof (induction n arbitrary: m p q i)
  case 0
  then show ?case by simp
next
  case (Suc n)
  let ?m = "m(p := m q)"
  show ?case
  proof (cases i)
    case 0
    have "p \<notin> region (p + 1) n"
      by (rule region_head_fresh) (use Suc.prems(1) in simp)
    with 0 show ?thesis by (simp add: copy_up_frame)
  next
    case (Suc k)
    have "copy_up ?m (p + 1) (q + 1) n (p + 1 + of_nat k) = ?m (q + 1 + of_nat k)"
    proof (rule Suc.IH)
      fix i j assume "i < j" "j < n"
      then show "p + 1 + of_nat i \<noteq> q + 1 + of_nat j"
        using Suc.prems(2) [of "Suc i" "Suc j"] by (simp add: algebra_simps)
    qed (use Suc.prems(1,3) Suc in simp_all)
    moreover have "p \<noteq> q + 1 + of_nat k"
      using Suc.prems(2) [of 0 "Suc k"] Suc.prems(3) Suc by (simp add: algebra_simps)
    ultimately show ?thesis
      using Suc by (simp add: algebra_simps)
  qed
qed

lemma copy_down_frame [frame_simps]:
  "(\<And>i. i < n \<Longrightarrow> x \<noteq> p - of_nat (Suc i)) \<Longrightarrow> copy_down m p q n x = m x"
proof (induction n arbitrary: m p q)
  case 0
  then show ?case by simp
next
  case (Suc n)
  have "x \<noteq> p - 1" using Suc.prems [of 0] by simp
  moreover have "copy_down (m(p - 1 := m (q - 1))) (p - 1) (q - 1) n x
      = (m(p - 1 := m (q - 1))) x"
  proof (rule Suc.IH)
    fix i assume "i < n"
    then show "x \<noteq> p - 1 - of_nat (Suc i)"
      using Suc.prems [of "Suc i"] by (simp add: algebra_simps)
  qed
  ultimately show ?case by simp
qed

lemma copy_down_spec:
  assumes "n \<le> 2 ^ 32"
    and "\<And>i j. i < j \<Longrightarrow> j < n \<Longrightarrow> p - of_nat (Suc i) \<noteq> q - of_nat (Suc j)"
    and "i < n"
  shows "copy_down m p q n (p - of_nat (Suc i)) = m (q - of_nat (Suc i))"
  using assms
proof (induction n arbitrary: m p q i)
  case 0
  then show ?case by simp
next
  case (Suc n)
  let ?m = "m(p - 1 := m (q - 1))"
  show ?case
  proof (cases i)
    case 0
    have "copy_down ?m (p - 1) (q - 1) n (p - 1) = ?m (p - 1)"
    proof (rule copy_down_frame)
      fix i assume "i < n"
      have "p - 1 \<noteq> p - 1 - of_nat (Suc i)"
      proof
        assume "p - 1 = p - 1 - of_nat (Suc i)"
        then have "(of_nat (Suc i) :: u32) = of_nat 0"
          unfolding word_eq_minus_self by simp
        moreover have "Suc i < 2 ^ LENGTH(32)" using \<open>i < n\<close> Suc.prems(1) by simp
        ultimately show False
          using of_nat_inj_word [of "Suc i" 0, where 'a = 32] by simp
      qed
      then show "p - 1 \<noteq> p - 1 - of_nat (Suc i)" .
    qed
    with 0 show ?thesis by simp
  next
    case (Suc k)
    have "copy_down ?m (p - 1) (q - 1) n (p - 1 - of_nat (Suc k)) = ?m (q - 1 - of_nat (Suc k))"
    proof (rule Suc.IH)
      fix i j assume "i < j" "j < n"
      then show "p - 1 - of_nat (Suc i) \<noteq> q - 1 - of_nat (Suc j)"
        using Suc.prems(2) [of "Suc i" "Suc j"] by (simp add: algebra_simps)
    qed (use Suc.prems(1,3) Suc in simp_all)
    moreover have "p - 1 \<noteq> q - 1 - of_nat (Suc k)"
      using Suc.prems(2) [of 0 "Suc k"] Suc.prems(3) Suc by (simp add: algebra_simps)
    ultimately show ?thesis
      using Suc by (simp add: algebra_simps)
  qed
qed

lemma memcpy_frame [frame_simps]: "x \<notin> region dst (unat n) \<Longrightarrow> memcpy m dst src n x = m x"
  by (simp add: memcpy_def copy_up_frame)

lemma memcpy_disjoint:
  assumes "region dst (unat n) \<inter> region src (unat n) = {}"
  shows "bytes_at (memcpy m dst src n) dst (unat n) = bytes_at m src (unat n)"
proof (rule nth_equalityI)
  fix i assume "i < length (bytes_at (memcpy m dst src n) dst (unat n))"
  then have "i < unat n" by simp
  then show "bytes_at (memcpy m dst src n) dst (unat n) ! i = bytes_at m src (unat n) ! i"
    using region_disjD [OF assms] u32_unat_less [of n]
    by (simp add: memcpy_def bytes_at_nth copy_up_spec)
qed simp

subsection \<open>Word arithmetic without wrap-around\<close>

lemma unat_plus_u32:
  "unat (a :: u32) + i < 2 ^ 32 \<Longrightarrow> unat (a + of_nat i) = unat a + i"
  by (simp add: unat_word_ariths unat_of_nat)

lemma u32_plus_neq:
  assumes "unat (a :: u32) + i < 2 ^ 32" "unat (b :: u32) + j < 2 ^ 32" "unat a + i \<noteq> unat b + j"
  shows "a + of_nat i \<noteq> b + of_nat j"
  using assms by (metis unat_plus_u32)

lemma u32_sub_from_end:
  "i < unat (n :: u32) \<Longrightarrow> a + n - of_nat (Suc i) = a + of_nat (unat n - Suc i)"
  by (simp add: of_nat_diff)


subsection \<open>memmove copies correctly whether or not the blocks overlap\<close>

lemma memmove_frame [frame_simps]:
  assumes "x \<notin> region dest (unat sz)"
  shows "memmove m dest src sz x = m x"
proof (cases "src < dest \<and> src + sz > dest")
  case True
  have "copy_down m (dest + sz) (src + sz) (unat sz) x = m x"
  proof (rule copy_down_frame)
    fix i assume "i < unat sz"
    then have "dest + sz - of_nat (Suc i) \<in> region dest (unat sz)"
      unfolding u32_sub_from_end [OF \<open>i < unat sz\<close>] by (intro region_memI) simp
    with assms(1) show "x \<noteq> dest + sz - of_nat (Suc i)" by metis
  qed
  with True show ?thesis by (simp add: memmove_def)
next
  case False
  then show ?thesis using assms by (auto simp: memmove_def copy_up_frame)
qed

lemma memmove_byte:
  assumes nd: "unat dest + unat sz < 2 ^ 32" and ns: "unat src + unat sz < 2 ^ 32"
    and i: "i < unat sz"
  shows "memmove m dest src sz (dest + of_nat i) = m (src + of_nat i)"
proof (cases "src < dest \<and> src + sz > dest")
  case True
  then have lt: "unat src < unat dest" by (simp add: word_less_nat_alt)
  let ?k = "unat sz - Suc i"
  have k: "?k < unat sz" "unat sz - Suc ?k = i" using i by auto
  have "copy_down m (dest + sz) (src + sz) (unat sz) (dest + sz - of_nat (Suc ?k))
      = m (src + sz - of_nat (Suc ?k))"
  proof (rule copy_down_spec)
    fix i j :: nat assume "i < j" "j < unat sz"
    then show "dest + sz - of_nat (Suc i) \<noteq> src + sz - of_nat (Suc j)"
      unfolding u32_sub_from_end [OF \<open>j < unat sz\<close>]
        u32_sub_from_end [OF order.strict_trans [OF \<open>i < j\<close> \<open>j < unat sz\<close>]]
      using nd ns lt by (intro u32_plus_neq) auto
  qed (use k u32_unat_less [of sz] in simp_all)
  then have "copy_down m (dest + sz) (src + sz) (unat sz) (dest + of_nat i) = m (src + of_nat i)"
    unfolding u32_sub_from_end [OF k(1)] k(2) .
  with True show ?thesis by (simp add: memmove_def)
next
  case False
  have "src + sz = src + of_nat (unat sz)" by simp
  then have "unat (src + sz) = unat src + unat sz"
    using unat_plus_u32 [of src "unat sz"] ns by simp
  then have "unat dest \<le> unat src \<or> unat src + unat sz \<le> unat dest"
    using False by (auto simp: word_less_nat_alt)
  then have "copy_up m dest src (unat sz) (dest + of_nat i) = m (src + of_nat i)"
    using nd ns i u32_unat_less [of sz]
    by (intro copy_up_spec u32_plus_neq) auto
  with False show ?thesis by (auto simp: memmove_def)
qed

text \<open>\<open>memcmp\<close> and \<open>memcmp_string\<close> compute the same function, and both decide equality.\<close>

lemma memcmp_loop_zero: "memcmp_loop m a b n = 0 \<longleftrightarrow> bytes_at m a n = bytes_at m b n"
  by (induction n arbitrary: a b) (auto simp: bytes_at_Suc)

lemma memcmp_string_loop_eq:
  "i \<le> n \<Longrightarrow> memcmp_string_loop m a b n i = memcmp_loop m (a + of_nat i) (b + of_nat i) (n - i)"
proof (induction m a b n i rule: memcmp_string_loop.induct)
  case (1 m a b sz i)
  show ?case
  proof (cases "i < sz")
    case True
    then obtain k where k: "sz = Suc (i + k)" using less_imp_Suc_add by blast
    with True "1.IH" show ?thesis
      by (subst memcmp_string_loop.simps) (auto simp: k algebra_simps not_less order_antisym)
  next
    case False
    with "1.prems" show ?thesis by (simp add: memcmp_string_loop.simps)
  qed
qed

lemma memcmp_string_eq: "memcmp_string m a b n = memcmp m a b n"
  using memcmp_string_loop_eq [of 0 "unat n"] by (simp add: memcmp_string_def memcmp_def)

lemma memcmp_zero: "memcmp m a b n = 0 \<longleftrightarrow> bytes_at m a (unat n) = bytes_at m b (unat n)"
  by (simp add: memcmp_def memcmp_loop_zero)

subsection \<open>Scanning\<close>

lemma strlen_loop_cstr: "cstr m s xs \<Longrightarrow> strlen_loop m s len = Some (len + of_nat (length xs))"
proof (induction xs arbitrary: s len)
  case Nil
  then show ?case by (subst strlen_loop.simps) simp
next
  case (Cons x xs)
  then show ?case by (subst strlen_loop.simps) (simp add: algebra_simps)
qed

lemma strlen_cstr: "cstr m s xs \<Longrightarrow> strlen m s = Some (of_nat (length xs))"
  by (simp add: strlen_def strlen_loop_cstr)

lemma unat_strlen: "cstr m s xs \<Longrightarrow> unat (of_nat (length xs) :: u32) = length xs"
  using cstr_length [of m s xs] by (simp add: unat_of_nat_u32)

lemma string_length_cstr: "cstr m s xs \<Longrightarrow> string_length m s = Some (of_nat (length xs))"
proof -
  have "cstr m (s + i) xs \<Longrightarrow> string_length_loop m s i = Some (i + of_nat (length xs))" for i
  proof (induction xs arbitrary: i)
    case Nil
    then show ?case by (subst string_length_loop.simps) simp
  next
    case (Cons x xs)
    then have "string_length_loop m s (i + 1) = Some (i + 1 + of_nat (length xs))"
      by (intro Cons.IH) (simp add: algebra_simps)
    with Cons.prems show ?case
      by (subst string_length_loop.simps) (simp add: algebra_simps)
  qed
  from this [of 0] show "cstr m s xs \<Longrightarrow> ?thesis" by (simp add: string_length_def)
qed

lemma strcmp_loop_cstr:
  "cstr m (s1 + i) xs \<Longrightarrow> cstr m (s2 + i) ys \<Longrightarrow>
     strcmp_loop m s1 s2 i = Some (if xs = ys then 0 else 1)"
proof (induction xs arbitrary: i ys)
  case Nil
  then show ?case by (subst strcmp_loop.simps) (cases ys; auto)
next
  case (Cons x xs)
  show ?case
  proof (cases ys)
    case Nil
    with Cons.prems show ?thesis by (subst strcmp_loop.simps) auto
  next
    case (Cons y zs)
    with Cons.prems have "x = y \<Longrightarrow> strcmp_loop m s1 s2 (i + 1) = Some (if xs = zs then 0 else 1)"
      by (intro Cons.IH) (simp_all add: algebra_simps)
    with Cons.prems Cons show ?thesis by (subst strcmp_loop.simps) auto
  qed
qed

lemma strncmp_loop_cstr:
  "cstr m s1 xs \<Longrightarrow> cstr m s2 ys \<Longrightarrow> strncmp_loop m s1 s2 n = 0 \<longleftrightarrow> take n xs = take n ys"
proof (induction n arbitrary: s1 s2 xs ys)
  case 0
  then show ?case by simp
next
  case (Suc n)
  then show ?case by (cases xs; cases ys) (auto simp: word_uint_eq_iff)
qed

lemma strncmp_cstr:
  "cstr m s1 xs \<Longrightarrow> cstr m s2 ys \<Longrightarrow>
     strncmp m s1 s2 n = 0 \<longleftrightarrow> take (unat n) xs = take (unat n) ys"
  by (simp add: strncmp_def strncmp_loop_cstr)

text \<open>\<open>strchr\<close> finds the first occurrence; it never reports the terminator.\<close>

lemma strchr_cstr:
  assumes "cstr m s xs"
  shows "strchr m s ch =
     Some (if ch \<in> char_int ` set xs
           then s + of_nat (length (takeWhile (\<lambda>x. char_int x \<noteq> ch) xs)) else 0)"
  using assms
proof (induction xs arbitrary: s)
  case Nil
  then show ?case by (subst strchr.simps) simp
next
  case (Cons x xs)
  then show ?case by (subst strchr.simps) (auto simp: algebra_simps)
qed

lemma strrchr_loop_cstr:
  "cstr m s xs \<Longrightarrow> strrchr_loop m s ch r =
     Some (if ch \<in> char_int ` set xs
           then s + of_nat (length xs - Suc (length (takeWhile (\<lambda>x. char_int x \<noteq> ch) (rev xs))))
           else r)"
proof (induction xs arbitrary: s r)
  case Nil
  then show ?case by (subst strrchr_loop.simps) simp
next
  case (Cons x xs)
  let ?P = "\<lambda>x. char_int x \<noteq> ch"
  have IH: "strrchr_loop m (s + 1) ch r' =
     Some (if ch \<in> char_int ` set xs
           then s + 1 + of_nat (length xs - Suc (length (takeWhile ?P (rev xs)))) else r')" for r'
    using Cons by simp
  show ?case
  proof (cases "ch \<in> char_int ` set xs")
    case True
    then have tw: "takeWhile ?P (rev (x # xs)) = takeWhile ?P (rev xs)"
      by (auto simp: takeWhile_append)
    from True obtain z where "z \<in> set (rev xs)" "\<not> ?P z" by auto
    then have "length (takeWhile ?P (rev xs)) < length (rev xs)"
      by (rule length_takeWhile_less)
    with True tw IH Cons.prems show ?thesis
      by (subst strrchr_loop.simps) (simp add: of_nat_diff Suc_diff_le algebra_simps)
  next
    case False
    then have "takeWhile ?P (rev xs) = rev xs" by (auto simp: takeWhile_eq_all_conv)
    with False IH Cons.prems show ?thesis
      by (subst strrchr_loop.simps) (auto simp: takeWhile_append)
  qed
qed


lemma strrchr_cstr:
  "cstr m s xs \<Longrightarrow> s \<noteq> 0 \<Longrightarrow> strrchr m s ch =
     Some (if ch \<in> char_int ` set xs
           then s + of_nat (length xs - Suc (length (takeWhile (\<lambda>x. char_int x \<noteq> ch) (rev xs))))
           else 0)"
  by (simp add: strrchr_def strrchr_loop_cstr)

text \<open>
  The test for a delimiter: it needs the delimiter string not to lie at address 0, where a hit
  could not be told from \<open>NULL\<close>.
\<close>

lemma strchr_found:
  assumes "cstr m s xs" and "0 \<notin> region s (length xs)"
  shows "\<exists>r. strchr m s ch = Some r \<and> (r \<noteq> 0 \<longleftrightarrow> ch \<in> char_int ` set xs)"
proof (cases "ch \<in> char_int ` set xs")
  case True
  let ?P = "\<lambda>x. char_int x \<noteq> ch"
  have "length (takeWhile ?P xs) < length xs"
    using True by (auto intro: length_takeWhile_less)
  then have "s + of_nat (length (takeWhile ?P xs)) \<in> region s (length xs)"
    by (rule region_memI)
  then have "s + of_nat (length (takeWhile ?P xs)) \<noteq> 0"
    using assms(2) by metis
  with True show ?thesis by (simp add: strchr_cstr [OF assms(1)])
next
  case False
  then show ?thesis by (simp add: strchr_cstr [OF assms(1)])
qed

lemma is_delim_cstr:
  assumes "cstr m d ds" and "0 \<notin> region d (length ds)"
  shows "is_delim m d c = Some (c \<in> set ds)"
proof -
  obtain r where r: "strchr m d (char_int c) = Some r"
      "r \<noteq> 0 \<longleftrightarrow> char_int c \<in> char_int ` set ds"
    using strchr_found [OF assms] by blast
  moreover have "char_int c \<in> char_int ` set ds \<longleftrightarrow> c \<in> set ds"
    by (auto simp: image_iff)
  ultimately show ?thesis by (simp add: is_delim_def)
qed

lemma strcspn_cstr:
  assumes "cstr m s xs" and "cstr m r rs" and "0 \<notin> region r (length rs)"
  shows "strcspn m s r = Some (of_nat (length (takeWhile (\<lambda>x. x \<notin> set rs) xs)))"
proof -
  have "cstr m (s + i) ys \<Longrightarrow>
      strcspn_loop m s r i = Some (i + of_nat (length (takeWhile (\<lambda>x. x \<notin> set rs) ys)))" for ys i
  proof (induction ys arbitrary: i)
    case Nil
    then show ?case by (subst strcspn_loop.simps) simp
  next
    case (Cons y ys)
    obtain q where q: "strchr m r (char_int (m (s + i))) = Some q"
      "q \<noteq> 0 \<longleftrightarrow> char_int (m (s + i)) \<in> char_int ` set rs"
      using strchr_found [OF assms(2,3)] by blast
    have "q \<noteq> 0 \<longleftrightarrow> y \<in> set rs" using q(2) Cons.prems by (auto simp: image_iff)
    moreover have "strcspn_loop m s r (i + 1) =
        Some (i + 1 + of_nat (length (takeWhile (\<lambda>x. x \<notin> set rs) ys)))"
      using Cons.prems by (intro Cons.IH) (simp add: algebra_simps)
    ultimately show ?case
      using Cons.prems q(1) by (subst strcspn_loop.simps) (simp add: algebra_simps)
  qed
  from this [of 0 xs] assms(1) show ?thesis by (simp add: strcspn_def)
qed

subsection \<open>Building strings\<close>

lemma region_tail_disj:
  "region a (Suc n) \<inter> region b (Suc k) = {} \<Longrightarrow> region (a + 1) n \<inter> region (b + 1) k = {}"
  by (auto simp: region_Suc)

text \<open>
  Copying a string to a disjoint buffer leaves it there, returns its length, and touches
  nothing but the buffer.
\<close>

lemma strcpy_loop_cstr:
  assumes "cstr m src xs"
    and "region dst (Suc (length xs)) \<inter> region src (Suc (length xs)) = {}"
  shows "\<exists>m'. strcpy_loop m dst src i = Some (i + of_nat (length xs), m') \<and>
     cstr m' dst xs \<and> (\<forall>x. x \<notin> region dst (Suc (length xs)) \<longrightarrow> m' x = m x)"
  using assms
proof (induction xs arbitrary: m dst src i)
  case Nil
  then show ?case by (subst strcpy_loop.simps) (auto simp: region_Suc)
next
  case (Cons x xs)
  let ?m = "m(dst := x)"
  let ?n = "Suc (length xs)"
  have "dst \<notin> region (src + 1) ?n"
    using Cons.prems(2) region_Suc [of src ?n] region_Suc [of dst ?n] by auto
  then have "cstr ?m (src + 1) xs"
    using Cons.prems(1) by (simp add: cstr_upd)
  moreover have "region (dst + 1) ?n \<inter> region (src + 1) ?n = {}"
    using Cons.prems(2) by (intro region_tail_disj) simp
  ultimately obtain m' where m':
      "strcpy_loop ?m (dst + 1) (src + 1) (i + 1) = Some (i + 1 + of_nat (length xs), m')"
      "cstr m' (dst + 1) xs" "\<And>y. y \<notin> region (dst + 1) ?n \<Longrightarrow> m' y = ?m y"
    using Cons.IH by blast
  have "dst \<notin> region (dst + 1) ?n"
    using cstr_length [OF Cons.prems(1)] by (intro region_head_fresh) simp
  then have "cstr m' dst (x # xs)" using m' Cons.prems(1) by simp
  moreover have "strcpy_loop m dst src i = Some (i + of_nat (length (x # xs)), m')"
    using m'(1) Cons.prems(1) by (subst strcpy_loop.simps) (simp add: algebra_simps)
  moreover have "\<forall>y. y \<notin> region dst (Suc (length (x # xs))) \<longrightarrow> m' y = m y"
    using m'(3) by (simp add: region_Suc [of dst "Suc (length xs)"])
  ultimately show ?case by blast
qed

lemma strcpy_cstr:
  assumes "cstr m src xs"
    and "region dst (Suc (length xs)) \<inter> region src (Suc (length xs)) = {}"
  shows "\<exists>m'. strcpy m dst src = Some (of_nat (length xs), m') \<and>
     cstr m' dst xs \<and> (\<forall>x. x \<notin> region dst (Suc (length xs)) \<longrightarrow> m' x = m x)"
  using strcpy_loop_cstr [OF assms, of 0] by (simp add: strcpy_def)


lemma strcat_cstr:
  assumes d: "cstr m dest ds" and s: "cstr m src ss"
    and disj: "region (dest + of_nat (length ds)) (Suc (length ss)) \<inter> region src (Suc (length ss)) = {}"
    and fits: "length ds + length ss < 2 ^ 32"
  shows "\<exists>m'. strcat m dest src = Some m' \<and> cstr m' dest (ds @ ss) \<and>
     (\<forall>x. x \<notin> region (dest + of_nat (length ds)) (Suc (length ss)) \<longrightarrow> m' x = m x)"
proof -
  let ?e = "dest + of_nat (length ds)"
  let ?n = "of_nat (length ss) :: u32"
  let ?m1 = "memcpy m ?e src ?n"
  let ?m' = "?m1(?e + ?n := 0)"
  have n: "unat ?n = length ss" by (rule unat_strlen [OF s])
  have fr: "?m1 x = m x" if "x \<notin> region ?e (length ss)" for x
    using that by (simp add: memcpy_frame n)
  have sub: "region ?e (length ss) \<subseteq> region ?e (Suc (length ss))"
    by (rule region_mono) simp
  have "cstr ?m1 src ss = cstr m src ss"
    using disj sub by (intro cstr_cong fr) auto
  then have len: "strlen ?m1 src = Some ?n" using s strlen_cstr by simp
  have "bytes_at ?m1 ?e (length ss) = bytes_at m src (length ss)"
    using disj sub region_mono [of "length ss" "Suc (length ss)" src]
      memcpy_disjoint [of ?e ?n src m] n by auto
  then have copied: "?m1 (?e + of_nat i) = ss ! i" if "i < length ss" for i
    using that cstr_nth [OF s that] bytes_at_nth [OF that] by metis
  have "?m' (?e + of_nat i) = ss ! i" if "i < length ss" for i
    using that copied [OF that] region_offset_distinct [of i "Suc (length ss)" "length ss" ?e]
      cstr_length [OF s] by auto
  then have "cstr ?m' ?e ss"
    using cstr_nonzero [OF s] by (simp add: cstr_iff)
  moreover have out: "?m' x = m x" if "x \<notin> region ?e (Suc (length ss))" for x
    using that fr sub region_memI [of "length ss" "Suc (length ss)" ?e] by auto
  moreover have "?m' (dest + of_nat i) = ds ! i" if "i < length ds" for i
  proof -
    have "dest + of_nat i \<notin> region ?e (Suc (length ss))"
      using region_offset_disj [of "length ds" "Suc (length ss)" dest] fits
        region_memI [OF that, of dest] by auto
    then show ?thesis using out cstr_nth [OF d that] by metis
  qed
  ultimately have "cstr ?m' dest (ds @ ss)"
    using cstr_nonzero [OF d] by (simp add: cstr_append)
  moreover have "strcat m dest src = Some ?m'"
    using strlen_cstr [OF d] strlen_cstr [OF s] len by (simp add: strcat_def Let_def)
  ultimately show ?thesis using out by blast
qed

lemma strncpy_loop_frame [frame_simps]:
  "x \<notin> region d n \<Longrightarrow> strncpy_loop m d s n x = m x"
  by (induction n arbitrary: m d s) (auto simp: region_Suc memset_loop_frame)

lemma strncpy_loop_cstr:
  assumes "cstr m s xs" and "region d n \<inter> region s (Suc (length xs)) = {}" and "n \<le> 2 ^ 32"
    and "i < n"
  shows "strncpy_loop m d s n (d + of_nat i) = (if i < length xs then xs ! i else 0)"
  using assms
proof (induction n arbitrary: m d s xs i)
  case 0
  then show ?case by simp
next
  case (Suc n)
  have fresh: "d \<notin> region (d + 1) n"
    by (rule region_head_fresh) (use Suc.prems(3) in simp)
  show ?case
  proof (cases xs)
    case Nil
    then show ?thesis
      using Suc.prems(1,4) fresh region_memI [of "i - 1" n "d + 1"]
      by (cases i) (auto simp: memset_loop_frame memset_loop_inside word_succ_nat simp del: of_nat_Suc)
  next
    case (Cons y ys)
    let ?m = "m(d := y)"
    have "d \<notin> region (s + 1) (Suc (length ys))"
      using Suc.prems(2) Cons region_Suc [of d n] region_Suc [of s "Suc (length ys)"] by auto
    then have s1: "cstr ?m (s + 1) ys" using Suc.prems(1) Cons by (simp add: cstr_upd)
    have dj: "region (d + 1) n \<inter> region (s + 1) (Suc (length ys)) = {}"
      using Suc.prems(2) Cons by (intro region_tail_disj) simp
    show ?thesis
    proof (cases i)
      case 0
      then show ?thesis using Suc.prems(1) Cons fresh by (simp add: strncpy_loop_frame)
    next
      case (Suc k)
      have "strncpy_loop ?m (d + 1) (s + 1) n (d + 1 + of_nat k) = (if k < length ys then ys ! k else 0)"
        by (rule Suc.IH [OF s1 dj]) (use Suc.prems(3,4) Suc in simp_all)
      then show ?thesis using Suc.prems(1) Cons Suc
        by (simp add: word_succ_nat del: of_nat_Suc)
    qed
  qed
qed

text \<open>
  \<open>strncat\<close>'s third argument is the size of the destination, not a number of bytes to append.
  With it the result is the longest prefix of the concatenation that fits with its terminator.
\<close>

lemma strncat_copied:
  assumes "length ds < unat destSize" and "unat dl = length ds" and "unat sl = length ss"
  shows "(if (sl :: u32) \<ge> destSize - dl then destSize - dl - 1 else sl)
     = of_nat (min (length ss) (unat destSize - length ds - 1))"
proof (rule word_unat_eq_iff [THEN iffD2])
  have avail: "unat (destSize - dl) = unat destSize - length ds"
    using assms by (simp add: unat_sub word_le_nat_alt)
  then have "destSize - dl \<noteq> 0" using assms by auto
  then have "unat (destSize - dl - 1) = unat destSize - length ds - 1"
    using avail by (simp add: unat_minus_one)
  moreover have "unat (of_nat (min (length ss) (unat destSize - length ds - 1)) :: u32)
      = min (length ss) (unat destSize - length ds - 1)"
    using u32_unat_less [of destSize] by (intro unat_of_nat_u32) simp
  ultimately show "unat (if sl \<ge> destSize - dl then destSize - dl - 1 else sl)
     = unat (of_nat (min (length ss) (unat destSize - length ds - 1)) :: u32)"
    using avail assms by (auto simp: word_le_nat_alt)
qed

lemma strncat_cstr:
  assumes d: "cstr m dest ds" and s: "cstr m src ss" and fits: "length ds < unat destSize"
    and disj: "region dest (unat destSize) \<inter> region src (Suc (length ss)) = {}"
  shows "\<exists>m'. strncat m dest src destSize = Some m' \<and>
     cstr m' dest (take (unat destSize - 1) (ds @ ss)) \<and>
     (\<forall>x. x \<notin> region dest (unat destSize) \<longrightarrow> m' x = m x)"
proof -
  define k where "k = min (length ss) (unat destSize - length ds - 1)"
  let ?e = "dest + of_nat (length ds)"
  let ?m1 = "strncpy_loop m ?e src k"
  let ?m' = "?m1(?e + of_nat k := 0)"
  have big: "length ds + k < unat destSize" "unat destSize < 2 ^ 32"
    using fits u32_unat_less [of destSize] by (auto simp: k_def)
  have sub: "region ?e (Suc k) \<subseteq> region dest (unat destSize)"
    by (rule region_offset_sub) (use big in simp)
  have out: "?m' x = m x" if "x \<notin> region ?e (Suc k)" for x
    using that by (simp add: region_Suc_last strncpy_loop_frame)
  have "region ?e (Suc k) \<inter> region dest (length ds) = {}"
    by (rule region_offset_disj) (use big in simp)
  then have "dest + of_nat i \<notin> region ?e (Suc k)" if "i < length ds" for i
    using region_memI [OF that, of dest] by blast
  then have head: "?m' (dest + of_nat i) = ds ! i" if "i < length ds" for i
    using that out cstr_nth [OF d that] by metis
  have dj: "region ?e k \<inter> region src (Suc (length ss)) = {}"
    using sub disj region_mono [of k "Suc k" ?e] by auto
  have "k \<le> length ss" by (simp add: k_def)
  have "?m' (?e + of_nat i) = ss ! i" if "i < k" for i
    using strncpy_loop_cstr [OF s dj _ that] region_offset_distinct [of i "Suc k" k ?e] that big
      \<open>k \<le> length ss\<close> by auto
  moreover have "0 \<notin> set (take k ss)" using cstr_nonzero [OF s] set_take_subset by fastforce
  ultimately have "cstr ?m' ?e (take k ss)"
    using \<open>k \<le> length ss\<close> unfolding cstr_iff by (simp add: min_absorb2)
  then have "cstr ?m' dest (ds @ take k ss)"
    unfolding cstr_append using head cstr_nonzero [OF d] by blast
  moreover have "take (unat destSize - 1) (ds @ ss) = ds @ take k ss"
    using fits by (auto simp: k_def min_def)
  ultimately have "cstr ?m' dest (take (unat destSize - 1) (ds @ ss))" by (simp only:)
  moreover have "\<forall>x. x \<notin> region dest (unat destSize) \<longrightarrow> ?m' x = m x"
    using out sub by blast
  moreover have "unat (of_nat k :: u32) = k"
    using big by (intro unat_of_nat_u32) simp
  then have "strncat m dest src destSize = Some ?m'"
    using strlen_cstr [OF d] strlen_cstr [OF s]
      strncat_copied [OF fits unat_strlen [OF d] unat_strlen [OF s], folded k_def]
    by (simp add: strncat_def Let_def strncpy_def add.assoc)
  ultimately show ?thesis by blast
qed


subsection \<open>Tokenising\<close>

lemma cstr_suffix: "cstr m p (us @ vs) \<Longrightarrow> cstr m (p + of_nat (length us)) vs"
  by (simp add: cstr_append)

text \<open>Writing a terminator over one byte of a string makes two strings of it.\<close>

lemma cstr_split:
  assumes "cstr m p (us @ c # vs)"
  defines "e \<equiv> p + of_nat (length us)"
  shows "cstr (m(e := 0)) p us" and "cstr (m(e := 0)) (e + 1) vs"
proof -
  have len: "length us + Suc (length vs) < 2 ^ 32" using cstr_length [OF assms(1)] by simp
  have "p + of_nat i \<noteq> e" if "i < length us" for i
    unfolding e_def using region_offset_distinct [of i "Suc (length us)" "length us" p] that len by auto
  moreover have "m (p + of_nat i) = us ! i" if "i < length us" for i
    using cstr_nth [OF assms(1)] that by (simp add: nth_append)
  ultimately show "cstr (m(e := 0)) p us"
    using cstr_nonzero [OF assms(1)] by (simp add: cstr_iff e_def [symmetric])
  have "cstr m (e + 1) vs" using cstr_suffix [OF assms(1)] by (simp add: e_def)
  moreover have "e \<notin> region (e + 1) (Suc (length vs))"
    by (rule region_head_fresh) (use len in simp)
  ultimately show "cstr (m(e := 0)) (e + 1) vs" by (simp add: cstr_upd)
qed

lemma skip_delims_cstr:
  assumes d: "cstr m d ds" "0 \<notin> region d (length ds)"
  shows "cstr m p xs \<Longrightarrow>
     skip_delims m d p = Some (p + of_nat (length (takeWhile (\<lambda>x. x \<in> set ds) xs)))"
proof (induction xs arbitrary: p)
  case Nil
  then show ?case by (subst skip_delims.simps) simp
next
  case (Cons x xs)
  then show ?case
    by (subst skip_delims.simps) (auto simp: is_delim_cstr [OF d] algebra_simps)
qed

lemma skip_token_cstr:
  assumes d: "cstr m d ds" "0 \<notin> region d (length ds)"
  shows "cstr m p xs \<Longrightarrow>
     skip_token m d p = Some (p + of_nat (length (takeWhile (\<lambda>x. x \<notin> set ds) xs)))"
proof (induction xs arbitrary: p)
  case Nil
  then show ?case by (subst skip_token.simps) simp
next
  case (Cons x xs)
  then show ?case
    by (subst skip_token.simps) (auto simp: is_delim_cstr [OF d] algebra_simps)
qed

definition next_tok :: "u8 list \<Rightarrow> u8 list \<Rightarrow> (u8 list \<times> u8 list) option" where
  "next_tok ds xs =
     (let ys = dropWhile (\<lambda>x. x \<in> set ds) xs
      in if ys = [] then None
         else Some (takeWhile (\<lambda>x. x \<notin> set ds) ys, tl (dropWhile (\<lambda>x. x \<notin> set ds) ys)))"

lemma strtok_none:
  assumes d: "cstr m d ds" "0 \<notin> region d (length ds)"
    and x: "cstr m st xs" and n: "next_tok ds xs = None"
  shows "\<exists>q. strtok_from m st d = Some (0, q, m) \<and> cstr m q []"
proof -
  have all: "takeWhile (\<lambda>x. x \<in> set ds) xs = xs"
    using n by (auto simp: next_tok_def Let_def takeWhile_eq_all_conv split: if_splits)
  then show ?thesis
    using skip_delims_cstr [OF d x, unfolded all] cstr_end [OF x] by (simp add: strtok_from_def)
qed

lemma strtok_some:
  assumes d: "cstr m d ds" "0 \<notin> region d (length ds)"
    and x: "cstr m st xs" and n: "next_tok ds xs = Some (tok, rest)"
  shows "\<exists>p q m'. strtok_from m st d = Some (p, q, m') \<and> cstr m' p tok \<and> cstr m' q rest"
proof -
  define ys where "ys = dropWhile (\<lambda>x. x \<in> set ds) xs"
  define post where "post = dropWhile (\<lambda>x. x \<notin> set ds) ys"
  define p where "p = st + of_nat (length (takeWhile (\<lambda>x. x \<in> set ds) xs))"
  define q where "q = p + of_nat (length tok)"
  have ys: "ys \<noteq> []" and tok: "takeWhile (\<lambda>x. x \<notin> set ds) ys = tok" and rest: "tl post = rest"
    using n by (auto simp: next_tok_def Let_def ys_def post_def split: if_splits)
  have cp: "cstr m p ys"
    unfolding p_def ys_def by (rule cstr_suffix) (use x in simp)
  then have "m p \<noteq> 0" using ys by (cases ys) auto
  have sk: "skip_delims m d st = Some p" "skip_token m d p = Some q"
    using skip_delims_cstr [OF d x] skip_token_cstr [OF d cp] by (simp_all add: p_def q_def tok)
  have "ys = tok @ post" unfolding post_def using tok takeWhile_dropWhile_id by metis
  with cp have cc: "cstr m p (tok @ post)" by simp
  show ?thesis
  proof (cases post)
    case Nil
    then have cp': "cstr m p tok" using cc by simp
    then have "m q = 0" unfolding q_def by (rule cstr_end)
    moreover have "rest = []" using Nil rest by simp
    ultimately show ?thesis
      using sk \<open>m p \<noteq> 0\<close> cp' by (simp add: strtok_from_def)
  next
    case (Cons c vs)
    then have cc': "cstr m p (tok @ c # vs)" using cc by simp
    then have "m q \<noteq> 0" using cstr_suffix [OF cc'] by (simp add: q_def)
    moreover have "rest = vs" using Cons rest by simp
    ultimately show ?thesis
      using sk \<open>m p \<noteq> 0\<close> cstr_split [OF cc', folded q_def] by (simp add: strtok_from_def)
  qed
qed

text \<open>
  \<open>strtok_r\<close> hands back its first argument, so a call that continues a scan (\<open>str = NULL\<close>)
  returns \<open>NULL\<close> whatever is left to scan.
\<close>

lemma strtok_r_first:
  assumes d: "cstr m d ds" "0 \<notin> region d (length ds)" and x: "cstr m str xs" and "str \<noteq> 0"
  shows "\<exists>q m'. strtok_r m sp str d = Some (str, q, m') \<and>
     cstr m' str (takeWhile (\<lambda>x. x \<notin> set ds) xs)"
proof -
  define t where "t = takeWhile (\<lambda>x. x \<notin> set ds) xs"
  define post where "post = dropWhile (\<lambda>x. x \<notin> set ds) xs"
  have "xs = t @ post" by (simp add: t_def post_def)
  then have cc: "cstr m str (t @ post)" using x by simp
  have sk: "skip_token m d str = Some (str + of_nat (length t))"
    using skip_token_cstr [OF d x] by (simp add: t_def)
  show ?thesis
  proof (cases post)
    case Nil
    then have "cstr m str t" using cc by simp
    then show ?thesis
      using sk cstr_end [of m str t] \<open>str \<noteq> 0\<close> by (simp add: strtok_r_def flip: t_def)
  next
    case (Cons c vs)
    then have cc': "cstr m str (t @ c # vs)" using cc by simp
    then have "m (str + of_nat (length t)) \<noteq> 0" using cstr_suffix [OF cc'] by simp
    then show ?thesis
      using sk cstr_split(1) [OF cc'] \<open>str \<noteq> 0\<close> by (simp add: strtok_r_def flip: t_def)
  qed
qed

subsection \<open>Searching\<close>

text \<open>\<open>strstr\<close> returns the first suffix of the haystack that starts with the needle.\<close>

lemma bytes_at_prefix:
  assumes "cstr m a xs" and "cstr m b ys"
  shows "bytes_at m a (length ys) = bytes_at m b (length ys) \<longleftrightarrow> take (length ys) xs = ys"
  using assms
proof (induction ys arbitrary: a b xs)
  case Nil
  then show ?case by simp
next
  case (Cons y ys)
  then show ?case by (cases xs) (auto simp: bytes_at_Suc)
qed

fun find_sub :: "u8 list \<Rightarrow> u8 list \<Rightarrow> nat option" where
  "find_sub [] ys = None"
| "find_sub (x # xs) ys =
     (if take (length ys) (x # xs) = ys then Some 0 else map_option Suc (find_sub xs ys))"

lemma strstr_loop_cstr:
  assumes "cstr m s2 ys"
  shows "cstr m s1 xs \<Longrightarrow> strstr_loop m s1 s2 (of_nat (length ys)) =
     Some (case find_sub xs ys of None \<Rightarrow> 0 | Some i \<Rightarrow> s1 + of_nat i)"
proof (induction xs arbitrary: s1)
  case Nil
  then show ?case by (subst strstr_loop.simps) simp
next
  case (Cons x xs)
  have "memcmp_string m s1 s2 (of_nat (length ys)) = 0 \<longleftrightarrow> take (length ys) (x # xs) = ys"
    using bytes_at_prefix [OF Cons.prems assms]
    by (simp add: memcmp_string_eq memcmp_zero unat_strlen [OF assms])
  moreover have "strstr_loop m (s1 + 1) s2 (of_nat (length ys)) =
     Some (case find_sub xs ys of None \<Rightarrow> 0 | Some i \<Rightarrow> s1 + 1 + of_nat i)"
    using Cons by simp
  ultimately show ?case
    using Cons.prems by (subst strstr_loop.simps) (auto split: option.splits simp: algebra_simps)
qed

lemma strstr_cstr:
  "cstr m s1 xs \<Longrightarrow> cstr m s2 ys \<Longrightarrow>
     strstr m s1 s2 = Some (case find_sub xs ys of None \<Rightarrow> 0 | Some i \<Rightarrow> s1 + of_nat i)"
  by (simp add: strstr_def strlen_cstr strstr_loop_cstr)

lemma find_sub_first:
  assumes "find_sub xs ys = Some i"
  shows "take (length ys) (drop i xs) = ys \<and> (\<forall>j < i. take (length ys) (drop j xs) \<noteq> ys)"
  using assms
proof (induction xs arbitrary: i)
  case Nil
  then show ?case by simp
next
  case (Cons x xs)
  show ?case
  proof (cases "take (length ys) (x # xs) = ys")
    case True
    with Cons.prems show ?thesis by simp
  next
    case False
    with Cons.prems obtain k where "find_sub xs ys = Some k" "i = Suc k" by auto
    with Cons.IH False show ?thesis by (auto simp: less_Suc_eq_0_disj)
  qed
qed

lemma find_sub_none:
  "find_sub xs ys = None \<Longrightarrow> ys \<noteq> [] \<Longrightarrow> take (length ys) (drop j xs) \<noteq> ys"
proof (induction xs arbitrary: j)
  case (Cons x xs)
  then show ?case by (cases j) (auto split: if_splits)
qed auto

lemma find_sub_bound: "find_sub xs ys = Some i \<Longrightarrow> i < length xs"
  by (induction xs arbitrary: i) (auto split: if_splits)

subsection \<open>Properties\<close>

text \<open>
  C36: \<open>memmove\<close> copies the source bytes as they were before the call, whatever the overlap
  of the two areas, and writes nothing outside the destination, provided neither area wraps
  round the end of the address space.
\<close>

theorem memmove_correct:
  assumes "unat dest + unat sz < 2 ^ 32" and "unat src + unat sz < 2 ^ 32"
  shows "bytes_at (memmove m dest src sz) dest (unat sz) = bytes_at m src (unat sz)
    \<and> (\<forall>x. x \<notin> region dest (unat sz) \<longrightarrow> memmove m dest src sz x = m x)"
  using memmove_byte [OF assms] memmove_frame [of _ dest sz m src]
  by (auto intro: nth_equalityI simp: bytes_at_nth)

theorem memmove_correct_witness:
  "bytes_at (memmove ucast 101 100 8) 101 8 = bytes_at ucast 100 8
    \<and> memmove ucast 101 100 8 100 = ucast (100 :: addr)"
  using memmove_correct [of 101 8 100 ucast] region_head_fresh [of 8 100] by simp

text \<open>
  On two terminated strings \<open>strcmp\<close> returns, and it returns 0 exactly when they are equal
  (and 1 otherwise: it does not order them).
\<close>

theorem strcmp_decides:
  "cstr m s1 xs \<Longrightarrow> cstr m s2 ys \<Longrightarrow> strcmp m s1 s2 = Some (if xs = ys then 0 else 1)"
  using strcmp_loop_cstr [of m s1 0 xs s2 ys] by (simp add: strcmp_def)

theorem strcmp_decides_witness:
  "strcmp ((\<lambda>_. 0)(16 := 97, 32 := 97, 33 := 98)) 16 32 = Some 1"
  using strcmp_decides [of "(\<lambda>_. 0)(16 := 97, 32 := 97, 33 := 98)" 16 "[97]" 32 "[97, 98]"] by simp

text \<open>
  C38: one call of \<open>strtok\<close> computes the next token: it returns NULL and changes nothing when
  only delimiters are left, and otherwise a pointer to the next maximal run of
  non-delimiters, terminated in place, with the static position on the text after it.
\<close>

theorem strtok_refines:
  assumes "cstr m d ds" and "0 \<notin> region d (length ds)"
    and "cstr m (if str \<noteq> 0 then str else next_token) xs"
  shows "case next_tok ds xs of
      None \<Rightarrow> (\<exists>q. strtok m next_token str d = Some (0, q, m) \<and> cstr m q [])
    | Some (tok, rest) \<Rightarrow>
        (\<exists>p q m'. strtok m next_token str d = Some (p, q, m') \<and> cstr m' p tok \<and> cstr m' q rest)"
  using strtok_none [OF assms] strtok_some [OF assms]
  by (auto simp: strtok_def split: option.splits)

definition tok_mem :: mem where
  "tok_mem = (\<lambda>_. 0)(16 := 44, 32 := 97, 33 := 44, 34 := 98)"

lemma tok_mem_strings:
  "cstr tok_mem 16 [44]" "cstr tok_mem 32 [97, 44, 98]" "cstr tok_mem 34 [98]"
  "0 \<notin> region 16 (length [44 :: u8])"
  by (simp_all add: tok_mem_def region_Suc)

theorem strtok_refines_witness:
  "\<exists>p q m'. strtok tok_mem 0 32 16 = Some (p, q, m') \<and> cstr m' p [97] \<and> cstr m' q [98]"
  using strtok_refines [of tok_mem 16 "[44]" 32 0 "[97, 44, 98]"] tok_mem_strings
  by (simp add: next_tok_def)

text \<open>
  Continuing a scan with \<open>strtok_r(NULL, ...)\<close> never yields a token, since the returned
  pointer is the \<open>str\<close> argument itself.
\<close>

theorem strtok_r_continue_null:
  assumes "cstr m d ds" and "0 \<notin> region d (length ds)" and "cstr m saveptr xs"
  shows "\<exists>q m'. strtok_r m saveptr 0 d = Some (0, q, m')"
  using skip_token_cstr [OF assms] by (simp add: strtok_r_def)

theorem strtok_r_continue_null_witness: "\<exists>q m'. strtok_r tok_mem 34 0 16 = Some (0, q, m')"
  using strtok_r_continue_null [of tok_mem 16 "[44]" 34 "[98]"] tok_mem_strings by blast

text \<open>
  C39: \<open>strncat\<close> appends and truncates within a buffer of \<open>destSize\<close> bytes, keeps the result
  terminated, and writes nothing outside the buffer.
\<close>

theorem strncat_bounded:
  assumes "cstr m dest ds" and "cstr m src ss" and "length ds < unat destSize"
    and "region dest (unat destSize) \<inter> region src (Suc (length ss)) = {}"
  shows "\<exists>m'. strncat m dest src destSize = Some m' \<and>
     cstr m' dest (take (unat destSize - 1) (ds @ ss)) \<and>
     (\<forall>x. x \<notin> region dest (unat destSize) \<longrightarrow> m' x = m x)"
  by (rule strncat_cstr [OF assms])

theorem strncat_bounded_witness:
  "\<exists>m'. strncat tok_mem 34 16 2 = Some m' \<and> cstr m' 34 [98] \<and> (\<forall>x. x \<notin> region 34 2 \<longrightarrow> m' x = tok_mem x)"
proof -
  have "region 34 2 \<inter> region 16 (Suc (length [44 :: u8])) = {}"
    by (simp add: region_2 region_Suc)
  then show ?thesis
    using strncat_bounded [of tok_mem 34 "[98]" 16 "[44]" 2] tok_mem_strings by simp
qed

text \<open>
  \<open>strstr\<close> with a non-empty needle returns the address of its first occurrence, and NULL
  when there is none.
\<close>

theorem strstr_first:
  assumes "cstr m s1 xs" and "cstr m s2 ys" and "ys \<noteq> []"
  shows "(\<exists>i. strstr m s1 s2 = Some (s1 + of_nat i) \<and> i < length xs
            \<and> take (length ys) (drop i xs) = ys \<and> (\<forall>j < i. take (length ys) (drop j xs) \<noteq> ys))
       \<or> strstr m s1 s2 = Some 0 \<and> (\<forall>j. take (length ys) (drop j xs) \<noteq> ys)"
proof (cases "find_sub xs ys")
  case None
  then show ?thesis using strstr_cstr [OF assms(1,2)] find_sub_none assms(3) by auto
next
  case (Some i)
  then show ?thesis
    using strstr_cstr [OF assms(1,2)] find_sub_first [OF Some] find_sub_bound [OF Some] by auto
qed

theorem strstr_first_witness:
  "(\<exists>i. strstr tok_mem 32 34 = Some (32 + of_nat i) \<and> i < 3
            \<and> take 1 (drop i [97, 44, 98]) = [98 :: u8] \<and> (\<forall>j < i. take 1 (drop j [97, 44, 98]) \<noteq> [98 :: u8]))
       \<or> strstr tok_mem 32 34 = Some 0 \<and> (\<forall>j. take 1 (drop j [97, 44, 98]) \<noteq> [98 :: u8])"
  using strstr_first [OF tok_mem_strings(2,3)] by (simp add: numeral_3_eq_3)

end
