(* ===== verification/CNumeric.thy ===== *)
theory CNumeric
  imports CString
begin

text \<open>
  Conversions between numbers and text: \<open>atoi\<close>, \<open>itoa\<close>, \<open>strtoul\<close>, \<open>strtoull\<close> and
  \<open>hex_string_to_uint16\<close> of \<open>libk/string.c\<close>, and \<open>strtol\<close> of \<open>kernel/kheap/stdlib.c\<close>.
  Where the C code stores the end of the number behind \<open>endptr\<close>, the model returns it as the
  second component of the result.
\<close>

subsection \<open>atoi and itoa\<close>

partial_function (option) skip_space :: "mem \<Rightarrow> addr \<Rightarrow> addr option" where
  "skip_space m s = (if isspace (char_int (m s)) then skip_space m (s + 1) else Some s)"

partial_function (option) atoi_digits :: "mem \<Rightarrow> addr \<Rightarrow> i32 \<Rightarrow> i32 option" where
  "atoi_digits m s n =
     (if isdigit (char_int (m s))
      then atoi_digits m (s + 1) (10 * n + (of_int (char_int (m s)) - 48))
      else Some n)"

definition atoi :: "mem \<Rightarrow> addr \<Rightarrow> i32 option" where
  "atoi m s = do {
     s1 \<leftarrow> skip_space m s;
     n \<leftarrow> atoi_digits m (if m s1 = 43 \<or> m s1 = 45 then s1 + 1 else s1) 0;
     Some ((if m s1 = 45 then - 1 else 1) * n)
   }"

text \<open>The digit written for a remainder: \<open>'0'\<close> to \<open>'9'\<close>, then \<open>'a'\<close> upwards.\<close>

definition digit_char :: "u32 \<Rightarrow> u8" where
  "digit_char r = (if r < 10 then ucast (r + 48) else ucast (r + 97 - 10))"

partial_function (option) itoa_digits :: "mem \<Rightarrow> addr \<Rightarrow> u32 \<Rightarrow> u32 \<Rightarrow> (mem \<times> addr) option" where
  "itoa_digits m p ud divisor =
     (let m' = m(p := digit_char (ud mod divisor)); ud' = ud div divisor
      in if ud' \<noteq> 0 then itoa_digits m' (p + 1) ud' divisor else Some (m', p + 1))"

partial_function (option) reverse_buf :: "mem \<Rightarrow> addr \<Rightarrow> addr \<Rightarrow> mem option" where
  "reverse_buf m p1 p2 =
     (if p1 < p2 then reverse_buf (m(p1 := m p2, p2 := m p1)) (p1 + 1) (p2 - 1) else Some m)"

definition itoa :: "mem \<Rightarrow> addr \<Rightarrow> int \<Rightarrow> i32 \<Rightarrow> mem option" where
  "itoa m buf base d =
     (let neg = (base = 100 \<and> sint d < 0);
          m1 = (if neg then m(buf := 45) else m);
          buf' = (if neg then buf + 1 else buf);
          ud = (if neg then - d else d);
          divisor = (if \<not> neg \<and> base = 120 then 16 else 10)
      in do {
        (m2, p) \<leftarrow> itoa_digits m1 buf' ud divisor;
        reverse_buf (m2(p := 0)) buf' (p - 1)
      })"

subsection \<open>strtoul, strtoull, strtol\<close>

partial_function (option) skip_blank :: "mem \<Rightarrow> addr \<Rightarrow> addr option" where
  "skip_blank m s = (if m s = 32 \<or> m s = 9 then skip_blank m (s + 1) else Some s)"

definition in_range :: "int \<Rightarrow> int \<Rightarrow> int \<Rightarrow> bool" where
  "in_range lo hi c \<longleftrightarrow> lo \<le> c \<and> c \<le> hi"

definition hexval :: "int \<Rightarrow> int" where
  "hexval c = (if in_range 48 57 c then c - 48
               else if in_range 97 102 c then c - 97 + 10
               else if in_range 65 70 c then c - 65 + 10 else 0)"

partial_function (option) strtoul_digits :: "mem \<Rightarrow> addr \<Rightarrow> int \<Rightarrow> u32 \<Rightarrow> (u32 \<times> addr) option" where
  "strtoul_digits m s base res =
     (if m s = 0 then Some (res, s)
      else if base = 10 \<and> \<not> in_range 48 57 (char_int (m s)) then Some (res, s)
      else if base = 16 \<and> \<not> (in_range 48 57 (char_int (m s)) \<or> in_range 97 102 (char_int (m s))
                              \<or> in_range 65 70 (char_int (m s))) then Some (res, s)
      else strtoul_digits m (s + 1) base (res * of_int base + of_int (hexval (char_int (m s)))))"

definition strtoul :: "mem \<Rightarrow> addr \<Rightarrow> int \<Rightarrow> (u32 \<times> addr) option" where
  "strtoul m str base =
     (if base \<noteq> 10 \<and> base \<noteq> 16 then Some (0, str)
      else do {
        s1 \<leftarrow> skip_blank m str;
        let sign = (if m s1 = 45 then - 1 else 1);
            s2 = (if m s1 = 45 \<or> m s1 = 43 then s1 + 1 else s1);
            s3 = (if base = 16 \<and> m s2 = 48 \<and> (m (s2 + 1) = 120 \<or> m (s2 + 1) = 88)
                  then s2 + 2 else s2)
        in do {
          (res, s4) \<leftarrow> strtoul_digits m s3 base 0;
          Some (res * sign, s4)
        }
      })"

text \<open>\<open>None\<close> inside: the function returns \<open>false\<close>; \<open>Some v\<close>: it stores \<open>v\<close> and returns \<open>true\<close>.\<close>

definition hex_string_to_uint16 :: "mem \<Rightarrow> addr \<Rightarrow> u16 option option" where
  "hex_string_to_uint16 m hexString =
     (if hexString = 0 \<or> m hexString \<noteq> 48 \<or> m (hexString + 1) \<noteq> 120 then Some None
      else do {
        (tempResult, endptr) \<leftarrow> strtoul m (hexString + 2) 16;
        Some (if m endptr \<noteq> 0 \<or> tempResult > 65535 then None else Some (ucast tempResult))
      })"

text \<open>The base prefix handling that \<open>strtol\<close> and \<open>strtoull\<close> share: (base, position).\<close>

definition base_prefix :: "mem \<Rightarrow> addr \<Rightarrow> int \<Rightarrow> int \<times> addr" where
  "base_prefix m str base =
     (if base = 0 then
        if m str = 48 then
          if m (str + 1) = 120 \<or> m (str + 1) = 88 then (16, str + 2) else (8, str + 1)
        else (10, str)
      else (base, str))"

partial_function (option) strtoull_digits :: "mem \<Rightarrow> addr \<Rightarrow> int \<Rightarrow> u64 \<Rightarrow> (u64 \<times> addr) option" where
  "strtoull_digits m s base res =
     (let c = char_int (m s);
          digit = (if isdigit c then c - 48 else tolower c - 97 + 10)
      in if isdigit c \<or> (base = 16 \<and> isxdigit c) then
           if digit \<ge> base then Some (res, s)
           else strtoull_digits m (s + 1) base (res * of_int base + of_int digit)
         else Some (res, s))"

definition strtoull :: "mem \<Rightarrow> addr \<Rightarrow> int \<Rightarrow> (u64 \<times> addr) option" where
  "strtoull m str base =
     (let sign = (if m str = 45 then - 1 else 1);
          s1 = (if m str = 43 \<or> m str = 45 then str + 1 else str);
          (base', s2) = base_prefix m s1 base
      in do {
        (res, s3) \<leftarrow> strtoull_digits m s2 base' 0;
        Some (res * sign, s3)
      })"

partial_function (option) strtol_digits :: "mem \<Rightarrow> addr \<Rightarrow> int \<Rightarrow> i32 \<Rightarrow> (i32 \<times> addr) option" where
  "strtol_digits m s base res =
     (let c = char_int (m s);
          digit = (if isdigit c then c - 48 else tolower c - 97 + 10)
      in if isalnum c then
           if digit \<ge> base then Some (res, s)
           else strtol_digits m (s + 1) base (res * of_int base + of_int digit)
         else Some (res, s))"

definition strtol :: "mem \<Rightarrow> addr \<Rightarrow> int \<Rightarrow> (i32 \<times> addr) option" where
  "strtol m str base = do {
     s0 \<leftarrow> skip_space m str;
     let negative = (m s0 = 45);
         s1 = (if m s0 = 45 \<or> m s0 = 43 then s0 + 1 else s0);
         (base', s2) = base_prefix m s1 base
     in do {
       (res, s3) \<leftarrow> strtol_digits m s2 base' 0;
       Some (if negative then - res else res, s3)
     }
   }"

subsection \<open>Digits, and what itoa writes\<close>

fun digs :: "nat \<Rightarrow> nat \<Rightarrow> nat list" where
  "digs b n = (if n < b \<or> b < 2 then [n] else (n mod b) # digs b (n div b))"

declare digs.simps [simp del]

definition num_of :: "nat \<Rightarrow> nat list \<Rightarrow> nat" where
  "num_of b ds = foldl (\<lambda>a d. a * b + d) 0 ds"

definition dchar :: "nat \<Rightarrow> u8" where
  "dchar d = digit_char (of_nat d)"

lemma digs_neq_Nil [simp]: "digs b n \<noteq> []"
  by (subst digs.simps) simp

lemma digs_less: "2 \<le> b \<Longrightarrow> d \<in> set (digs b n) \<Longrightarrow> d < b"
proof (induction b n rule: digs.induct)
  case (1 b n)
  then show ?case by (subst (asm) (2) digs.simps) (auto split: if_splits)
qed

lemma num_of_digs: "2 \<le> b \<Longrightarrow> num_of b (rev (digs b n)) = n"
proof (induction b n rule: digs.induct)
  case (1 b n)
  then show ?case by (subst digs.simps) (auto simp: num_of_def)
qed

lemma length_digs: "2 \<le> b \<Longrightarrow> n < b ^ k \<Longrightarrow> 0 < k \<Longrightarrow> length (digs b n) \<le> k"
proof (induction k arbitrary: n)
  case (Suc k)
  show ?case
  proof (cases "n < b")
    case False
    with Suc.prems have k: "0 < k" by (cases k) auto
    have "n div b < b ^ k"
      using Suc.prems by (simp add: less_mult_imp_div_less mult.commute)
    then show ?thesis using Suc.IH [of "n div b"] Suc.prems k
      by (subst digs.simps) simp
  qed (subst digs.simps, simp)
qed simp

lemma dchar_code: "d < 16 \<Longrightarrow> dchar d = of_nat (if d < 10 then d + 48 else d + 87)"
  by (simp add: numeral_eq_Suc less_Suc_eq) (auto simp: dchar_def digit_char_def)

lemma char_int_dchar: "d < 16 \<Longrightarrow> char_int (dchar d) = (if d < 10 then int d + 48 else int d + 87)"
  by (simp add: numeral_eq_Suc less_Suc_eq) (auto simp: dchar_def digit_char_def char_int_def)

lemma itoa_digits_ok:
  assumes "2 \<le> b" "b < 2 ^ 32" "length (digs b (unat ud)) < 2 ^ 32"
  shows "\<exists>m'. itoa_digits m p ud (of_nat b) = Some (m', p + of_nat (length (digs b (unat ud))))
    \<and> (\<forall>i < length (digs b (unat ud)). m' (p + of_nat i) = dchar (digs b (unat ud) ! i))
    \<and> (\<forall>x. x \<notin> region p (length (digs b (unat ud))) \<longrightarrow> m' x = m x)"
  using assms
proof (induction "unat ud" arbitrary: m p ud rule: less_induct)
  case less
  have ub: "unat (of_nat b :: u32) = b" using less.prems by (simp add: unat_of_nat_u32)
  have md: "unat (ud mod of_nat b) = unat ud mod b" "unat (ud div of_nat b) = unat ud div b"
    by (simp_all add: unat_mod unat_div ub)
  let ?m = "m(p := digit_char (ud mod of_nat b))"
  show ?case
  proof (cases "unat ud < b")
    case True
    then have z: "ud div of_nat b = 0" "ud mod of_nat b = ud"
      using md by (simp_all add: unat_eq_zero flip: word_unat_eq_iff)
    have d: "digs b (unat ud) = [unat ud]" using True by (subst digs.simps) simp
    show ?thesis
      by (subst itoa_digits.simps) (simp add: d z dchar_def Let_def region_Suc)
  next
    case False
    let ?q = "ud div of_nat b"
    have lt: "unat ?q < unat ud" using False less.prems md by simp
    have nz: "?q \<noteq> 0" using False md less.prems by (metis div_greater_zero_iff gr0I linorder_not_less neq0_conv unsigned_0 order_trans zero_less_numeral less_le_trans)
    have d: "digs b (unat ud) = (unat ud mod b) # digs b (unat ?q)"
      using False less.prems md by (subst digs.simps) simp
    have len: "length (digs b (unat ?q)) < 2 ^ 32" using less.prems d by simp
    obtain m' where m': "itoa_digits ?m (p + 1) ?q (of_nat b) = Some (m', p + 1 + of_nat (length (digs b (unat ?q))))"
      "\<forall>i < length (digs b (unat ?q)). m' (p + 1 + of_nat i) = dchar (digs b (unat ?q) ! i)"
      "\<forall>x. x \<notin> region (p + 1) (length (digs b (unat ?q))) \<longrightarrow> m' x = ?m x"
      using less.hyps [OF lt less.prems(1,2) len] by blast
    have fresh: "p \<notin> region (p + 1) (length (digs b (unat ?q)))"
      using region_head_fresh [of "length (digs b (unat ?q))" p] len by simp
    have dm: "digit_char (ud mod of_nat b) = dchar (unat ud mod b)"
      unfolding dchar_def md(1) [symmetric] by simp
    have "itoa_digits m p ud (of_nat b) = Some (m', p + of_nat (length (digs b (unat ud))))"
      by (subst itoa_digits.simps) (simp add: d Let_def nz m' word_succ_nat del: of_nat_Suc)
    moreover have "\<forall>i < length (digs b (unat ud)). m' (p + of_nat i) = dchar (digs b (unat ud) ! i)"
      using m'(2) m'(3) fresh dm by (simp add: d all_less_Suc_conv word_succ_nat del: of_nat_Suc)
    moreover have "\<forall>x. x \<notin> region p (length (digs b (unat ud))) \<longrightarrow> m' x = m x"
      using m'(3) by (simp add: d region_Suc)
    ultimately show ?thesis by blast
  qed
qed

lemma reverse_buf_ok:
  assumes "unat a + n < 2 ^ 32" "a \<noteq> 0"
  shows "\<exists>m'. reverse_buf m a (a + of_nat n - 1) = Some m'
    \<and> (\<forall>i < n. m' (a + of_nat i) = m (a + of_nat (n - 1 - i)))
    \<and> (\<forall>x. x \<notin> region a n \<longrightarrow> m' x = m x)"
  using assms
proof (induction n arbitrary: a m rule: less_induct)
  case (less n)
  have ua: "unat (a + of_nat k) = unat a + k" if "k \<le> n" for k
    using that less.prems by (simp add: unat_word_ariths unat_of_nat_u32)
  show ?case
  proof (cases "n < 2")
    case True
    then have "\<not> a < a + of_nat n - 1"
      using less.prems(2) by (cases "n = 0") (auto simp: less_2_cases_iff word_less_nat_alt unat_minus_one not_less)
    then show ?thesis using True by (subst reverse_buf.simps) (auto simp: less_2_cases_iff)
  next
    case False
    then obtain k where n: "n = Suc (Suc k)" by (metis add_2_eq_Suc le_add_diff_inverse not_less)
    have e: "a + of_nat n - 1 = a + of_nat (Suc k)" by (simp add: n)
    let ?e = "a + of_nat (Suc k)"
    have lt: "a < ?e" using ua [of "Suc k"] by (simp add: word_less_nat_alt n del: of_nat_Suc)
    define M where "M = m(a := m ?e, ?e := m a)"
    have ua1: "unat (a + 1) = Suc (unat a)" using ua [of 1] n by simp
    have pre: "unat (a + 1) + k < 2 ^ 32" "a + 1 \<noteq> 0"
      using less.prems ua1 n by (simp_all, metis Zero_not_Suc unsigned_0)
    obtain m' where m': "reverse_buf M (a + 1) (a + 1 + of_nat k - 1) = Some m'"
      "\<forall>i < k. m' (a + 1 + of_nat i) = M (a + 1 + of_nat (k - 1 - i))"
      "\<forall>x. x \<notin> region (a + 1) k \<longrightarrow> m' x = M x"
      using less.IH [OF _ pre, of M] n by (simp only: lessI less_SucI) blast
    have r: "reverse_buf m a (a + of_nat n - 1) = Some m'"
      unfolding e using lt m'(1) by (subst reverse_buf.simps) (simp add: algebra_simps M_def)
    have inj: "a + of_nat i = a + of_nat j \<longleftrightarrow> i = j" if "i < n" "j < n" for i j
      using that region_offset_distinct [of i n j a] less.prems by auto
    have "m' (a + of_nat i) = m (a + of_nat (n - 1 - i))" if i: "i < n" for i
    proof -
      have mid: "M (a + of_nat j) = m (a + of_nat j)" if "0 < j" "j < Suc k" for j
        using that inj [of j 0] inj [of j "Suc k"] n by (simp add: M_def del: of_nat_Suc)
      have out: "a \<notin> region (a + 1) k" using region_head_fresh [of k a] less.prems n by simp
      have out2: "?e \<notin> region (a + 1) k"
      proof
        assume "?e \<in> region (a + 1) k"
        then obtain j where "j < k" "?e = a + of_nat (Suc j)"
          by (auto simp: region_mem algebra_simps)
        then show False using inj [of "Suc k" "Suc j"] n by (simp del: of_nat_Suc)
      qed
      consider "i = 0" | "i = Suc k" | j where "i = Suc j" "j < k"
        using i n by (cases i) (auto simp: less_Suc_eq)
      then show ?thesis
      proof cases
        case 1 then show ?thesis using m'(3) out out2 lt by (simp add: n M_def del: of_nat_Suc)
      next
        case 2 then show ?thesis using m'(3) out out2 lt by (simp add: n M_def del: of_nat_Suc)
      next
        case 3
        then have "m' (a + of_nat i) = M (a + of_nat (Suc (k - 1 - j)))"
          using m'(2) by (simp add: word_succ_nat del: of_nat_Suc)
        also have "\<dots> = m (a + of_nat (Suc (k - 1 - j)))" using mid [of "Suc (k - 1 - j)"] 3 by (simp del: of_nat_Suc)
        finally show ?thesis using 3 n by (simp add: Suc_diff_Suc del: of_nat_Suc)
      qed
    qed
    moreover have "\<forall>x. x \<notin> region a n \<longrightarrow> m' x = m x"
      using m'(3) region_Suc_last [of a "Suc k"] region_Suc [of a k]
      by (simp add: n M_def del: of_nat_Suc)
    ultimately show ?thesis using r by blast
  qed
qed

text \<open>The text \<open>itoa\<close> is meant to write.\<close>

definition itoa_text :: "int \<Rightarrow> i32 \<Rightarrow> u8 list" where
  "itoa_text base d =
     (if base = 100 \<and> sint d < 0 then 45 # map dchar (rev (digs 10 (unat (- d))))
      else map dchar (rev (digs (if base = 120 then 16 else 10) (unat d))))"

lemma length_digs_u32: "b = 10 \<or> b = 16 \<Longrightarrow> length (digs b (unat (ud :: u32))) \<le> 10"
  using u32_unat_less [of ud] length_digs [of b "unat ud" 10] by (auto intro: less_trans)

lemma dchar_nonzero: "d < 16 \<Longrightarrow> dchar d \<noteq> 0"
  using char_int_dchar [of d] by (auto split: if_splits)

lemma itoa_body:
  assumes b: "b = 10 \<or> b = 16" and p: "p \<noteq> 0" "unat p + 11 < 2 ^ 32"
  shows "\<exists>m'. (do { (m2, q) \<leftarrow> itoa_digits m p ud (of_nat b); reverse_buf (m2(q := 0)) p (q - 1) }) = Some m'
    \<and> cstr m' p (map dchar (rev (digs b (unat ud))))
    \<and> (\<forall>x. x \<notin> region p 11 \<longrightarrow> m' x = m x)"
proof -
  define ds where "ds = digs b (unat ud)"
  define n where "n = length ds"
  have n: "n \<le> 10" using length_digs_u32 [OF b] by (simp add: n_def ds_def)
  obtain m1 where m1: "itoa_digits m p ud (of_nat b) = Some (m1, p + of_nat n)"
    "\<forall>i < n. m1 (p + of_nat i) = dchar (ds ! i)" "\<forall>x. x \<notin> region p n \<longrightarrow> m1 x = m x"
    using itoa_digits_ok [of b ud m p] b n unfolding n_def ds_def by auto
  define m2 where "m2 = m1(p + of_nat n := 0)"
  have "unat p + n < 2 ^ 32" using p n by simp
  then obtain m' where m': "reverse_buf m2 p (p + of_nat n - 1) = Some m'"
    "\<forall>i < n. m' (p + of_nat i) = m2 (p + of_nat (n - 1 - i))" "\<forall>x. x \<notin> region p n \<longrightarrow> m' x = m2 x"
    using reverse_buf_ok [of p n m2] p by blast
  have neq: "p + of_nat i \<noteq> p + of_nat n" if "i < n" for i
    using that n region_offset_distinct [of i "Suc n" n p] by auto
  have end_out: "p + of_nat n \<notin> region p n"
    using neq unfolding region_mem by metis
  have "cstr m' p (map dchar (rev ds))"
    unfolding cstr_iff
  proof (intro conjI allI impI)
    show "0 \<notin> set (map dchar (rev ds))"
      using digs_less [of b _ "unat ud"] b dchar_nonzero by (auto simp: ds_def) force+
    show "m' (p + of_nat (length (map dchar (rev ds)))) = 0"
      using m'(3) end_out by (simp add: m2_def n_def)
    fix i assume i: "i < length (map dchar (rev ds))"
    then obtain j where j: "j = n - 1 - i" "j < n" by (simp add: n_def)
    have "m' (p + of_nat i) = m2 (p + of_nat j)" using m'(2) i j by (simp add: n_def)
    also have "\<dots> = dchar (ds ! j)" using m1(2) j(2) neq [OF j(2)] by (simp add: m2_def)
    finally show "m' (p + of_nat i) = map dchar (rev ds) ! i"
      using i j by (simp add: n_def rev_nth)
  qed
  moreover have "m' x = m x" if "x \<notin> region p 11" for x
  proof -
    have "x \<notin> region p (Suc n)" using that n region_mono [of "Suc n" 11 p] by auto
    then show ?thesis using m'(3) m1(3) by (simp add: region_Suc_last m2_def)
  qed
  ultimately show ?thesis using m1(1) m'(1) by (auto simp: m2_def ds_def)
qed

lemma itoa_cstr:
  assumes buf: "buf \<noteq> 0" "unat buf + 12 < 2 ^ 32"
  shows "\<exists>m'. itoa m buf base d = Some m' \<and> cstr m' buf (itoa_text base d)
    \<and> (\<forall>x. x \<notin> region buf 12 \<longrightarrow> m' x = m x)"
proof (cases "base = 100 \<and> sint d < 0")
  case True
  have u: "unat (buf + 1) = Suc (unat buf)" using buf by (simp add: unat_Suc_u32)
  have "buf + 1 \<noteq> 0" using u by (metis Zero_not_Suc unsigned_0)
  then obtain m' where m': "(do { (m2, q) \<leftarrow> itoa_digits (m(buf := 45)) (buf + 1) (- d) (of_nat 10); reverse_buf (m2(q := 0)) (buf + 1) (q - 1) }) = Some m'"
    "cstr m' (buf + 1) (map dchar (rev (digs 10 (unat (- d)))))"
    "\<forall>x. x \<notin> region (buf + 1) 11 \<longrightarrow> m' x = (m(buf := 45)) x"
    using itoa_body [of 10 "buf + 1" "m(buf := 45)" "- d"] u buf by auto
  have "m' buf = 45" using m'(3) region_head_fresh [of 11 buf] by simp
  moreover have "m' x = m x" if "x \<notin> region buf 12" for x
    using that m'(3) region_Suc [of buf 11] by simp
  ultimately show ?thesis using True m'(1,2)
    by (auto simp: itoa_def itoa_text_def Let_def)
next
  case False
  define b :: nat where "b = (if base = 120 then 16 else 10)"
  have "\<exists>m'. (do { (m2, q) \<leftarrow> itoa_digits m buf d (of_nat b); reverse_buf (m2(q := 0)) buf (q - 1) }) = Some m'
      \<and> cstr m' buf (map dchar (rev (digs b (unat d)))) \<and> (\<forall>x. x \<notin> region buf 11 \<longrightarrow> m' x = m x)"
    using itoa_body [of b buf m d] buf by (simp add: b_def)
  then show ?thesis using False region_mono [of 11 12 buf]
    by (auto simp: itoa_def itoa_text_def Let_def b_def split: if_splits)
qed

lemma atoi_digits_cstr:
  assumes "cstr m s (map dchar ds)" "\<forall>d \<in> set ds. d < 10"
  shows "atoi_digits m s (of_nat n) = Some (of_nat (foldl (\<lambda>a d. a * 10 + d) n ds))"
  using assms
proof (induction ds arbitrary: s n)
  case Nil
  then show ?case by (subst atoi_digits.simps) (simp add: isdigit_def)
next
  case (Cons d ds)
  have "char_int (m s) = int d + 48" using Cons.prems char_int_dchar [of d] by simp
  then have "atoi_digits m s (of_nat n) = atoi_digits m (s + 1) (of_nat (n * 10 + d))"
    using Cons.prems by (subst atoi_digits.simps) (simp add: isdigit_def algebra_simps)
  then show ?case using Cons.IH [of "s + 1" "n * 10 + d"] Cons.prems by simp
qed

lemma strtoul_digits_cstr:
  assumes "cstr m s (map dchar ds)" "\<forall>d \<in> set ds. d < b" "b = 10 \<or> b = 16"
  shows "strtoul_digits m s (int b) (of_nat n) =
    Some (of_nat (foldl (\<lambda>a d. a * b + d) n ds), s + of_nat (length ds))"
  using assms
proof (induction ds arbitrary: s n)
  case Nil
  then show ?case by (subst strtoul_digits.simps) simp
next
  case (Cons d ds)
  then have d: "d < 16" by auto
  have c: "char_int (m s) = (if d < 10 then int d + 48 else int d + 87)" "m s \<noteq> 0"
    using Cons.prems char_int_dchar [OF d] dchar_nonzero [OF d] by simp_all
  have h: "hexval (char_int (m s)) = int d" using c d by (auto simp: hexval_def in_range_def)
  have i: "d < 10 \<Longrightarrow> in_range 48 57 (char_int (m s))" "\<not> d < 10 \<Longrightarrow> in_range 97 102 (char_int (m s))"
    using c d by (auto simp: in_range_def)
  have "strtoul_digits m s (int b) (of_nat n) = strtoul_digits m (s + 1) (int b) (of_nat (n * b + d))"
    using i h c Cons.prems by (subst strtoul_digits.simps) (auto simp: algebra_simps)
  then show ?case using Cons.IH [of "s + 1" "n * b + d"] Cons.prems
    by (simp add: add.assoc)
qed

lemma skip_space_stop: "\<not> isspace (char_int (m s)) \<Longrightarrow> skip_space m s = Some s"
  by (subst skip_space.simps) simp

lemma skip_blank_stop: "m s \<noteq> 32 \<Longrightarrow> m s \<noteq> 9 \<Longrightarrow> skip_blank m s = Some s"
  by (subst skip_blank.simps) simp

lemma dchar_plain:
  "d < 16 \<Longrightarrow> dchar d \<notin> {0, 9, 32, 43, 45, 88, 120}"
  by (simp add: numeral_eq_Suc less_Suc_eq) (auto simp: dchar_def digit_char_def)

lemma dchar_not_space: "d < 16 \<Longrightarrow> \<not> isspace (char_int (dchar d))"
  using char_int_dchar [of d] by (auto simp: isspace_def split: if_splits)

lemma rev_digs_Cons:
  assumes "b = 10 \<or> b = 16"
  obtains d ds where "rev (digs b n) = d # ds" "d < b" "\<forall>x \<in> set ds. x < b"
proof -
  obtain d ds where e: "rev (digs b n) = d # ds" by (cases "rev (digs b n)") auto
  then have "set (d # ds) = set (digs b n)" by (metis set_rev)
  moreover have "2 \<le> b" using assms by auto
  ultimately have "\<forall>x \<in> set (d # ds). x < b" using digs_less by blast
  then show thesis using that [OF e] by simp
qed

lemma cstr_digs_head:
  assumes "cstr m s (map dchar (rev (digs b n)))" "b = 10 \<or> b = 16"
  shows "m s \<notin> {0, 9, 32, 43, 45, 88, 120}" "m (s + 1) \<notin> {88, 120}" "\<not> isspace (char_int (m s))"
proof -
  obtain d ds where e: "rev (digs b n) = d # ds" "d < b" "\<forall>x \<in> set ds. x < b"
    using rev_digs_Cons [OF assms(2)] .
  have s: "m s = dchar d" "cstr m (s + 1) (map dchar ds)" and d: "d < 16"
    using assms e by (simp_all, auto)
  show "m s \<notin> {0, 9, 32, 43, 45, 88, 120}" "\<not> isspace (char_int (m s))"
    using dchar_plain [OF d] dchar_not_space [OF d] s(1) by simp_all
  show "m (s + 1) \<notin> {88, 120}"
  proof (cases ds)
    case Nil
    then show ?thesis using s by simp
  next
    case (Cons d' ds')
    then have "m (s + 1) = dchar d'" "d' < 16" using s e assms(2) by auto
    then show ?thesis using dchar_plain [of d'] by simp
  qed
qed

lemma atoi_unsigned:
  assumes "cstr m s (map dchar (rev (digs 10 n)))"
  shows "atoi m s = Some (of_nat n)" "atoi_digits m s 0 = Some (of_nat n)"
proof -
  show a: "atoi_digits m s 0 = Some (of_nat n)"
    using atoi_digits_cstr [OF assms, of 0] digs_less [of 10 _ n] num_of_digs [of 10 n]
    by (simp add: num_of_def)
  show "atoi m s = Some (of_nat n)"
    using cstr_digs_head [OF assms] a by (simp add: atoi_def skip_space_stop)
qed

lemma strtoul_hex:
  assumes "cstr m s (map dchar (rev (digs 16 n)))"
  shows "strtoul m s 16 = Some (of_nat n, s + of_nat (length (digs 16 n)))"
proof -
  have "strtoul_digits m s 16 0 = Some (of_nat n, s + of_nat (length (digs 16 n)))"
    using strtoul_digits_cstr [OF assms, of 16 0] digs_less [of 16 _ n] num_of_digs [of 16 n]
    by (simp add: num_of_def)
  then show ?thesis using cstr_digs_head [OF assms]
    by (simp add: strtoul_def skip_blank_stop)
qed

subsection \<open>Properties\<close>

text \<open>
  C37: for every 32-bit integer \<open>d\<close>, \<open>itoa\<close> with base \<open>'d'\<close> returns and writes a text that \<open>atoi\<close>
  reads back as \<open>d\<close>, the most negative integer included; it writes at most 12 bytes.
\<close>

theorem atoi_itoa:
  assumes "buf \<noteq> 0" "unat buf + 12 < 2 ^ 32"
  shows "\<exists>m'. itoa m buf 100 d = Some m' \<and> atoi m' buf = Some d
    \<and> (\<forall>x. x \<notin> region buf 12 \<longrightarrow> m' x = m x)"
proof -
  obtain m' where m': "itoa m buf 100 d = Some m'" "cstr m' buf (itoa_text 100 d)"
    "\<forall>x. x \<notin> region buf 12 \<longrightarrow> m' x = m x"
    using itoa_cstr [OF assms] by blast
  have "atoi m' buf = Some d"
  proof (cases "sint d < 0")
    case True
    then have "m' buf = 45" "cstr m' (buf + 1) (map dchar (rev (digs 10 (unat (- d)))))"
      using m'(2) by (simp_all add: itoa_text_def)
    then show ?thesis using atoi_unsigned(2) [of m' "buf + 1" "unat (- d)"]
      by (simp add: atoi_def skip_space_stop isspace_def char_int_def)
  next
    case False
    then show ?thesis using m'(2) atoi_unsigned(1) [of m' buf "unat d"] by (simp add: itoa_text_def)
  qed
  then show ?thesis using m' by blast
qed

theorem atoi_itoa_witness:
  "\<exists>m'. itoa (\<lambda>_. 0) 4096 100 0x80000000 = Some m' \<and> atoi m' 4096 = Some 0x80000000
    \<and> (\<forall>x. x \<notin> region 4096 12 \<longrightarrow> m' x = 0)"
  using atoi_itoa [of 4096 "\<lambda>_. 0" "0x80000000"] by simp

text \<open>
  For every 32-bit word, \<open>itoa\<close> with base \<open>'x'\<close> writes a hexadecimal text that \<open>strtoul\<close> with
  base 16 reads back to its end.
\<close>

theorem strtoul_itoa_hex:
  assumes "buf \<noteq> 0" "unat buf + 12 < 2 ^ 32"
  shows "\<exists>m'. itoa m buf 120 d = Some m' \<and> (\<exists>e. strtoul m' buf 16 = Some (d, e) \<and> m' e = 0)"
proof -
  obtain m' where m': "itoa m buf 120 d = Some m'" "cstr m' buf (map dchar (rev (digs 16 (unat d))))"
    using itoa_cstr [OF assms, of m 120 d] by (auto simp: itoa_text_def)
  show ?thesis using m'(1) strtoul_hex [OF m'(2)] cstr_end [OF m'(2)] by auto
qed

theorem strtoul_itoa_hex_witness:
  "\<exists>m'. itoa (\<lambda>_. 0) 4096 120 0xDEADBEEF = Some m'
    \<and> (\<exists>e. strtoul m' 4096 16 = Some (0xDEADBEEF, e) \<and> m' e = 0)"
  using strtoul_itoa_hex [of 4096 "\<lambda>_. 0" "0xDEADBEEF"] by simp

text \<open>
  \<open>hex_string_to_uint16\<close> accepts \<open>0x\<close> followed by the hexadecimal digits of a number and
  stores that number exactly when it fits in 16 bits.
\<close>

theorem hex_string_to_uint16_parse:
  assumes "cstr m a (48 # 120 # map dchar (rev (digs 16 n)))" "a \<noteq> 0" "n < 2 ^ 32"
  shows "hex_string_to_uint16 m a = Some (if n \<le> 65535 then Some (of_nat n) else None)"
proof -
  have c: "cstr m (a + 2) (map dchar (rev (digs 16 n)))" "m a = 48" "m (a + 1) = 120"
    using assms(1) by (simp_all add: add.assoc)
  have le: "(of_nat n :: u32) > 65535 \<longleftrightarrow> n > 65535"
    using assms(3) by (simp add: word_less_nat_alt unat_of_nat_u32)
  have "m (a + 2 + of_nat (length (digs 16 n))) = 0" using cstr_end [OF c(1)] by simp
  moreover have "n \<le> 65535 \<Longrightarrow> ucast (of_nat n :: u32) = (of_nat n :: u16)"
    by (simp add: unsigned_of_nat take_bit_nat_eq_self)
  ultimately show ?thesis
    using strtoul_hex [OF c(1)] c assms(2) le by (auto simp: hex_string_to_uint16_def)
qed

theorem hex_string_to_uint16_parse_witness:
  "hex_string_to_uint16 ((\<lambda>_. 0)(16 := 48, 17 := 120, 18 := 102, 19 := 49)) 16 = Some (Some 0xF1)"
proof -
  have "digs 16 0xF1 = [1, 15]" by (simp add: digs.simps)
  then have "cstr ((\<lambda>_. 0)(16 := 48, 17 := 120, 18 := 102, 19 := 49)) 16 (48 # 120 # map dchar (rev (digs 16 0xF1)))"
    by (simp add: dchar_def digit_char_def)
  then show ?thesis using hex_string_to_uint16_parse [of _ 16 "0xF1"] by simp
qed

end
