(* ===== verification/Maths.thy ===== *)
theory Maths
  imports Prelude
begin

text \<open>
  The integer routines of \<open>libk/maths.c\<close>: \<open>log2\<close> and \<open>msb\<close> (multiply-and-look-up searches for
  the highest set bit), \<open>fact\<close>, \<open>fac\<close> and \<open>abs\<close>.  The floating-point routines of that file are
  not modelled.
\<close>

definition tab32 :: "u32 list" where
  "tab32 = [0, 9, 1, 10, 13, 21, 2, 29, 11, 14, 16, 18, 22, 25, 3, 30,
            8, 12, 20, 28, 15, 17, 24, 7, 19, 27, 23, 6, 26, 5, 4, 31]"

text \<open>The five lines \<open>x |= x >> 1; ... x |= x >> 16;\<close> that \<open>log2\<close> and \<open>msb\<close> start with.\<close>

definition smear :: "u32 \<Rightarrow> u32" where
  "smear x =
     (let x = x OR drop_bit 1 x; x = x OR drop_bit 2 x; x = x OR drop_bit 4 x;
          x = x OR drop_bit 8 x
      in x OR drop_bit 16 x)"

definition log2 :: "u32 \<Rightarrow> u32" where
  "log2 x = tab32 ! unat (drop_bit 27 (smear x * 0x07C4ACDD))"

definition msb_pos :: "u32 list" where
  "msb_pos = [0, 1, 28, 2, 29, 14, 24, 3, 30, 22, 20, 15, 25, 17, 4, 8, 31, 27, 13, 23, 21, 19,
              16, 7, 26, 12, 18, 6, 11, 5, 10, 9]"

definition msb_u32 :: "u32 \<Rightarrow> u32" where
  "msb_u32 v = msb_pos ! unat (drop_bit 27 ((drop_bit 1 (smear v) + 1) * 0x077CB531))"

text \<open>\<open>for (i = 1; i <= n; i++)\<close> never ends when \<open>n\<close> is the largest \<open>uint32_t\<close>.\<close>

partial_function (option) fact_loop :: "u32 \<Rightarrow> u32 \<Rightarrow> u32 \<Rightarrow> u32 option" where
  "fact_loop n i acc = (if i \<le> n then fact_loop n (i + 1) (acc * i) else Some acc)"

definition fact_u32 :: "u32 \<Rightarrow> u32 option" where
  "fact_u32 n = fact_loop n 1 1"

function fac :: "u32 \<Rightarrow> i32" where
  "fac x = (if x \<le> 1 then 1 else x * fac (x - 1))"
  by pat_completeness auto
termination
proof (relation "measure unat")
  fix x :: u32 assume "\<not> x \<le> 1"
  then have "x \<noteq> 0" "0 < unat x" by (auto simp: word_le_nat_alt)
  then show "(x - 1, x) \<in> measure unat" by (simp add: unat_minus_one)
qed simp

declare fac.simps [simp del]

definition abs_i32 :: "i32 \<Rightarrow> i32" where
  "abs_i32 n = (if sint n < 0 then - n else n)"

subsection \<open>The highest set bit\<close>

lemma bit_smear_step:
  assumes "\<And>n. bit y n \<longleftrightarrow> (\<exists>j \<in> {n..<n + s}. bit (x :: u32) j)"
  shows "bit (y OR drop_bit s y) n \<longleftrightarrow> (\<exists>j \<in> {n..<n + 2 * s}. bit x j)"
proof -
  have "{n..<n + 2 * s} = {n..<n + s} \<union> {n + s..<n + s + s}" by auto
  then show ?thesis by (auto simp: bit_or_iff bit_drop_bit_eq assms add.commute)
qed

lemma bit_smear: "bit (smear x) n \<longleftrightarrow> (\<exists>j \<ge> n. bit x j)"
proof -
  define x1 where "x1 = x OR drop_bit 1 x"
  define x2 where "x2 = x1 OR drop_bit 2 x1"
  define x3 where "x3 = x2 OR drop_bit 4 x2"
  define x4 where "x4 = x3 OR drop_bit 8 x3"
  have 0: "bit x n \<longleftrightarrow> (\<exists>j \<in> {n..<n + 1}. bit x j)" for n by auto
  have 1: "bit x1 n \<longleftrightarrow> (\<exists>j \<in> {n..<n + 2}. bit x j)" for n
    using bit_smear_step [of x 1 x n, OF 0] by (simp add: x1_def)
  have 2: "bit x2 n \<longleftrightarrow> (\<exists>j \<in> {n..<n + 4}. bit x j)" for n
    using bit_smear_step [of x1 2 x n, OF 1] by (simp add: x2_def)
  have 3: "bit x3 n \<longleftrightarrow> (\<exists>j \<in> {n..<n + 8}. bit x j)" for n
    using bit_smear_step [of x2 4 x n, OF 2] by (simp add: x3_def)
  have 4: "bit x4 n \<longleftrightarrow> (\<exists>j \<in> {n..<n + 16}. bit x j)" for n
    using bit_smear_step [of x3 8 x n, OF 3] by (simp add: x4_def)
  have 5: "bit (smear x) n \<longleftrightarrow> (\<exists>j \<in> {n..<n + 32}. bit x j)" for n
    using bit_smear_step [of x4 16 x n, OF 4]
    by (simp add: smear_def x1_def x2_def x3_def x4_def Let_def)
  have "j < n + 32" if "bit x j" for j using bit_imp_le_length [OF that] by simp
  then show ?thesis using 5 [of n] by auto
qed

text \<open>Smearing a word whose highest set bit is \<open>k\<close> gives the mask of the bits up to \<open>k\<close>.\<close>

lemma smear_mask:
  assumes "2 ^ k \<le> unat x" "unat x < 2 ^ Suc k"
  shows "smear x = mask (Suc k)" "k < 32"
proof -
  have hi: "\<not> bit x j" if "Suc k \<le> j" for j
  proof -
    have "unat x < 2 ^ j" using assms(2) that by (meson less_le_trans power_increasing one_le_numeral)
    then have "bit (unat x) j = False" by (simp add: bit_iff_odd)
    then show ?thesis by (simp add: bit_unsigned_iff)
  qed
  have "unat x div 2 ^ k = 1" using assms by (intro div_nat_eqI) auto
  then have "bit (unat x) k" by (simp add: bit_iff_odd)
  then have lo: "bit x k" by (simp add: bit_unsigned_iff)
  then show "k < 32" using bit_imp_le_length [OF lo] by simp
  show "smear x = mask (Suc k)"
  proof (rule bit_eqI)
    fix n
    have "bit (smear x) n \<longleftrightarrow> n < Suc k"
      unfolding bit_smear using hi lo by (meson le_trans less_Suc_eq_le not_less)
    then show "bit (smear x) n \<longleftrightarrow> bit (mask (Suc k) :: u32) n"
      using bit_imp_le_length [OF lo] by (auto simp: bit_mask_iff)
  qed
qed

lemma log2_masks: "list_all (\<lambda>k. tab32 ! unat (drop_bit 27 (mask (Suc k) * 0x07C4ACDD :: u32)) = of_nat k) [0..<32]"
  by (simp add: tab32_def mask_eq_exp_minus_1 upt_conv_Cons)

lemma msb_masks:
  "list_all (\<lambda>k. msb_pos ! unat (drop_bit 27 ((drop_bit 1 (mask (Suc k)) + 1) * 0x077CB531 :: u32)) = of_nat k) [0..<32]"
  by (simp add: msb_pos_def mask_eq_exp_minus_1 upt_conv_Cons)

lemma top_bit_word:
  assumes "2 ^ k \<le> unat x" "unat x < 2 ^ Suc k"
  shows "log2 x = of_nat k" "msb_u32 x = of_nat k"
  using smear_mask [OF assms] log2_masks msb_masks
  by (simp_all add: log2_def msb_u32_def list_all_iff)

text \<open>
  For every nonzero \<open>x\<close>, \<open>log2 x\<close> is the integer part of the binary logarithm of \<open>x\<close>.
\<close>

theorem log2_floor:
  assumes "x \<noteq> 0"
  shows "2 ^ unat (log2 x) \<le> unat x \<and> unat x < 2 ^ Suc (unat (log2 x))"
proof -
  have "1 \<le> unat x" using assms by (simp add: Suc_leI unat_gt_0)
  then obtain k where k: "2 ^ k \<le> unat x" "unat x < 2 ^ (k + 1)"
    using ex_power_ivl1 [of 2 "unat x"] by auto
  have "unat (of_nat k :: u32) = k"
    using smear_mask(2) [of k x] k by (simp add: unat_of_nat_u32)
  then show ?thesis using k top_bit_word(1) [of k x] by simp
qed

lemma log2_floor_witness:
  "2 ^ unat (log2 1000) \<le> unat (1000 :: u32) \<and> unat (1000 :: u32) < 2 ^ Suc (unat (log2 1000))"
  using log2_floor [of 1000] by simp

lemma msb_log2: "x \<noteq> 0 \<Longrightarrow> msb_u32 x = log2 x"
  using ex_power_ivl1 [of 2 "unat x"] top_bit_word [of _ x] by (auto simp: Suc_leI unat_gt_0)

subsection \<open>Factorials\<close>

lemma fact_loop_prod:
  assumes "unat i = Suc k" "unat n + 1 < 2 ^ 32" "k \<le> unat n"
  shows "fact_loop n i (of_nat (fact k)) = Some (of_nat (fact (unat n)))"
  using assms
proof (induction "unat n - k" arbitrary: i k)
  case 0
  then show ?case by (subst fact_loop.simps) (auto simp: word_le_nat_alt)
next
  case (Suc d)
  then have le: "i \<le> n" by (simp add: word_le_nat_alt)
  have i: "i = of_nat (Suc k)" using Suc.prems(1) by (simp flip: Suc.prems(1))
  have "unat (i + 1) = Suc (Suc k)" using Suc.prems Suc.hyps(2) by (simp add: unat_Suc_u32)
  then have "fact_loop n (i + 1) (of_nat (fact (Suc k))) = Some (of_nat (fact (unat n)))"
    using Suc.hyps(1) [of "Suc k" "i + 1"] Suc.hyps(2) Suc.prems by simp
  moreover have "of_nat (fact k) * i = of_nat (fact (Suc k))" by (simp add: i algebra_simps)
  ultimately show ?case using le by (subst fact_loop.simps) simp
qed

lemma fact_u32_correct: "unat n + 1 < 2 ^ 32 \<Longrightarrow> fact_u32 n = Some (of_nat (fact (unat n)))"
  using fact_loop_prod [of 1 0 n] by (simp add: fact_u32_def)

lemma fac_correct: "fac x = of_nat (fact (unat x))"
proof (induction x rule: fac.induct)
  case (1 x)
  show ?case
  proof (cases "x \<le> 1")
    case True
    then have "unat x = 0 \<or> unat x = 1" by (auto simp: word_le_nat_alt)
    then show ?thesis using True by (subst fac.simps) auto
  next
    case False
    then have "x \<noteq> 0" by auto
    then have "unat x = Suc (unat (x - 1))" by (simp add: unat_minus_one unat_gt_0)
    moreover have "x = of_nat (unat x)" by simp
    ultimately show ?thesis using 1 False by (subst fac.simps) (simp add: algebra_simps)
  qed
qed

text \<open>
  The loop \<open>fact\<close> and the recursion \<open>fac\<close> agree, and both are the factorial modulo
  \<open>2 ^ 32\<close>, for every argument except the largest one, on which the loop does not end.
\<close>

theorem fact_fac_agree:
  "unat n + 1 < 2 ^ 32 \<Longrightarrow> fact_u32 n = Some (fac n) \<and> fac n = of_nat (fact (unat n))"
  by (simp add: fact_u32_correct fac_correct)

lemma fact_fac_agree_witness: "fact_u32 20 = Some (fac 20) \<and> fac 20 = of_nat (fact (unat (20 :: u32)))"
  using fact_fac_agree [of 20] by simp

end
