(* ===== verification/LinkedQueue.thy ===== *)
theory LinkedQueue
  imports Prelude
begin

text \<open>
  Singly linked queues threaded through a \<open>next\<close> field, as the scheduler keeps them (head
  pointer, tail pointer, NULL at the end), and the contract of a first-in first-out queue as a
  locale.  Pointers are \<open>'a option\<close>, with \<open>None\<close> for NULL.
\<close>

fun chain :: "('a \<Rightarrow> 'a option) \<Rightarrow> 'a option \<Rightarrow> 'a list \<Rightarrow> bool" where
  "chain nx p [] \<longleftrightarrow> p = None"
| "chain nx p (x # xs) \<longleftrightarrow> p = Some x \<and> chain nx (nx x) xs"

definition last_opt :: "'a list \<Rightarrow> 'a option" where
  "last_opt xs = (if xs = [] then None else Some (last xs))"

text \<open>\<open>qrep nx h t xs\<close>: the queue with head \<open>h\<close> and tail \<open>t\<close> holds exactly \<open>xs\<close>.\<close>

definition qrep :: "('a \<Rightarrow> 'a option) \<Rightarrow> 'a option \<Rightarrow> 'a option \<Rightarrow> 'a list \<Rightarrow> bool" where
  "qrep nx h t xs \<longleftrightarrow> chain nx h xs \<and> t = last_opt xs \<and> distinct xs"

lemma chain_None [simp]: "chain nx None xs \<longleftrightarrow> xs = []"
  by (cases xs) auto

lemma chain_upd [simp]: "x \<notin> set xs \<Longrightarrow> chain (nx(x := v)) p xs = chain nx p xs"
  by (induction xs arbitrary: p) auto

lemma chain_cong: "(\<And>x. x \<in> set xs \<Longrightarrow> nx x = nx' x) \<Longrightarrow> chain nx p xs = chain nx' p xs"
  by (induction xs arbitrary: p) auto

lemma chain_last_None: "chain nx p xs \<Longrightarrow> xs \<noteq> [] \<Longrightarrow> nx (last xs) = None"
  by (induction xs arbitrary: p) (auto split: if_splits)

lemma chain_snoc:
  assumes "chain nx p xs" "xs \<noteq> []" "distinct xs" "z \<notin> set xs" "nx z = None"
  shows "chain (nx(last xs := Some z)) p (xs @ [z])"
  using assms
proof (induction xs arbitrary: p)
  case (Cons x xs)
  then show ?case
  proof (cases xs)
    case (Cons y ys)
    then have "last xs \<noteq> x" using Cons.prems by (metis distinct.simps(2) last_in_set list.distinct(1))
    then show ?thesis using Cons.IH [of "nx x"] Cons.prems Cons by simp
  qed auto
qed simp

lemma chain_unique: "chain nx p xs \<Longrightarrow> chain nx p ys \<Longrightarrow> xs = ys"
proof (induction xs arbitrary: p ys)
  case (Cons x xs)
  then show ?case by (cases ys) auto
qed simp

lemma chain_drop: "chain nx p (xs @ y # ys) \<Longrightarrow> chain nx (nx y) ys \<and> chain nx (Some y) (y # ys)"
  by (induction xs arbitrary: p) auto

lemma chain_head_fresh: "chain nx (nx x) xs \<Longrightarrow> x \<notin> set xs"
proof
  assume c: "chain nx (nx x) xs" and "x \<in> set xs"
  then obtain as bs where "xs = as @ x # bs" by (meson split_list)
  with c have "chain nx (nx x) bs" using chain_drop by metis
  with c chain_unique have "xs = bs" by metis
  with \<open>xs = as @ x # bs\<close> show False by simp
qed

lemma chain_distinct: "chain nx p xs \<Longrightarrow> distinct xs"
  by (induction xs arbitrary: p) (auto dest: chain_head_fresh)

lemma last_opt_Nil [simp]: "last_opt [] = None"
  by (simp add: last_opt_def)

lemma last_opt_snoc [simp]: "last_opt (xs @ [x]) = Some x"
  by (simp add: last_opt_def)

lemma last_opt_Cons: "last_opt (x # xs) = (if xs = [] then Some x else last_opt xs)"
  by (simp add: last_opt_def)

lemma last_opt_None [simp]: "last_opt xs = None \<longleftrightarrow> xs = []"
  by (simp add: last_opt_def)

lemma qrep_empty [simp]: "qrep nx None None xs \<longleftrightarrow> xs = []"
  by (auto simp: qrep_def)

lemma qrep_nil_iff: "qrep nx h t [] \<longleftrightarrow> h = None \<and> t = None"
  by (auto simp: qrep_def)

lemma qrep_head: "qrep nx h t xs \<Longrightarrow> h = None \<longleftrightarrow> xs = []"
  by (cases xs) (auto simp: qrep_def)

lemma qrep_upd [simp]: "x \<notin> set xs \<Longrightarrow> qrep (nx(x := v)) h t xs = qrep nx h t xs"
  by (simp add: qrep_def)

lemma qrep_cong: "(\<And>x. x \<in> set xs \<Longrightarrow> nx x = nx' x) \<Longrightarrow> qrep nx h t xs = qrep nx' h t xs"
  unfolding qrep_def using chain_cong [of xs nx nx'] by metis

lemma qrep_unique: "qrep nx h t xs \<Longrightarrow> qrep nx h' t' ys \<Longrightarrow> h = h' \<Longrightarrow> xs = ys"
  by (auto simp: qrep_def dest: chain_unique)

lemma qrep_single: "nx z = None \<Longrightarrow> qrep nx (Some z) (Some z) [z]"
  by (simp add: qrep_def last_opt_def)

lemma qrep_snoc:
  assumes "qrep nx h t xs" "xs \<noteq> []" "z \<notin> set xs" "nx z = None"
  shows "qrep (nx(last xs := Some z)) h (Some z) (xs @ [z])"
  using assms by (auto simp: qrep_def intro: chain_snoc)

text \<open>Appending at the tail pointer, as all the list operations of the scheduler do it.\<close>

lemma qrep_enqueue:
  assumes "qrep nx h t xs" "x \<notin> set xs" "nx x = None"
  shows "qrep (if h = None then nx else nx(the t := Some x)) (if h = None then Some x else h) (Some x) (xs @ [x])"
proof (cases "xs = []")
  case True
  then show ?thesis using assms by (simp add: qrep_nil_iff qrep_single)
next
  case False
  then have "h \<noteq> None" "the t = last xs"
    using assms(1) qrep_head [OF assms(1)] by (simp_all add: qrep_def last_opt_def)
  then show ?thesis using qrep_snoc [OF assms(1) False assms(2,3)] by auto
qed

lemma qrep_tail: "qrep nx h t xs \<Longrightarrow> h \<noteq> None \<Longrightarrow> t = Some (last xs) \<and> xs \<noteq> []"
  by (auto simp: qrep_def last_opt_def)

lemma qrep_tl:
  assumes "qrep nx h t (x # xs)"
  shows "h = Some x" "qrep (nx(x := v)) (nx x) (if nx x = None then None else t) xs"
  using assms by (auto simp: qrep_def last_opt_Cons)

lemma qrep_tl_same: "qrep nx h t (x # xs) \<Longrightarrow> qrep nx (nx x) (if nx x = None then None else t) xs"
  using qrep_tl(2) [of nx h t x xs "nx x"] by (simp only: fun_upd_triv)

subsection \<open>The contract of a queue\<close>

locale task_queue =
  fixes rep :: "'s \<Rightarrow> 'a list \<Rightarrow> bool"
    and fresh :: "'s \<Rightarrow> 'a \<Rightarrow> bool"
    and enq :: "'a \<Rightarrow> 's \<Rightarrow> 's"
    and deq :: "'s \<Rightarrow> 'a option \<times> 's"
  assumes enq_rep: "rep s xs \<Longrightarrow> x \<notin> set xs \<Longrightarrow> fresh s x \<Longrightarrow> rep (enq x s) (xs @ [x])"
    and enq_fresh: "fresh s y \<Longrightarrow> x \<noteq> y \<Longrightarrow> rep s xs \<Longrightarrow> y \<notin> set xs \<Longrightarrow> fresh (enq x s) y"
    and deq_nil: "rep s [] \<Longrightarrow> fst (deq s) = None"
    and deq_cons: "rep s (x # xs) \<Longrightarrow> fst (deq s) = Some x \<and> rep (snd (deq s)) xs"
begin

primrec enq_all :: "'a list \<Rightarrow> 's \<Rightarrow> 's" where
  "enq_all [] s = s"
| "enq_all (x # xs) s = enq_all xs (enq x s)"

primrec deq_n :: "nat \<Rightarrow> 's \<Rightarrow> 'a option list \<times> 's" where
  "deq_n 0 s = ([], s)"
| "deq_n (Suc n) s = (let (r, s1) = deq s; (rs, s2) = deq_n n s1 in (r # rs, s2))"

lemma enq_all_rep:
  "rep s xs \<Longrightarrow> distinct (xs @ ys) \<Longrightarrow> \<forall>y \<in> set ys. fresh s y \<Longrightarrow> rep (enq_all ys s) (xs @ ys)"
proof (induction ys arbitrary: s xs)
  case (Cons y ys)
  then have "rep (enq y s) (xs @ [y])" by (auto intro: enq_rep)
  moreover have "\<forall>z \<in> set ys. fresh (enq y s) z"
    using Cons.prems by (auto intro!: enq_fresh)
  ultimately show ?case using Cons.IH [of "enq y s" "xs @ [y]"] Cons.prems by simp
qed simp

lemma deq_n_rep:
  "rep s (xs @ ys) \<Longrightarrow> fst (deq_n (length xs) s) = map Some xs \<and> rep (snd (deq_n (length xs) s)) ys"
proof (induction xs arbitrary: s)
  case (Cons x xs)
  then show ?case using deq_cons [of s x "xs @ ys"] Cons.IH [of "snd (deq s)"]
    by (simp add: case_prod_beta Let_def)
qed simp

text \<open>What goes in comes out, in the same order.\<close>

lemma fifo:
  assumes "rep s []" "distinct xs" "\<forall>x \<in> set xs. fresh s x"
  shows "fst (deq_n (length xs) (enq_all xs s)) = map Some xs \<and> rep (snd (deq_n (length xs) (enq_all xs s))) []"
  using enq_all_rep [of s "[]" xs] deq_n_rep [of "enq_all xs s" xs "[]"] assms by simp

end

end
