(* ===== verification/SchedulerLists.thy ===== *)
theory SchedulerLists
  imports Scheduler
begin

text \<open>
  The list operations of the scheduler: what they leave alone, the ready and terminated lists as
  instances of the queue contract, the three lists together, and the task switch.
\<close>

subsection \<open>What each list operation leaves alone\<close>

lemma upd_frame [simp]:
  "irqDisableCounter (upd p f s) = irqDisableCounter s" "idleCPUTime (upd p f s) = idleCPUTime s"
  "postponeTaskCounter (upd p f s) = postponeTaskCounter s"
  "taskChangePostponedFlag (upd p f s) = taskChangePostponedFlag s"
  "currentPCB (upd p f s) = currentPCB s" "readyListHead (upd p f s) = readyListHead s"
  "readyListTail (upd p f s) = readyListTail s" "sleepingListHead (upd p f s) = sleepingListHead s"
  "sleepingListTail (upd p f s) = sleepingListTail s"
  "terminatedListHead (upd p f s) = terminatedListHead s"
  "terminatedListTail (upd p f s) = terminatedListTail s" "butler (upd p f s) = butler s"
  "lastCounter (upd p f s) = lastCounter s" "counter (upd p f s) = counter s"
  "waiting (upd p f s) = waiting s" "cr3 (upd p f s) = cr3 s" "iflag (upd p f s) = iflag s"
  "stk (upd p f s) = stk s" "esp (upd p f s) = esp s" "ebx (upd p f s) = ebx s"
  "esi (upd p f s) = esi s" "edi (upd p f s) = edi s" "ebp (upd p f s) = ebp s"
  "eip (upd p f s) = eip s"
  by (simp_all add: upd_def split: option.split)

lemma pcbArray_upd [simp]:
  "pcbArray (upd None f s) = pcbArray s"
  "pcbArray (upd (Some i) f s) = (pcbArray s)(i := f (pcbArray s i))"
  by (simp_all add: upd_def)

lemma AddReady_frame [simp]:
  "irqDisableCounter (AddReady t s) = irqDisableCounter s"
  "idleCPUTime (AddReady t s) = idleCPUTime s"
  "postponeTaskCounter (AddReady t s) = postponeTaskCounter s"
  "taskChangePostponedFlag (AddReady t s) = taskChangePostponedFlag s"
  "currentPCB (AddReady t s) = currentPCB s" "sleepingListHead (AddReady t s) = sleepingListHead s"
  "sleepingListTail (AddReady t s) = sleepingListTail s"
  "terminatedListHead (AddReady t s) = terminatedListHead s"
  "terminatedListTail (AddReady t s) = terminatedListTail s" "butler (AddReady t s) = butler s"
  "lastCounter (AddReady t s) = lastCounter s" "counter (AddReady t s) = counter s"
  "waiting (AddReady t s) = waiting s" "cr3 (AddReady t s) = cr3 s"
  "iflag (AddReady t s) = iflag s" "stk (AddReady t s) = stk s" "esp (AddReady t s) = esp s"
  "ebx (AddReady t s) = ebx s" "esi (AddReady t s) = esi s" "edi (AddReady t s) = edi s"
  "ebp (AddReady t s) = ebp s" "eip (AddReady t s) = eip s"
  by (simp_all add: AddReady_def Let_def)

lemma AddSleeping_frame [simp]:
  "irqDisableCounter (AddSleeping t s) = irqDisableCounter s"
  "idleCPUTime (AddSleeping t s) = idleCPUTime s"
  "postponeTaskCounter (AddSleeping t s) = postponeTaskCounter s"
  "taskChangePostponedFlag (AddSleeping t s) = taskChangePostponedFlag s"
  "currentPCB (AddSleeping t s) = currentPCB s" "readyListHead (AddSleeping t s) = readyListHead s"
  "readyListTail (AddSleeping t s) = readyListTail s"
  "terminatedListHead (AddSleeping t s) = terminatedListHead s"
  "terminatedListTail (AddSleeping t s) = terminatedListTail s"
  "butler (AddSleeping t s) = butler s" "lastCounter (AddSleeping t s) = lastCounter s"
  "counter (AddSleeping t s) = counter s" "waiting (AddSleeping t s) = waiting s"
  "cr3 (AddSleeping t s) = cr3 s" "iflag (AddSleeping t s) = iflag s"
  "stk (AddSleeping t s) = stk s" "esp (AddSleeping t s) = esp s" "ebx (AddSleeping t s) = ebx s"
  "esi (AddSleeping t s) = esi s" "edi (AddSleeping t s) = edi s" "ebp (AddSleeping t s) = ebp s"
  "eip (AddSleeping t s) = eip s"
  by (simp_all add: AddSleeping_def Let_def)

lemma AddTerminated_frame [simp]:
  "irqDisableCounter (AddTerminated t s) = irqDisableCounter s"
  "idleCPUTime (AddTerminated t s) = idleCPUTime s"
  "postponeTaskCounter (AddTerminated t s) = postponeTaskCounter s"
  "taskChangePostponedFlag (AddTerminated t s) = taskChangePostponedFlag s"
  "currentPCB (AddTerminated t s) = currentPCB s"
  "readyListHead (AddTerminated t s) = readyListHead s"
  "readyListTail (AddTerminated t s) = readyListTail s"
  "sleepingListHead (AddTerminated t s) = sleepingListHead s"
  "sleepingListTail (AddTerminated t s) = sleepingListTail s"
  "butler (AddTerminated t s) = butler s" "lastCounter (AddTerminated t s) = lastCounter s"
  "counter (AddTerminated t s) = counter s" "waiting (AddTerminated t s) = waiting s"
  "cr3 (AddTerminated t s) = cr3 s" "iflag (AddTerminated t s) = iflag s"
  "stk (AddTerminated t s) = stk s" "esp (AddTerminated t s) = esp s"
  "ebx (AddTerminated t s) = ebx s" "esi (AddTerminated t s) = esi s"
  "edi (AddTerminated t s) = edi s" "ebp (AddTerminated t s) = ebp s"
  "eip (AddTerminated t s) = eip s"
  by (simp_all add: AddTerminated_def Let_def)

lemma NextReady_frame [simp]:
  "irqDisableCounter (snd (NextReady s)) = irqDisableCounter s"
  "idleCPUTime (snd (NextReady s)) = idleCPUTime s"
  "postponeTaskCounter (snd (NextReady s)) = postponeTaskCounter s"
  "taskChangePostponedFlag (snd (NextReady s)) = taskChangePostponedFlag s"
  "currentPCB (snd (NextReady s)) = currentPCB s"
  "sleepingListHead (snd (NextReady s)) = sleepingListHead s"
  "sleepingListTail (snd (NextReady s)) = sleepingListTail s"
  "terminatedListHead (snd (NextReady s)) = terminatedListHead s"
  "terminatedListTail (snd (NextReady s)) = terminatedListTail s"
  "butler (snd (NextReady s)) = butler s" "lastCounter (snd (NextReady s)) = lastCounter s"
  "counter (snd (NextReady s)) = counter s" "waiting (snd (NextReady s)) = waiting s"
  "cr3 (snd (NextReady s)) = cr3 s" "iflag (snd (NextReady s)) = iflag s"
  "stk (snd (NextReady s)) = stk s" "esp (snd (NextReady s)) = esp s"
  "ebx (snd (NextReady s)) = ebx s" "esi (snd (NextReady s)) = esi s"
  "edi (snd (NextReady s)) = edi s" "ebp (snd (NextReady s)) = ebp s"
  "eip (snd (NextReady s)) = eip s"
  by (simp_all add: NextReady_def Let_def split: option.split)

lemma NextTerminated_frame [simp]:
  "irqDisableCounter (snd (NextTerminated s)) = irqDisableCounter s"
  "idleCPUTime (snd (NextTerminated s)) = idleCPUTime s"
  "postponeTaskCounter (snd (NextTerminated s)) = postponeTaskCounter s"
  "taskChangePostponedFlag (snd (NextTerminated s)) = taskChangePostponedFlag s"
  "currentPCB (snd (NextTerminated s)) = currentPCB s"
  "readyListHead (snd (NextTerminated s)) = readyListHead s"
  "readyListTail (snd (NextTerminated s)) = readyListTail s"
  "sleepingListHead (snd (NextTerminated s)) = sleepingListHead s"
  "sleepingListTail (snd (NextTerminated s)) = sleepingListTail s"
  "butler (snd (NextTerminated s)) = butler s"
  "lastCounter (snd (NextTerminated s)) = lastCounter s"
  "counter (snd (NextTerminated s)) = counter s" "waiting (snd (NextTerminated s)) = waiting s"
  "cr3 (snd (NextTerminated s)) = cr3 s" "iflag (snd (NextTerminated s)) = iflag s"
  "stk (snd (NextTerminated s)) = stk s" "esp (snd (NextTerminated s)) = esp s"
  "ebx (snd (NextTerminated s)) = ebx s" "esi (snd (NextTerminated s)) = esi s"
  "edi (snd (NextTerminated s)) = edi s" "ebp (snd (NextTerminated s)) = ebp s"
  "eip (snd (NextTerminated s)) = eip s"
  by (simp_all add: NextTerminated_def Let_def split: option.split)

lemma UpdateTimeUsed_frame [simp]:
  "irqDisableCounter (UpdateTimeUsed s) = irqDisableCounter s"
  "postponeTaskCounter (UpdateTimeUsed s) = postponeTaskCounter s"
  "taskChangePostponedFlag (UpdateTimeUsed s) = taskChangePostponedFlag s"
  "currentPCB (UpdateTimeUsed s) = currentPCB s"
  "readyListHead (UpdateTimeUsed s) = readyListHead s"
  "readyListTail (UpdateTimeUsed s) = readyListTail s"
  "sleepingListHead (UpdateTimeUsed s) = sleepingListHead s"
  "sleepingListTail (UpdateTimeUsed s) = sleepingListTail s"
  "terminatedListHead (UpdateTimeUsed s) = terminatedListHead s"
  "terminatedListTail (UpdateTimeUsed s) = terminatedListTail s"
  "butler (UpdateTimeUsed s) = butler s" "counter (UpdateTimeUsed s) = counter s"
  "waiting (UpdateTimeUsed s) = waiting s" "cr3 (UpdateTimeUsed s) = cr3 s"
  "iflag (UpdateTimeUsed s) = iflag s" "stk (UpdateTimeUsed s) = stk s"
  "esp (UpdateTimeUsed s) = esp s" "ebx (UpdateTimeUsed s) = ebx s"
  "esi (UpdateTimeUsed s) = esi s" "edi (UpdateTimeUsed s) = edi s"
  "ebp (UpdateTimeUsed s) = ebp s" "eip (UpdateTimeUsed s) = eip s"
  by (simp_all add: UpdateTimeUsed_def Let_def split: option.split)

text \<open>The fields of a task that the list operations keep.\<close>

lemma AddReady_pcb [simp]:
  "pstate (pcbArray (AddReady (Some x) s) y) = (if y = x then READY else pstate (pcbArray s y))"
  "used (pcbArray (AddReady t s) y) = used (pcbArray s y)"
  "tos (pcbArray (AddReady t s) y) = tos (pcbArray s y)"
  "sleepUntil (pcbArray (AddReady t s) y) = sleepUntil (pcbArray s y)"
  "quantumLeft (pcbArray (AddReady t s) y) = quantumLeft (pcbArray s y)"
  by (auto simp: AddReady_def Let_def upd_def split: option.split)

lemma AddSleeping_pcb [simp]:
  "pstate (pcbArray (AddSleeping (Some x) s) y) = (if y = x then SLEEPING else pstate (pcbArray s y))"
  "used (pcbArray (AddSleeping t s) y) = used (pcbArray s y)"
  "tos (pcbArray (AddSleeping t s) y) = tos (pcbArray s y)"
  "sleepUntil (pcbArray (AddSleeping t s) y) = sleepUntil (pcbArray s y)"
  "quantumLeft (pcbArray (AddSleeping t s) y) = quantumLeft (pcbArray s y)"
  by (auto simp: AddSleeping_def Let_def upd_def split: option.split)

lemma AddTerminated_pcb [simp]:
  "pstate (pcbArray (AddTerminated (Some x) s) y) = (if y = x then SLEEPING else pstate (pcbArray s y))"
  "used (pcbArray (AddTerminated t s) y) = used (pcbArray s y)"
  by (auto simp: AddTerminated_def Let_def upd_def split: option.split)

lemma NextReady_pcb [simp]:
  "pstate (pcbArray (snd (NextReady s)) y) = pstate (pcbArray s y)"
  "used (pcbArray (snd (NextReady s)) y) = used (pcbArray s y)"
  "tos (pcbArray (snd (NextReady s)) y) = tos (pcbArray s y)"
  "sleepUntil (pcbArray (snd (NextReady s)) y) = sleepUntil (pcbArray s y)"
  by (auto simp: NextReady_def Let_def split: option.split)

lemma NextTerminated_pcb [simp]: "pcbArray (snd (NextTerminated s)) = pcbArray s"
  by (auto simp: NextTerminated_def Let_def split: option.split)

subsection \<open>The three lists as queues\<close>

abbreviation nx :: "sched \<Rightarrow> nat \<Rightarrow> nat option" where
  "nx s \<equiv> (\<lambda>i. nxt (pcbArray s i))"

definition ready_rep :: "sched \<Rightarrow> nat list \<Rightarrow> bool" where
  "ready_rep s = qrep (nx s) (readyListHead s) (readyListTail s)"

definition sleeping_rep :: "sched \<Rightarrow> nat list \<Rightarrow> bool" where
  "sleeping_rep s = qrep (nx s) (sleepingListHead s) (sleepingListTail s)"

definition terminated_rep :: "sched \<Rightarrow> nat list \<Rightarrow> bool" where
  "terminated_rep s = qrep (nx s) (terminatedListHead s) (terminatedListTail s)"

lemmas rep_defs = ready_rep_def sleeping_rep_def terminated_rep_def

lemma ready_rep_cong:
  assumes "ready_rep s xs" "readyListHead s' = readyListHead s" "readyListTail s' = readyListTail s"
    "\<And>y. y \<in> set xs \<Longrightarrow> nx s' y = nx s y"
  shows "ready_rep s' xs"
  using assms qrep_cong [of xs "nx s'" "nx s"] by (simp add: ready_rep_def)

lemma sleeping_rep_cong:
  assumes "sleeping_rep s xs" "sleepingListHead s' = sleepingListHead s" "sleepingListTail s' = sleepingListTail s"
    "\<And>y. y \<in> set xs \<Longrightarrow> nx s' y = nx s y"
  shows "sleeping_rep s' xs"
  using assms qrep_cong [of xs "nx s'" "nx s"] by (simp add: sleeping_rep_def)

lemma terminated_rep_cong:
  assumes "terminated_rep s xs" "terminatedListHead s' = terminatedListHead s" "terminatedListTail s' = terminatedListTail s"
    "\<And>y. y \<in> set xs \<Longrightarrow> nx s' y = nx s y"
  shows "terminated_rep s' xs"
  using assms qrep_cong [of xs "nx s'" "nx s"] by (simp add: terminated_rep_def)

lemma AddReady_links:
  assumes "ready_rep s xs"
  shows "nx (AddReady (Some x) s) =
      (if readyListHead s = None then (nx s)(x := None) else ((nx s)(x := None))(the (readyListTail s) := Some x))"
    "readyListHead (AddReady (Some x) s) = (if readyListHead s = None then Some x else readyListHead s)"
    "readyListTail (AddReady (Some x) s) = Some x"
  using assms qrep_tail [of "nx s" "readyListHead s" "readyListTail s" xs]
  by (auto simp: AddReady_def Let_def rep_defs fun_eq_iff upd_def split: option.splits)

lemma AddReady_other:
  assumes "ready_rep s xs" "y \<notin> set xs" "y \<noteq> x"
  shows "nx (AddReady (Some x) s) y = nx s y"
proof -
  have "readyListHead s \<noteq> None \<Longrightarrow> the (readyListTail s) \<in> set xs"
    using assms(1) qrep_tail [of "nx s" "readyListHead s" "readyListTail s" xs] by (auto simp: ready_rep_def)
  then show ?thesis
    using fun_cong [OF AddReady_links(1) [OF assms(1), of x], of y] assms(2,3) by auto
qed

lemma AddReady_rep:
  assumes "ready_rep s xs" "x \<notin> set xs"
  shows "ready_rep (AddReady (Some x) s) (xs @ [x])"
  using assms qrep_enqueue [of "(nx s)(x := None)" "readyListHead s" "readyListTail s" xs x]
  by (simp add: ready_rep_def AddReady_links [OF assms(1)] split: if_splits)

lemma AddSleeping_links:
  assumes "sleeping_rep s xs"
  shows "nx (AddSleeping (Some x) s) =
      (if sleepingListHead s = None then nx s else (nx s)(the (sleepingListTail s) := Some x))"
    "sleepingListHead (AddSleeping (Some x) s) = (if sleepingListHead s = None then Some x else sleepingListHead s)"
    "sleepingListTail (AddSleeping (Some x) s) = Some x"
  using assms qrep_tail [of "nx s" "sleepingListHead s" "sleepingListTail s" xs]
  by (auto simp: AddSleeping_def Let_def rep_defs fun_eq_iff upd_def split: option.splits)

lemma AddSleeping_other:
  assumes "sleeping_rep s xs" "y \<notin> set xs" "y \<noteq> x"
  shows "nx (AddSleeping (Some x) s) y = nx s y"
proof -
  have "sleepingListHead s \<noteq> None \<Longrightarrow> the (sleepingListTail s) \<in> set xs"
    using assms(1) qrep_tail [of "nx s" "sleepingListHead s" "sleepingListTail s" xs] by (auto simp: sleeping_rep_def)
  then show ?thesis
    using fun_cong [OF AddSleeping_links(1) [OF assms(1), of x], of y] assms(2,3) by auto
qed

lemma AddSleeping_rep:
  assumes "sleeping_rep s xs" "x \<notin> set xs" "nx s x = None"
  shows "sleeping_rep (AddSleeping (Some x) s) (xs @ [x])"
  using assms qrep_enqueue [of "nx s" "sleepingListHead s" "sleepingListTail s" xs x]
  by (simp add: sleeping_rep_def AddSleeping_links [OF assms(1)] split: if_splits)

lemma AddTerminated_links:
  assumes "terminated_rep s xs"
  shows "nx (AddTerminated (Some x) s) =
      (if terminatedListHead s = None then nx s else (nx s)(the (terminatedListTail s) := Some x))"
    "terminatedListHead (AddTerminated (Some x) s) = (if terminatedListHead s = None then Some x else terminatedListHead s)"
    "terminatedListTail (AddTerminated (Some x) s) = Some x"
  using assms qrep_tail [of "nx s" "terminatedListHead s" "terminatedListTail s" xs]
  by (auto simp: AddTerminated_def Let_def rep_defs fun_eq_iff upd_def split: option.splits)

lemma AddTerminated_other:
  assumes "terminated_rep s xs" "y \<notin> set xs" "y \<noteq> x"
  shows "nx (AddTerminated (Some x) s) y = nx s y"
proof -
  have "terminatedListHead s \<noteq> None \<Longrightarrow> the (terminatedListTail s) \<in> set xs"
    using assms(1) qrep_tail [of "nx s" "terminatedListHead s" "terminatedListTail s" xs] by (auto simp: terminated_rep_def)
  then show ?thesis
    using fun_cong [OF AddTerminated_links(1) [OF assms(1), of x], of y] assms(2,3) by auto
qed

lemma AddTerminated_rep:
  assumes "terminated_rep s xs" "x \<notin> set xs" "nx s x = None"
  shows "terminated_rep (AddTerminated (Some x) s) (xs @ [x])"
  using assms qrep_enqueue [of "nx s" "terminatedListHead s" "terminatedListTail s" xs x]
  by (simp add: terminated_rep_def AddTerminated_links [OF assms(1)] split: if_splits)

lemma NextReady_nil: "ready_rep s [] \<Longrightarrow> NextReady s = (None, s)"
  by (simp add: NextReady_def ready_rep_def qrep_nil_iff)

lemma NextReady_cons:
  assumes "ready_rep s (x # xs)"
  shows "fst (NextReady s) = Some x"
    and NextReady_nx: "nx (snd (NextReady s)) = (nx s)(x := None)"
    and "ready_rep (snd (NextReady s)) xs"
proof -
  have h: "readyListHead s = Some x"
    and q: "qrep ((nx s)(x := None)) (nx s x) (if nx s x = None then None else readyListTail s) xs"
    using assms qrep_tl [of "nx s" "readyListHead s" "readyListTail s" x xs] by (simp_all only: ready_rep_def)
  show "fst (NextReady s) = Some x" by (simp add: NextReady_def h Let_def)
  show n: "nx (snd (NextReady s)) = (nx s)(x := None)"
    by (auto simp: NextReady_def h Let_def fun_eq_iff)
  have "readyListHead (snd (NextReady s)) = nx s x"
    "readyListTail (snd (NextReady s)) = (if nx s x = None then None else readyListTail s)"
    by (simp_all add: NextReady_def h Let_def)
  then show "ready_rep (snd (NextReady s)) xs" unfolding ready_rep_def n using q by simp
qed

lemma NextTerminated_cons:
  assumes "terminated_rep s (x # xs)"
  shows "fst (NextTerminated s) = Some x" "terminated_rep (snd (NextTerminated s)) xs"
proof -
  have h: "terminatedListHead s = Some x"
    and q: "qrep (nx s) (nx s x) (if nx s x = None then None else terminatedListTail s) xs"
    using assms qrep_tl(1) [of "nx s" "terminatedListHead s" "terminatedListTail s" x xs]
      qrep_tl_same [of "nx s" "terminatedListHead s" "terminatedListTail s" x xs]
    by (simp_all only: terminated_rep_def)
  then show "fst (NextTerminated s) = Some x" "terminated_rep (snd (NextTerminated s)) xs"
    by (auto simp: NextTerminated_def h Let_def terminated_rep_def split: if_splits)
qed

text \<open>The ready list and the terminated list are first-in first-out queues.\<close>

interpretation ready: task_queue ready_rep "\<lambda>_ _. True" "\<lambda>x. AddReady (Some x)" NextReady
  by unfold_locales (auto simp: AddReady_rep NextReady_nil NextReady_cons)

interpretation terminated: task_queue terminated_rep "\<lambda>s x. nx s x = None"
    "\<lambda>x. AddTerminated (Some x)" NextTerminated
proof unfold_locales
  fix s x y xs
  assume "nx s y = None" "x \<noteq> y" "terminated_rep s xs" "y \<notin> set xs"
  then show "nx (AddTerminated (Some x) s) y = None"
    using AddTerminated_other [of s xs y x] by simp
next
  fix s assume "terminated_rep s []"
  then show "fst (NextTerminated s) = None"
    by (simp add: NextTerminated_def terminated_rep_def qrep_nil_iff)
qed (simp_all add: AddTerminated_rep NextTerminated_cons)

subsection \<open>The lists together\<close>

abbreviation st :: "sched \<Rightarrow> nat \<Rightarrow> ProcessState" where
  "st s i \<equiv> pstate (pcbArray s i)"

abbreviation us :: "sched \<Rightarrow> nat \<Rightarrow> u32" where
  "us s i \<equiv> used (pcbArray s i)"

text \<open>The ready, sleeping and terminated lists hold \<open>R\<close>, \<open>S\<close> and \<open>T\<close>: live tasks, each on one list.\<close>

definition core :: "sched \<Rightarrow> nat list \<Rightarrow> nat list \<Rightarrow> nat list \<Rightarrow> bool" where
  "core s R S T \<longleftrightarrow> ready_rep s R \<and> sleeping_rep s S \<and> terminated_rep s T \<and> distinct (R @ S @ T)
     \<and> (\<forall>x \<in> set (R @ S @ T). x < MAX_TASKS \<and> us s x \<noteq> 0)"

lemma core_cong:
  assumes "core s R S T"
    and "readyListHead s' = readyListHead s" "readyListTail s' = readyListTail s"
    and "sleepingListHead s' = sleepingListHead s" "sleepingListTail s' = sleepingListTail s"
    and "terminatedListHead s' = terminatedListHead s" "terminatedListTail s' = terminatedListTail s"
    and "\<And>x. x \<in> set (R @ S @ T) \<Longrightarrow> nx s' x = nx s x \<and> us s' x \<noteq> 0"
  shows "core s' R S T"
  using assms ready_rep_cong [of s R s'] sleeping_rep_cong [of s S s'] terminated_rep_cong [of s T s']
  by (auto simp: core_def)

lemma core_AddReady:
  assumes c: "core s R S T" and x: "x \<notin> set (R @ S @ T)" "x < MAX_TASKS" "us s x \<noteq> 0"
  shows "core (AddReady (Some x) s) (R @ [x]) S T"
proof -
  have r: "ready_rep s R" using c by (simp add: core_def)
  have "nx (AddReady (Some x) s) y = nx s y" if "y \<in> set (S @ T)" for y
    using that c x(1) by (intro AddReady_other [OF r]) (auto simp: core_def)
  then show ?thesis
    using c x AddReady_rep [OF r, of x] sleeping_rep_cong [of s S "AddReady (Some x) s"]
      terminated_rep_cong [of s T "AddReady (Some x) s"]
    by (auto simp: core_def)
qed

lemma core_AddSleeping:
  assumes c: "core s R S T" and x: "x \<notin> set (R @ S @ T)" "x < MAX_TASKS" "us s x \<noteq> 0" "nx s x = None"
  shows "core (AddSleeping (Some x) s) R (S @ [x]) T"
proof -
  have r: "sleeping_rep s S" using c by (simp add: core_def)
  have "nx (AddSleeping (Some x) s) y = nx s y" if "y \<in> set (R @ T)" for y
    using that c x(1) by (intro AddSleeping_other [OF r]) (auto simp: core_def)
  then show ?thesis
    using c x AddSleeping_rep [OF r, of x] ready_rep_cong [of s R "AddSleeping (Some x) s"]
      terminated_rep_cong [of s T "AddSleeping (Some x) s"]
    by (auto simp: core_def)
qed

lemma core_AddTerminated:
  assumes c: "core s R S T" and x: "x \<notin> set (R @ S @ T)" "x < MAX_TASKS" "us s x \<noteq> 0" "nx s x = None"
  shows "core (AddTerminated (Some x) s) R S (T @ [x])"
proof -
  have r: "terminated_rep s T" using c by (simp add: core_def)
  have "nx (AddTerminated (Some x) s) y = nx s y" if "y \<in> set (R @ S)" for y
    using that c x(1) by (intro AddTerminated_other [OF r]) (auto simp: core_def)
  then show ?thesis
    using c x AddTerminated_rep [OF r, of x] ready_rep_cong [of s R "AddTerminated (Some x) s"]
      sleeping_rep_cong [of s S "AddTerminated (Some x) s"]
    by (auto simp: core_def)
qed

lemma core_NextReady:
  assumes c: "core s (x # R) S T"
  shows "fst (NextReady s) = Some x" "core (snd (NextReady s)) R S T" "nx (snd (NextReady s)) x = None"
proof -
  have r: "ready_rep s (x # R)" using c by (simp add: core_def)
  show "fst (NextReady s) = Some x" "nx (snd (NextReady s)) x = None"
    using NextReady_cons [OF r] fun_cong [OF NextReady_nx [OF r], of x] by simp_all
  have "nx (snd (NextReady s)) y = nx s y" if "y \<in> set (S @ T)" for y
    using fun_cong [OF NextReady_nx [OF r], of y] that c by (auto simp: core_def)
  then show "core (snd (NextReady s)) R S T"
    using c NextReady_cons(3) [OF r] sleeping_rep_cong [of s S "snd (NextReady s)"]
      terminated_rep_cong [of s T "snd (NextReady s)"]
    by (auto simp: core_def)
qed

lemma core_NextTerminated:
  assumes c: "core s R S (x # T)"
  shows "fst (NextTerminated s) = Some x" "core (snd (NextTerminated s)) R S T"
proof -
  have r: "terminated_rep s (x # T)" using c by (simp add: core_def)
  then show "fst (NextTerminated s) = Some x" "core (snd (NextTerminated s)) R S T"
    using c NextTerminated_cons [OF r] by (auto simp: core_def rep_defs)
qed

subsection \<open>The task switch\<close>

text \<open>The time charged on a switch does not wrap the \<open>used\<close> counter of the task.\<close>

definition charge_ok :: "sched \<Rightarrow> nat \<Rightarrow> bool" where
  "charge_ok s c \<longleftrightarrow> unat (us s c) + unat (counter s - lastCounter s) < 2 ^ 32"

lemma charge_nonzero:
  fixes u d :: u32
  assumes "u \<noteq> 0" "unat u + unat d < 2 ^ 32"
  shows "u + d \<noteq> 0"
proof -
  have "unat (u + d) = unat u + unat d" using assms by (simp add: unat_word_ariths)
  then show ?thesis using assms(1) by (metis add_is_0 unat_eq_zero)
qed

lemma SwitchToTask_simps:
  assumes "postponeTaskCounter s = 0" "currentPCB s = Some c" "n \<noteq> c"
  shows "currentPCB (SwitchToTask n s) = Some n"
    "st (SwitchToTask n s) y =
       (if y = n then RUNNING else if y = c \<and> st s c = RUNNING then READY else st s y)"
    "us (SwitchToTask n s) y = (if y = c then us s c + (counter s - lastCounter s) else us s y)"
    "sleepUntil (pcbArray (SwitchToTask n s) y) = sleepUntil (pcbArray s y)"
    "quantumLeft (pcbArray (SwitchToTask n s) y) = quantumLeft (pcbArray s y)"
    "postponeTaskCounter (SwitchToTask n s) = 0"
    "taskChangePostponedFlag (SwitchToTask n s) = taskChangePostponedFlag s"
    "irqDisableCounter (SwitchToTask n s) = irqDisableCounter s"
    "iflag (SwitchToTask n s) = iflag s"
    "waiting (SwitchToTask n s) = waiting s"
    "butler (SwitchToTask n s) = butler s"
    "counter (SwitchToTask n s) = counter s"
    "lastCounter (SwitchToTask n s) = counter s"
    "cr3 (SwitchToTask n s) = cr3 s"
  using assms
  by (auto simp: SwitchToTask_def Let_def push_regs_def pop_regs_def UpdateTimeUsed_def GetCurrentCounter_def)

lemma SwitchToTask_core:
  assumes c: "core s R S T" and cur: "postponeTaskCounter s = 0" "currentPCB s = Some c" "n \<noteq> c"
    and cl: "c < MAX_TASKS" "us s c \<noteq> 0" "charge_ok s c" "st s c = RUNNING \<Longrightarrow> c \<notin> set (R @ S @ T)"
    and nl: "n \<notin> set (R @ S @ T)" "nx s n = None"
  shows "core (SwitchToTask n s) (if st s c = RUNNING then R @ [c] else R) S T"
    and "nx (SwitchToTask n s) n = None"
proof -
  define s1 where "s1 = push_regs s"
  define s2 where "s2 = (if st s1 c = RUNNING then AddReady (Some c) s1 else s1)"
  define R2 where "R2 = (if st s c = RUNNING then R @ [c] else R)"
  have s1: "core s1 R S T" "pcbArray s1 = pcbArray s"
    by (rule core_cong [OF c]) (use c in \<open>auto simp: s1_def push_regs_def core_def\<close>)
  have c2: "core s2 R2 S T"
    using core_AddReady [OF s1(1), of c] cl s1 by (auto simp: s2_def R2_def)
  have r: "ready_rep s1 R" using s1 by (simp add: core_def)
  have "nx (AddReady (Some c) s1) n = nx s n"
    using AddReady_other [OF r, of n c] nl cur(3) s1(2) by simp
  then have n2: "nx s2 n = None" using nl s1 by (simp add: s2_def)
  have fr: "readyListHead (SwitchToTask n s) = readyListHead s2" "readyListTail (SwitchToTask n s) = readyListTail s2"
    "sleepingListHead (SwitchToTask n s) = sleepingListHead s2" "sleepingListTail (SwitchToTask n s) = sleepingListTail s2"
    "terminatedListHead (SwitchToTask n s) = terminatedListHead s2"
    "terminatedListTail (SwitchToTask n s) = terminatedListTail s2"
    "nx (SwitchToTask n s) y = nx s2 y" for y
    using cur by (simp_all add: SwitchToTask_def Let_def pop_regs_def UpdateTimeUsed_def s1_def s2_def
      push_regs_def GetCurrentCounter_def)
  show "nx (SwitchToTask n s) n = None" using n2 fr by simp
  have used2: "us s2 y = us s y" for y using s1 by (simp add: s2_def)
  show "core (SwitchToTask n s) (if st s c = RUNNING then R @ [c] else R) S T"
    unfolding R2_def [symmetric]
  proof (rule core_cong [OF c2])
    fix y assume y: "y \<in> set (R2 @ S @ T)"
    then have "us s y \<noteq> 0" using c2 used2 by (auto simp: core_def)
    then show "nx (SwitchToTask n s) y = nx s2 y \<and> us (SwitchToTask n s) y \<noteq> 0"
      using fr SwitchToTask_simps(3) [OF cur, of y] cl(2,3) charge_nonzero [of "us s c"]
      by (auto simp: charge_ok_def)
  qed (use fr in simp_all)
qed

end
