(* ===== verification/SchedulerInv.thy ===== *)
theory SchedulerInv
  imports SchedulerLists
begin

text \<open>
  The invariant of the scheduler, its preservation by every operation and by the timer interrupt,
  and the scheduler as a transition system.
\<close>

subsection \<open>The invariant\<close>

definition states_ok :: "sched \<Rightarrow> nat list \<Rightarrow> nat list \<Rightarrow> nat list \<Rightarrow> bool" where
  "states_ok s R S T \<longleftrightarrow> (\<forall>x \<in> set R. st s x = READY) \<and> (\<forall>x \<in> set S. st s x = SLEEPING)
     \<and> (\<forall>x \<in> set T. st s x = TERMINATED)"

definition only_running :: "sched \<Rightarrow> nat option \<Rightarrow> bool" where
  "only_running s c \<longleftrightarrow> (\<forall>x < MAX_TASKS. us s x \<noteq> 0 \<longrightarrow> st s x = RUNNING \<longrightarrow> Some x = c)"

text \<open>The locks are free: the state in which the code of a task runs.\<close>

definition unlocked :: "sched \<Rightarrow> bool" where
  "unlocked s \<longleftrightarrow> irqDisableCounter s = 0 \<and> postponeTaskCounter s = 0 \<and> \<not> taskChangePostponedFlag s \<and> iflag s"

definition task_inv :: "sched \<Rightarrow> nat list \<Rightarrow> nat list \<Rightarrow> nat list \<Rightarrow> nat \<Rightarrow> bool" where
  "task_inv s R S T c \<longleftrightarrow> core s R S T \<and> states_ok s R S T \<and> only_running s (Some c)
     \<and> currentPCB s = Some c \<and> waiting s = None \<and> c < MAX_TASKS \<and> us s c \<noteq> 0 \<and> nx s c = None
     \<and> c \<notin> set (R @ S @ T) \<and> (st s c = RUNNING \<or> st s c = READY)"

definition idle_inv :: "sched \<Rightarrow> nat list \<Rightarrow> nat list \<Rightarrow> nat list \<Rightarrow> nat \<Rightarrow> bool" where
  "idle_inv s R S T w \<longleftrightarrow> core s R S T \<and> states_ok s R S T \<and> only_running s None
     \<and> currentPCB s = None \<and> waiting s = Some w \<and> w < MAX_TASKS \<and> us s w \<noteq> 0 \<and> st s w \<noteq> RUNNING
     \<and> irqDisableCounter s = 1 \<and> postponeTaskCounter s = 0 \<and> \<not> taskChangePostponedFlag s \<and> \<not> iflag s"

definition sched_inv :: "sched \<Rightarrow> bool" where
  "sched_inv s \<longleftrightarrow> (\<exists>R S T. (\<exists>c. task_inv s R S T c \<and> unlocked s) \<or> (\<exists>w. idle_inv s R S T w))"

lemma pcbs_cong:
  assumes "pcbArray s' = pcbArray s"
  shows "states_ok s' R S T = states_ok s R S T" "only_running s' c = only_running s c"
  using assms by (simp_all add: states_ok_def only_running_def)

lemma only_running_mono:
  assumes "only_running s c"
    "\<And>x. x < MAX_TASKS \<Longrightarrow> us s' x \<noteq> 0 \<Longrightarrow> st s' x = RUNNING \<Longrightarrow> us s x \<noteq> 0 \<and> st s x = RUNNING"
  shows "only_running s' c"
  using assms unfolding only_running_def by blast

lemma sched_inv_taskI: "task_inv s R S T c \<Longrightarrow> unlocked s \<Longrightarrow> sched_inv s"
  unfolding sched_inv_def by blast

lemma sched_inv_idleI: "idle_inv s R S T w \<Longrightarrow> sched_inv s"
  unfolding sched_inv_def by blast

subsection \<open>Locks\<close>

lemma LockAndPostpone_eq:
  "LockAndPostpone s = s\<lparr>iflag := False, irqDisableCounter := irqDisableCounter s + 1,
     postponeTaskCounter := postponeTaskCounter s + 1\<rparr>"
  by (simp add: LockAndPostpone_def LockScheduler_def Let_def)

lemma Schedule_postponed: "postponeTaskCounter s \<noteq> 0 \<Longrightarrow> Schedule s = s\<lparr>taskChangePostponedFlag := True\<rparr>"
  by (simp add: Schedule_def)

lemma UnlockScheduler_pcb [simp]:
  "pcbArray (UnlockScheduler s) = pcbArray s" "currentPCB (UnlockScheduler s) = currentPCB s"
  "waiting (UnlockScheduler s) = waiting s" "butler (UnlockScheduler s) = butler s"
  "readyListHead (UnlockScheduler s) = readyListHead s" "readyListTail (UnlockScheduler s) = readyListTail s"
  "sleepingListHead (UnlockScheduler s) = sleepingListHead s" "sleepingListTail (UnlockScheduler s) = sleepingListTail s"
  "terminatedListHead (UnlockScheduler s) = terminatedListHead s"
  "terminatedListTail (UnlockScheduler s) = terminatedListTail s"
  "postponeTaskCounter (UnlockScheduler s) = postponeTaskCounter s"
  "taskChangePostponedFlag (UnlockScheduler s) = taskChangePostponedFlag s"
  "irqDisableCounter (UnlockScheduler s) = irqDisableCounter s - 1"
  "counter (UnlockScheduler s) = counter s" "lastCounter (UnlockScheduler s) = lastCounter s"
  "iflag (UnlockScheduler s) = (irqDisableCounter s = 1 \<or> iflag s)"
  by (auto simp: UnlockScheduler_def Let_def)

lemma UnlockAndSchedule_nested:
  "postponeTaskCounter s \<noteq> 1 \<Longrightarrow>
     UnlockAndSchedule s = UnlockScheduler (s\<lparr>postponeTaskCounter := postponeTaskCounter s - 1\<rparr>)"
  by (simp add: UnlockAndSchedule_def Let_def)

lemma UnlockAndSchedule_plain:
  "\<not> taskChangePostponedFlag s \<Longrightarrow>
     UnlockAndSchedule s = UnlockScheduler (s\<lparr>postponeTaskCounter := postponeTaskCounter s - 1\<rparr>)"
  by (simp add: UnlockAndSchedule_def Let_def)

text \<open>Inside the locks, unblocking a task is appending it to the ready list.\<close>

lemma AddReady_locks:
  "AddReady p (s\<lparr>iflag := a, irqDisableCounter := b, postponeTaskCounter := c\<rparr>) =
     (AddReady p s)\<lparr>iflag := a, irqDisableCounter := b, postponeTaskCounter := c\<rparr>"
  by (cases p; cases "readyListTail s") (simp_all add: AddReady_def upd_def Let_def)

lemma UnblockProcess_nested:
  assumes "postponeTaskCounter s \<noteq> 0" "irqDisableCounter s \<noteq> 0" "\<not> iflag s"
  shows "UnblockProcess p s = AddReady p s"
proof -
  define a where "a = AddReady p s"
  have "postponeTaskCounter a = postponeTaskCounter s" "irqDisableCounter a = irqDisableCounter s" "\<not> iflag a"
    using assms by (simp_all add: a_def)
  then have "UnlockAndSchedule (a\<lparr>iflag := False, irqDisableCounter := irqDisableCounter a + 1,
      postponeTaskCounter := postponeTaskCounter a + 1\<rparr>) = a"
    using assms by (simp add: UnlockAndSchedule_nested UnlockScheduler_def Let_def)
  then show ?thesis
    by (simp add: UnblockProcess_def LockAndPostpone_eq AddReady_locks a_def)
qed

lemma rep_locks [simp]:
  "ready_rep (s\<lparr>postponeTaskCounter := a\<rparr>) = ready_rep s" "sleeping_rep (s\<lparr>postponeTaskCounter := a\<rparr>) = sleeping_rep s"
  "terminated_rep (s\<lparr>postponeTaskCounter := a\<rparr>) = terminated_rep s"
  "ready_rep (s\<lparr>irqDisableCounter := b\<rparr>) = ready_rep s" "sleeping_rep (s\<lparr>irqDisableCounter := b\<rparr>) = sleeping_rep s"
  "terminated_rep (s\<lparr>irqDisableCounter := b\<rparr>) = terminated_rep s"
  "ready_rep (s\<lparr>iflag := d\<rparr>) = ready_rep s" "sleeping_rep (s\<lparr>iflag := d\<rparr>) = sleeping_rep s"
  "terminated_rep (s\<lparr>iflag := d\<rparr>) = terminated_rep s"
  "ready_rep (s\<lparr>taskChangePostponedFlag := e\<rparr>) = ready_rep s"
  "sleeping_rep (s\<lparr>taskChangePostponedFlag := e\<rparr>) = sleeping_rep s"
  "terminated_rep (s\<lparr>taskChangePostponedFlag := e\<rparr>) = terminated_rep s"
  "ready_rep (s\<lparr>counter := k\<rparr>) = ready_rep s" "sleeping_rep (s\<lparr>counter := k\<rparr>) = sleeping_rep s"
  "terminated_rep (s\<lparr>counter := k\<rparr>) = terminated_rep s"
  "ready_rep (s\<lparr>currentPCB := c\<rparr>) = ready_rep s" "sleeping_rep (s\<lparr>currentPCB := c\<rparr>) = sleeping_rep s"
  "terminated_rep (s\<lparr>currentPCB := c\<rparr>) = terminated_rep s"
  "ready_rep (s\<lparr>waiting := w\<rparr>) = ready_rep s" "sleeping_rep (s\<lparr>waiting := w\<rparr>) = sleeping_rep s"
  "terminated_rep (s\<lparr>waiting := w\<rparr>) = terminated_rep s"
  "ready_rep (UnlockScheduler s) = ready_rep s" "sleeping_rep (UnlockScheduler s) = sleeping_rep s"
  "terminated_rep (UnlockScheduler s) = terminated_rep s"
  by (simp_all add: rep_defs)

lemma core_locks [simp]:
  "core (s\<lparr>postponeTaskCounter := a\<rparr>) = core s" "core (s\<lparr>irqDisableCounter := b\<rparr>) = core s"
  "core (s\<lparr>iflag := d\<rparr>) = core s" "core (s\<lparr>taskChangePostponedFlag := e\<rparr>) = core s"
  "core (s\<lparr>counter := k\<rparr>) = core s" "core (s\<lparr>currentPCB := c\<rparr>) = core s"
  "core (s\<lparr>waiting := w\<rparr>) = core s" "core (UnlockScheduler s) = core s"
  by (simp_all add: core_def fun_eq_iff)

text \<open>Changing fields of a task other than its link and \<open>used\<close>.\<close>

lemma core_upd:
  assumes "core s R S T" "nxt (f (pcbArray s i)) = nx s i" "used (f (pcbArray s i)) = us s i"
  shows "core (upd (Some i) f s) R S T"
  by (rule core_cong [OF assms(1)]) (use assms in \<open>auto simp: core_def\<close>)

subsection \<open>Leaving the locks with a task change pending\<close>

text \<open>Switching to a task taken off the ready list, and releasing the lock.\<close>

lemma switch_states:
  assumes so: "states_ok s R S T" and run: "only_running s (Some c)"
    and cur: "postponeTaskCounter s = 0" "currentPCB s = Some c" "n \<noteq> c" and n: "n \<notin> set (R @ S @ T)"
  shows "states_ok (SwitchToTask n s) (if st s c = RUNNING then R @ [c] else R) S T"
    and "only_running (SwitchToTask n s) (Some n)"
proof -
  note SW = SwitchToTask_simps [OF cur]
  have keep: "st (SwitchToTask n s) x = st s x" if "x \<noteq> n" "st s x \<noteq> RUNNING" for x
    using that SW(2) [of x] by auto
  show "states_ok (SwitchToTask n s) (if st s c = RUNNING then R @ [c] else R) S T"
    unfolding states_ok_def
  proof (intro conjI ballI)
    fix x assume "x \<in> set (if st s c = RUNNING then R @ [c] else R)"
    then consider "x = c" "st s c = RUNNING" | "x \<in> set R" by (auto split: if_splits)
    then show "st (SwitchToTask n s) x = READY"
      using so n cur(3) SW(2) [of x] by cases (auto simp: states_ok_def)
  next
    fix x assume "x \<in> set S"
    then have "x \<noteq> n" "st s x = SLEEPING" using n so by (auto simp: states_ok_def)
    then show "st (SwitchToTask n s) x = SLEEPING" by (simp add: keep)
  next
    fix x assume "x \<in> set T"
    then have "x \<noteq> n" "st s x = TERMINATED" using n so by (auto simp: states_ok_def)
    then show "st (SwitchToTask n s) x = TERMINATED" by (simp add: keep)
  qed
  show "only_running (SwitchToTask n s) (Some n)"
    unfolding only_running_def
  proof (intro allI impI)
    fix x assume x: "x < MAX_TASKS" "us (SwitchToTask n s) x \<noteq> 0" "st (SwitchToTask n s) x = RUNNING"
    show "Some x = Some n"
    proof (rule ccontr)
      assume "Some x \<noteq> Some n"
      then have "x \<noteq> c" "st s x = RUNNING" using x(3) SW(2) [of x] by (auto split: if_splits)
      then show False using run x SW(3) [of x] unfolding only_running_def by auto
    qed
  qed
qed

lemma switch_inv:
  assumes c: "core s R S T" and so: "states_ok s R S T" and run: "only_running s (Some c)"
    and cur: "postponeTaskCounter s = 0" "currentPCB s = Some c" "n \<noteq> c"
    and cl: "c < MAX_TASKS" "us s c \<noteq> 0" "charge_ok s c" "st s c = RUNNING \<Longrightarrow> c \<notin> set (R @ S @ T)"
    and nl: "n \<notin> set (R @ S @ T)" "nx s n = None" "n < MAX_TASKS" "us s n \<noteq> 0"
    and lk: "irqDisableCounter s = 1" "\<not> taskChangePostponedFlag s" "waiting s = None"
  shows "task_inv (UnlockScheduler (SwitchToTask n s)) (if st s c = RUNNING then R @ [c] else R) S T n"
    and "unlocked (UnlockScheduler (SwitchToTask n s))"
proof -
  let ?s' = "UnlockScheduler (SwitchToTask n s)"
  note SW = SwitchToTask_simps [OF cur] and C = SwitchToTask_core [OF c cur cl nl(1,2)]
    and ST = switch_states [OF so run cur nl(1)]
  show "task_inv ?s' (if st s c = RUNNING then R @ [c] else R) S T n"
    unfolding task_inv_def
    using C ST SW(1,10) SW(2,3) [of n] nl cur(3) lk pcbs_cong [of ?s' "SwitchToTask n s"]
    by simp
  show "unlocked ?s'" using SW(6,7,8) lk by (simp add: unlocked_def)
qed

lemma dispatch_switch:
  assumes c: "core s (n # R') S T" and so: "states_ok s (n # R') S T" and run: "only_running s (Some c)"
    and lk: "irqDisableCounter s = 1" "postponeTaskCounter s = 1" "taskChangePostponedFlag s"
      "\<not> iflag s" "waiting s = None"
    and cur: "currentPCB s = Some c" "c < MAX_TASKS" "us s c \<noteq> 0" "charge_ok s c" "c \<notin> set (n # R')"
    and cr: "st s c = RUNNING \<Longrightarrow> c \<notin> set (n # R' @ S @ T) \<and> nx s c = None"
  shows "task_inv (UnlockAndSchedule s) (if st s c = RUNNING then R' @ [c] else R') S T n"
    and "unlocked (UnlockAndSchedule s)"
proof -
  define s1 where "s1 = s\<lparr>postponeTaskCounter := 0, taskChangePostponedFlag := False\<rparr>"
  have u: "UnlockAndSchedule s = (if waiting (Schedule s1) \<noteq> None then Schedule s1 else UnlockScheduler (Schedule s1))"
    using lk by (simp add: UnlockAndSchedule_def Let_def s1_def)
  have s1: "core s1 (n # R') S T" "pcbArray s1 = pcbArray s" "currentPCB s1 = Some c" "postponeTaskCounter s1 = 0"
    "\<not> taskChangePostponedFlag s1" "irqDisableCounter s1 = 1" "waiting s1 = None" "\<not> iflag s1"
    using c cur lk by (simp_all add: s1_def)
  define s2 where "s2 = upd (Some n) (\<lambda>p. p\<lparr>quantumLeft := TIMESLICE\<rparr>) (snd (NextReady s1))"
  note N = core_NextReady [OF s1(1)]
  have dn: "n \<notin> set (R' @ S @ T)" "n < MAX_TASKS" "us s n \<noteq> 0" "n \<noteq> c"
    using c cur by (auto simp: core_def)
  have c2: "core s2 R' S T" unfolding s2_def by (rule core_upd [OF N(2)]) auto
  have e2: "st s2 y = st s y" "us s2 y = us s y" for y using s1 by (simp_all add: s2_def)
  have so2: "states_ok s2 R' S T" and run2: "only_running s2 (Some c)"
    using so run by (simp_all add: states_ok_def only_running_def e2)
  have ch: "charge_ok s2 c" using cur(4) e2(2) [of c] by (simp add: charge_ok_def s2_def s1_def)
  have w2: "waiting (SwitchToTask n s2) = None" using s1 dn SwitchToTask_simps(10) [of s2 c n] by (simp add: s2_def)
  have e: "UnlockAndSchedule s = UnlockScheduler (SwitchToTask n s2)"
    using u N(1) s1 w2 by (simp add: Schedule_def case_prod_beta Let_def s2_def)
  have S: "irqDisableCounter s2 = 1" "\<not> taskChangePostponedFlag s2" "waiting s2 = None"
    "postponeTaskCounter s2 = 0" "currentPCB s2 = Some c" "us s2 c \<noteq> 0" "nx s2 n = None" "us s2 n \<noteq> 0"
    "st s2 c = RUNNING \<Longrightarrow> c \<notin> set (R' @ S @ T)"
    using s1 dn cur cr N(3) e2 by (simp_all add: s2_def)
  note SI = switch_inv [OF c2 so2 run2 S(4,5) dn(4) cur(2) S(6) ch S(9) dn(1) S(7) dn(2) S(8) S(1,2,3)]
  show "task_inv (UnlockAndSchedule s) (if st s c = RUNNING then R' @ [c] else R') S T n"
    "unlocked (UnlockAndSchedule s)" unfolding e using SI e2(1) [of c] by simp_all
qed

text \<open>With nothing ready and the current task not running, the processor waits.\<close>

lemma dispatch_idle:
  assumes c: "core s [] S T" and so: "states_ok s [] S T" and run: "only_running s (Some c)"
    and lk: "irqDisableCounter s = 1" "postponeTaskCounter s = 1" "taskChangePostponedFlag s"
      "\<not> iflag s" "waiting s = None"
    and cur: "currentPCB s = Some c" "c < MAX_TASKS" "us s c \<noteq> 0" "st s c \<noteq> RUNNING"
  shows "idle_inv (UnlockAndSchedule s) [] S T c"
proof -
  define s1 where "s1 = s\<lparr>postponeTaskCounter := 0, taskChangePostponedFlag := False\<rparr>"
  define s2 where "s2 = s1\<lparr>currentPCB := None, waiting := Some c\<rparr>"
  have c1: "core s1 [] S T" using c by (simp add: s1_def)
  then have nr: "NextReady s1 = (None, s1)" by (simp add: core_def NextReady_nil)
  have e: "UnlockAndSchedule s = s2"
    using lk nr cur by (simp add: UnlockAndSchedule_def Let_def Schedule_def s2_def flip: s1_def) (simp add: s1_def)
  have "only_running s None" using run cur(4) unfolding only_running_def by (metis option.inject)
  then show ?thesis
    unfolding e idle_inv_def using c1 so cur lk pcbs_cong [of s2 s] by (simp add: s2_def s1_def)
qed

lemma dispatch_inv:
  assumes c: "core s R S T" and so: "states_ok s R S T" and run: "only_running s (Some c)"
    and lk: "irqDisableCounter s = 1" "postponeTaskCounter s = 1" "taskChangePostponedFlag s"
      "\<not> iflag s" "waiting s = None"
    and cur: "currentPCB s = Some c" "c < MAX_TASKS" "us s c \<noteq> 0" "charge_ok s c" "c \<notin> set R"
    and cr: "st s c = RUNNING \<Longrightarrow> c \<notin> set (R @ S @ T) \<and> nx s c = None"
  shows "sched_inv (UnlockAndSchedule s)"
proof -
  define s1 where "s1 = s\<lparr>postponeTaskCounter := 0, taskChangePostponedFlag := False\<rparr>"
  have u: "UnlockAndSchedule s = (if waiting (Schedule s1) \<noteq> None then Schedule s1 else UnlockScheduler (Schedule s1))"
    using lk by (simp add: UnlockAndSchedule_def Let_def s1_def)
  have s1: "core s1 R S T" "pcbArray s1 = pcbArray s" "currentPCB s1 = Some c" "postponeTaskCounter s1 = 0"
    "\<not> taskChangePostponedFlag s1" "irqDisableCounter s1 = 1" "waiting s1 = None" "\<not> iflag s1"
    using c cur lk by (simp_all add: s1_def)
  show ?thesis
  proof (cases R)
    case Nil
    then have nr: "NextReady s1 = (None, s1)" using s1(1) by (simp add: core_def NextReady_nil)
    show ?thesis
    proof (cases "st s c = RUNNING")
      case True
      then have e: "UnlockAndSchedule s = UnlockScheduler s1" using u nr s1 by (simp add: Schedule_def)
      have "task_inv (UnlockScheduler s1) R S T c"
        unfolding task_inv_def
        using s1 so run cur cr True pcbs_cong [of "UnlockScheduler s1" s] by simp
      then show ?thesis using s1 unfolding e by (intro sched_inv_taskI) (simp_all add: unlocked_def)
    next
      case False
      then show ?thesis
        using sched_inv_idleI [OF dispatch_idle [OF c [unfolded Nil] so [unfolded Nil] run lk cur(1-3)]] by blast
    qed
  next
    case (Cons n R')
    show ?thesis
      by (rule sched_inv_taskI [OF dispatch_switch [OF c [unfolded Cons] so [unfolded Cons] run lk cur(1-4)]])
        (use cur(5) cr Cons in auto)
  qed
qed

subsection \<open>Every operation keeps the invariant\<close>

lemma task_inv_Lock [simp]: "task_inv (LockAndPostpone s) R S T c = task_inv s R S T c"
  using pcbs_cong [of "LockAndPostpone s" s] by (simp add: task_inv_def LockAndPostpone_eq)

lemma plain_inv:
  assumes "task_inv s R S T c" "irqDisableCounter s = 1" "postponeTaskCounter s = 1" "\<not> taskChangePostponedFlag s"
  shows "sched_inv (UnlockAndSchedule s)"
proof (rule sched_inv_taskI)
  define s' where "s' = s\<lparr>postponeTaskCounter := postponeTaskCounter s - 1\<rparr>"
  have e: "UnlockAndSchedule s = UnlockScheduler s'" using assms by (simp add: UnlockAndSchedule_plain s'_def)
  show "task_inv (UnlockAndSchedule s) R S T c"
    unfolding e using assms(1) pcbs_cong [of "UnlockScheduler s'" s] by (simp add: task_inv_def s'_def)
  show "unlocked (UnlockAndSchedule s)" unfolding e using assms by (simp add: unlocked_def s'_def)
qed

lemma AddReady_inv:
  assumes c: "core s R S T" and so: "states_ok s R S T"
    and run: "\<And>x. x < MAX_TASKS \<Longrightarrow> us s x \<noteq> 0 \<Longrightarrow> st s x = RUNNING \<Longrightarrow> x = c \<or> x = p"
    and cur: "currentPCB s = Some c" "waiting s = None" "c < MAX_TASKS" "us s c \<noteq> 0" "nx s c = None"
      "c \<notin> set (R @ S @ T)" "st s c = RUNNING \<or> st s c = READY"
    and p: "p \<notin> set (R @ S @ T)" "p \<noteq> c" "p < MAX_TASKS" "us s p \<noteq> 0"
  shows "task_inv (AddReady (Some p) s) (R @ [p]) S T c"
proof -
  have "ready_rep s R" using c by (simp add: core_def)
  then have "nx (AddReady (Some p) s) c = None" using AddReady_other [of s R c p] cur p by simp
  moreover have "only_running (AddReady (Some p) s) (Some c)"
    using run by (auto simp: only_running_def)
  moreover have "states_ok (AddReady (Some p) s) (R @ [p]) S T"
    using so p by (auto simp: states_ok_def)
  ultimately show ?thesis
    using core_AddReady [OF c p(1,3,4)] cur p by (simp add: task_inv_def)
qed

lemma task_invD:
  assumes "task_inv s R S T c"
  shows "core s R S T" "states_ok s R S T" "only_running s (Some c)" "currentPCB s = Some c"
    "waiting s = None" "c < MAX_TASKS" "us s c \<noteq> 0" "nx s c = None" "c \<notin> set (R @ S @ T)"
    "st s c = RUNNING \<or> st s c = READY"
  using assms by (simp_all add: task_inv_def)

text \<open>A paused task, and a free control block, are on no list.\<close>

lemma listed_states:
  "core s R S T \<Longrightarrow> states_ok s R S T \<Longrightarrow> x \<in> set (R @ S @ T) \<Longrightarrow> us s x \<noteq> 0 \<and> st s x \<notin> {PAUSED, RUNNING}"
  by (auto simp: core_def states_ok_def)

lemma UnblockProcess_inv:
  assumes i: "task_inv s R S T c" and u: "unlocked s" and p: "p < MAX_TASKS" "us s p \<noteq> 0" "st s p = PAUSED"
  shows "sched_inv (UnblockProcess (Some p) s)"
proof -
  define L where "L = LockAndPostpone s"
  have iL: "task_inv L R S T c" using i by (simp add: L_def)
  note D = task_invD [OF iL]
  have pL: "pcbArray L = pcbArray s" by (simp add: L_def LockAndPostpone_eq)
  have "p \<notin> set (R @ S @ T)" using listed_states [OF D(1,2)] p pL by auto
  moreover have "p \<noteq> c" using D(10) p pL by auto
  ultimately have "task_inv (AddReady (Some p) L) (R @ [p]) S T c"
    using AddReady_inv [OF D(1,2) _ D(4-10), of p] D(3) p pL by (auto simp: only_running_def)
  then show ?thesis unfolding UnblockProcess_def L_def [symmetric]
    by (rule plain_inv) (use u in \<open>simp_all add: L_def LockAndPostpone_eq unlocked_def\<close>)
qed

lemma PcbAlloc_cases:
  obtains "PcbAlloc s = (None, s)" "\<forall>i < MAX_TASKS. us s i \<noteq> 0"
  | i where "i < MAX_TASKS" "us s i = 0"
      "PcbAlloc s = (Some i, upd (Some i) (\<lambda>p. p\<lparr>used := 1, tos := push_bit 12 (0x181 + of_nat i)\<rparr>) s)"
proof (cases "find (\<lambda>i. us s i = 0) [0..<MAX_TASKS]")
  case None
  then have "\<forall>i < MAX_TASKS. us s i \<noteq> 0" by (auto simp: find_None_iff)
  then show thesis using that(1) None by (simp add: PcbAlloc_def)
next
  case (Some i)
  then have "i \<in> set [0..<MAX_TASKS]" "us s i = 0" by (auto simp: find_Some_iff in_set_conv_nth)
  then show thesis using that(2) [of i] Some by (simp add: PcbAlloc_def)
qed

lemma CreateProcess_inv:
  assumes i: "task_inv s R S T c" and u: "unlocked s"
  shows "sched_inv (snd (CreateProcess startup ent s))"
proof (cases rule: PcbAlloc_cases [of s])
  case 1
  then show ?thesis using i u by (auto simp: CreateProcess_def intro: sched_inv_taskI)
next
  case (2 j)
  define s1 where "s1 = snd (PcbAlloc s)"
  define tk where "tk = pushes [ent, startup, 0, 0, 0, 0] (tos (pcbArray s1 j)) (stk s1)"
  define L where "L = LockAndPostpone (upd (Some j) (\<lambda>p. p\<lparr>tos := fst tk, virtAddr := GetCR3 s1,
     sleepUntil := - 1, quantumLeft := 0\<rparr>) (s1\<lparr>stk := snd tk\<rparr>))"
  note D = task_invD [OF i]
  have s1: "s1 = upd (Some j) (\<lambda>p. p\<lparr>used := 1, tos := push_bit 12 (0x181 + of_nat j)\<rparr>) s"
    using 2 by (simp add: s1_def)
  have j: "j \<notin> set (R @ S @ T)" "j \<noteq> c" using listed_states [OF D(1,2)] 2(2) D(7) by auto
  have L: "us L x = (if x = j then 1 else us s x)" "st L x = st s x" "nx L x = nx s x" for x
    by (simp_all add: L_def s1 LockAndPostpone_eq)
  have cL: "core L R S T"
    by (rule core_cong [OF D(1)]) (use j D(1) L in \<open>auto simp: L_def s1 LockAndPostpone_eq core_def\<close>)
  have cur: "currentPCB L = Some c" "waiting L = None" using D by (simp_all add: L_def s1 LockAndPostpone_eq)
  have so: "states_ok L R S T" using D(2) by (simp add: states_ok_def L)
  have run: "x = c \<or> x = j" if "x < MAX_TASKS" "us L x \<noteq> 0" "st L x = RUNNING" for x
    using that D(3) by (auto simp: L only_running_def split: if_splits)
  have "task_inv (AddReady (Some j) L) (R @ [j]) S T c"
    by (rule AddReady_inv [OF cL so run]) (use D j cur 2 L in auto)
  then have "sched_inv (UnlockAndSchedule (AddReady (Some j) L))"
    by (rule plain_inv) (use u in \<open>simp_all add: L_def s1 LockAndPostpone_eq unlocked_def\<close>)
  moreover have "snd (CreateProcess startup ent s) = UnlockAndSchedule (AddReady (Some j) L)"
    using 2(3) by (simp add: CreateProcess_def L_def tk_def s1 case_prod_beta Let_def)
  ultimately show ?thesis by simp
qed

text \<open>Blocking the current task, which may already stand on the sleeping list.\<close>

lemma BlockProcess_inv:
  assumes c: "core s R S T" and u: "unlocked s" "waiting s = None"
    and so: "states_ok (upd (Some c) (\<lambda>p. p\<lparr>pstate := r\<rparr>) s) R S T" and run: "only_running s (Some c)"
    and cur: "currentPCB s = Some c" "c < MAX_TASKS" "us s c \<noteq> 0" "charge_ok s c" "c \<notin> set R" and r: "r \<noteq> RUNNING"
  shows "sched_inv (BlockProcess r s)"
proof -
  define L where "L = (upd (Some c) (\<lambda>p. p\<lparr>pstate := r\<rparr>) (LockAndPostpone s))\<lparr>taskChangePostponedFlag := True\<rparr>"
  have e: "BlockProcess r s = UnlockAndSchedule L"
    using u cur by (simp add: BlockProcess_def Let_def L_def Schedule_postponed LockAndPostpone_eq unlocked_def)
  have "core (upd (Some c) (\<lambda>p. p\<lparr>pstate := r\<rparr>) (LockAndPostpone s)) R S T"
    by (rule core_upd) (use c in \<open>simp_all add: LockAndPostpone_eq\<close>)
  then have cL: "core L R S T" by (simp add: L_def)
  have p: "pcbArray L = pcbArray (upd (Some c) (\<lambda>p. p\<lparr>pstate := r\<rparr>) s)"
    by (simp add: L_def LockAndPostpone_eq)
  have soL: "states_ok L R S T" using so pcbs_cong(1) [OF p] by simp
  have runL: "only_running L (Some c)"
    by (rule only_running_mono [OF run]) (use r in \<open>simp_all add: p split: if_splits\<close>)
  have chL: "charge_ok L c" using cur(4) by (simp add: charge_ok_def p) (simp add: L_def LockAndPostpone_eq)
  show ?thesis unfolding e
    by (rule dispatch_inv [OF cL soL runL])
      (use u cur r chL p in \<open>simp_all add: L_def LockAndPostpone_eq unlocked_def\<close>)
qed

lemma BlockProcess_nested:
  assumes "postponeTaskCounter s \<noteq> 0" "postponeTaskCounter s \<noteq> - 1" "irqDisableCounter s \<noteq> 0" "\<not> iflag s" "currentPCB s = Some c"
  shows "BlockProcess r s = (upd (Some c) (\<lambda>p. p\<lparr>pstate := r\<rparr>) s)\<lparr>taskChangePostponedFlag := True\<rparr>"
proof -
  have "postponeTaskCounter s + 1 \<noteq> 0" using assms(2) by (simp add: add_eq_0_iff2)
  then show ?thesis using assms
    by (simp add: BlockProcess_def Let_def LockAndPostpone_eq Schedule_postponed UnlockAndSchedule_nested
      UnlockScheduler_def upd_def)
qed

lemma BlockProcess_PAUSED_inv:
  assumes i: "task_inv s R S T c" and u: "unlocked s" and ch: "charge_ok s c"
  shows "sched_inv (BlockProcess PAUSED s)"
proof -
  note D = task_invD [OF i]
  have "states_ok (upd (Some c) (\<lambda>p. p\<lparr>pstate := PAUSED\<rparr>) s) R S T"
    using D(2,9) by (auto simp: states_ok_def)
  then show ?thesis using BlockProcess_inv [OF D(1) u D(5) _ D(3,4,6,7) ch] D(9) by auto
qed

lemma sleep_enqueue_facts:
  assumes i: "task_inv s R S T c" and u: "unlocked s"
    and e: "sleep_enqueue w s = (True, s')"
  shows "core s' R (S @ [c]) T" "unlocked s'" "waiting s' = None" "currentPCB s' = Some c"
    "us s' x = us s x" "st s' x = (if x = c then SLEEPING else st s x)"
    "counter s' = counter s" "lastCounter s' = lastCounter s"
proof -
  define L where "L = upd (Some c) (\<lambda>p. p\<lparr>sleepUntil := w\<rparr>) (LockAndPostpone s)"
  note D = task_invD [OF i]
  have "core L R S T" unfolding L_def by (rule core_upd) (use D(1) in \<open>simp_all add: LockAndPostpone_eq\<close>)
  then have c: "core (AddSleeping (Some c) L) R (S @ [c]) T"
    by (rule core_AddSleeping) (use D in \<open>simp_all add: L_def LockAndPostpone_eq\<close>)
  have s': "s' = UnlockAndSchedule (AddSleeping (Some c) L)"
    using e D(4) by (simp add: sleep_enqueue_def Let_def L_def LockAndPostpone_eq split: if_splits)
  have nf: "\<not> taskChangePostponedFlag (AddSleeping (Some c) L)"
    using u by (simp add: L_def LockAndPostpone_eq unlocked_def)
  note E = s' [unfolded UnlockAndSchedule_plain [OF nf]]
  show "core s' R (S @ [c]) T" using c by (simp add: E)
  show "unlocked s'" using u by (simp add: E L_def unlocked_def LockAndPostpone_eq)
  show "waiting s' = None" "currentPCB s' = Some c" "us s' x = us s x"
    "st s' x = (if x = c then SLEEPING else st s x)" "counter s' = counter s" "lastCounter s' = lastCounter s"
    using D by (simp_all add: E L_def LockAndPostpone_eq)
qed

lemma SleepUntil_inv:
  assumes i: "task_inv s R S T c" and u: "unlocked s" and ch: "charge_ok s c"
  shows "sched_inv (SleepUntil w s)"
proof (cases "sleep_enqueue w s")
  case (Pair blk s')
  note D = task_invD [OF i]
  show ?thesis
  proof (cases blk)
    case True
    then have e: "sleep_enqueue w s = (True, s')" using Pair by simp
    note F = sleep_enqueue_facts [OF i u e]
    have so: "states_ok (upd (Some c) (\<lambda>p. p\<lparr>pstate := SLEEPING\<rparr>) s') R (S @ [c]) T"
      using D(2,9) F(6) by (auto simp: states_ok_def)
    have run: "only_running s' (Some c)"
      by (rule only_running_mono [OF D(3)]) (use F(5,6) in \<open>simp_all split: if_splits\<close>)
    have "us s' c \<noteq> 0" "charge_ok s' c" "c \<notin> set R"
      using D(7,9) ch F(5) [of c] F(7,8) by (simp_all add: charge_ok_def)
    then have "sched_inv (BlockProcess SLEEPING s')"
      using BlockProcess_inv [OF F(1,2,3) so run F(4) D(6)] by simp
    then show ?thesis using Pair True by (simp add: SleepUntil_def)
  next
    case False
    then have "s' = UnlockAndSchedule (LockAndPostpone s)"
      using Pair by (auto simp: sleep_enqueue_def Let_def split: if_splits)
    moreover have "task_inv (LockAndPostpone s) R S T c" using i by simp
    then have "sched_inv (UnlockAndSchedule (LockAndPostpone s))"
      by (rule plain_inv) (use u in \<open>simp_all add: LockAndPostpone_eq unlocked_def\<close>)
    ultimately show ?thesis using Pair False by (simp add: SleepUntil_def)
  qed
qed

lemma TerminateProcess_inv:
  assumes i: "task_inv s R S T c" and u: "unlocked s" and ch: "charge_ok s c"
    and b: "butler s = Some b" "b < MAX_TASKS" "us s b \<noteq> 0" "st s b = PAUSED"
  shows "sched_inv (TerminateProcess s)"
proof -
  define s1 where "s1 = AddTerminated (Some c) (LockAndPostpone s)"
  define s2 where "s2 = (upd (Some c) (\<lambda>p. p\<lparr>pstate := TERMINATED\<rparr>) s1)\<lparr>taskChangePostponedFlag := True\<rparr>"
  note D = task_invD [OF i]
  have "core (LockAndPostpone s) R S T" using D(1) by (simp add: LockAndPostpone_eq)
  then have c1: "core s1 R S (T @ [c])" unfolding s1_def
    by (rule core_AddTerminated) (use D in \<open>simp_all add: LockAndPostpone_eq\<close>)
  have "core (upd (Some c) (\<lambda>p. p\<lparr>pstate := TERMINATED\<rparr>) s1) R S (T @ [c])"
    by (rule core_upd [OF c1]) simp_all
  then have c2: "core s2 R S (T @ [c])" by (simp add: s2_def)
  have f: "postponeTaskCounter s1 = 1" "irqDisableCounter s1 = 1" "\<not> iflag s1" "currentPCB s1 = Some c"
    "butler s1 = Some b" "waiting s1 = None" "counter s1 = counter s" "lastCounter s1 = lastCounter s"
    using u D b by (simp_all add: s1_def LockAndPostpone_eq unlocked_def)
  have p2: "us s2 x = us s x" "st s2 x = (if x = c then TERMINATED else st s x)" for x
    by (simp_all add: s2_def s1_def LockAndPostpone_eq)
  have e: "TerminateProcess s = UnlockAndSchedule (AddReady (Some b) s2)"
    using f BlockProcess_nested [of s1 c TERMINATED] UnblockProcess_nested [of s2 "Some b"] D(4)
    by (simp add: TerminateProcess_def Let_def s2_def s1_def LockAndPostpone_eq)
  have nb: "b \<noteq> c" "b \<notin> set (R @ S @ T)" using D(10) b listed_states [OF D(1,2)] by auto
  have c3: "core (AddReady (Some b) s2) (R @ [b]) S (T @ [c])"
    by (rule core_AddReady [OF c2]) (use nb b p2 in simp_all)
  have so: "states_ok (AddReady (Some b) s2) (R @ [b]) S (T @ [c])"
    using D(2,9) nb by (auto simp: states_ok_def p2)
  have run: "only_running (AddReady (Some b) s2) (Some c)"
    by (rule only_running_mono [OF D(3)]) (simp_all add: p2 split: if_splits)
  have lk: "postponeTaskCounter s2 = 1" "irqDisableCounter s2 = 1" "\<not> iflag s2" "currentPCB s2 = Some c"
    "taskChangePostponedFlag s2" "waiting s2 = None" "counter s2 = counter s" "lastCounter s2 = lastCounter s"
    using f by (simp_all add: s2_def)
  show ?thesis unfolding e
    by (rule dispatch_inv [OF c3 so run]) (use lk D(6,7,9) nb ch p2 in \<open>simp_all add: charge_ok_def\<close>)
qed

lemma PerformButler_inv:
  assumes i: "task_inv s R S T c" and u: "unlocked s" and ch: "charge_ok s c"
  shows "sched_inv (PerformButler s)"
proof (cases T)
  case Nil
  define L where "L = LockAndPostpone s"
  define s2 where "s2 = (upd (Some c) (\<lambda>p. p\<lparr>pstate := PAUSED\<rparr>) L)\<lparr>taskChangePostponedFlag := True\<rparr>"
  have iL: "task_inv L R S T c" using i by (simp add: L_def)
  note D = task_invD [OF iL]
  have f: "postponeTaskCounter L = 1" "irqDisableCounter L = 1" "\<not> iflag L"
    using u by (simp_all add: L_def LockAndPostpone_eq unlocked_def)
  have "terminatedListHead L = None" using D(1) Nil by (simp add: core_def terminated_rep_def qrep_nil_iff)
  then have e: "PerformButler s = UnlockAndSchedule s2"
    using BlockProcess_nested [of L c PAUSED] f D(4) by (simp add: PerformButler_def Let_def L_def s2_def)
  have c2: "core s2 R S T" unfolding s2_def using core_upd [OF D(1), of "\<lambda>p. p\<lparr>pstate := PAUSED\<rparr>" c] by simp
  have p2: "us s2 x = us L x" "st s2 x = (if x = c then PAUSED else st L x)" for x by (simp_all add: s2_def)
  have so: "states_ok s2 R S T" using D(2,9) by (auto simp: states_ok_def p2)
  have run: "only_running s2 (Some c)"
    by (rule only_running_mono [OF D(3)]) (simp_all add: p2 split: if_splits)
  have "charge_ok s2 c" using ch by (simp add: charge_ok_def s2_def L_def LockAndPostpone_eq)
  then show ?thesis unfolding e
    by (intro dispatch_inv [OF c2 so run]) (use f D(4-9) p2 in \<open>simp_all add: s2_def\<close>)
next
  case (Cons w T')
  define s1 where "s1 = snd (NextTerminated (LockAndPostpone s))"
  have iL: "task_inv (LockAndPostpone s) R S T c" using i by simp
  note D = task_invD [OF iL]
  note N = core_NextTerminated [OF D(1) [unfolded Cons], folded s1_def]
  have w: "w \<notin> set (R @ S @ T')" "w < MAX_TASKS" "w \<noteq> c" using D(1,9) Cons by (auto simp: core_def)
  have p1: "pcbArray s1 = pcbArray s" by (simp add: s1_def LockAndPostpone_eq)
  have h: "terminatedListHead (LockAndPostpone s) \<noteq> None"
    using D(1) Cons by (auto simp: core_def terminated_rep_def qrep_def)
  have nt: "NextTerminated (LockAndPostpone s) = (Some w, s1)" using N(1) by (simp add: s1_def prod_eq_iff)
  have e: "PerformButler s = UnlockAndSchedule (PcbFree w s1)"
    using h nt by (auto simp: PerformButler_def Let_def)
  have c2: "core (PcbFree w s1) R S T'"
    by (rule core_cong [OF N(2)]) (use w N(2) in \<open>auto simp: PcbFree_def core_def\<close>)
  have q: "st (PcbFree w s1) x = st s x" "us (PcbFree w s1) x = (if x = w then 0 else us s x)"
    "nx (PcbFree w s1) x = nx s x" for x using w p1 by (simp_all add: PcbFree_def)
  have L: "pcbArray (LockAndPostpone s) = pcbArray s" by (simp add: LockAndPostpone_eq)
  have "only_running (PcbFree w s1) (Some c)"
    by (rule only_running_mono [OF D(3)]) (simp_all add: q L split: if_splits)
  moreover have "states_ok (PcbFree w s1) R S T'" using D(2) by (simp add: states_ok_def q L Cons)
  moreover have "currentPCB (PcbFree w s1) = Some c" "waiting (PcbFree w s1) = None"
    using D(4,5) by (simp_all add: PcbFree_def s1_def)
  ultimately have "task_inv (PcbFree w s1) R S T' c"
    unfolding task_inv_def using c2 D(6-10) w(3) by (simp add: Cons q L)
  then show ?thesis unfolding e
    by (rule plain_inv) (use u w in \<open>simp_all add: PcbFree_def s1_def LockAndPostpone_eq unlocked_def\<close>)
qed

subsection \<open>The timer interrupt\<close>

definition due :: "sched \<Rightarrow> nat \<Rightarrow> bool" where
  "due s x \<longleftrightarrow> sleepUntil (pcbArray s x) \<le> counter s"

definition same_regs :: "sched \<Rightarrow> sched \<Rightarrow> bool" where
  "same_regs s s' \<longleftrightarrow> irqDisableCounter s' = irqDisableCounter s \<and> postponeTaskCounter s' = postponeTaskCounter s
     \<and> taskChangePostponedFlag s' = taskChangePostponedFlag s \<and> currentPCB s' = currentPCB s
     \<and> waiting s' = waiting s \<and> counter s' = counter s \<and> lastCounter s' = lastCounter s
     \<and> butler s' = butler s \<and> iflag s' = iflag s"

lemma wake_loop_ok:
  assumes "core s R S T" "chain (nx s) p W" "distinct (R @ S @ T @ W)"
    "\<forall>x \<in> set W. x < MAX_TASKS \<and> us s x \<noteq> 0"
    "postponeTaskCounter s \<noteq> 0" "irqDisableCounter s \<noteq> 0" "\<not> iflag s"
  shows "\<exists>s'. wake_loop p s = Some s' \<and> same_regs s s'
    \<and> core s' (R @ filter (due s) W) (S @ filter (\<lambda>x. \<not> due s x) W) T
    \<and> (\<forall>x. us s' x = us s x \<and> quantumLeft (pcbArray s' x) = quantumLeft (pcbArray s x)
         \<and> st s' x = (if x \<in> set W then if due s x then READY else SLEEPING else st s x))
    \<and> (\<forall>x. x \<notin> set (R @ S @ T @ W) \<longrightarrow> nx s' x = nx s x)"
  using assms
proof (induction W arbitrary: s p R S)
  case Nil
  then show ?case by (subst wake_loop.simps) (simp add: same_regs_def)
next
  case (Cons w W)
  define s1 where "s1 = upd (Some w) (\<lambda>p. p\<lparr>nxt := None\<rparr>) s"
  define s2 where "s2 = (if due s w then AddReady (Some w) s1 else AddSleeping (Some w) s1)"
  define R2 where "R2 = (if due s w then R @ [w] else R)"
  define S2 where "S2 = (if due s w then S else S @ [w])"
  have p: "p = Some w" and ch: "chain (nx s) (nx s w) W" using Cons.prems(2) by auto
  have w: "w \<notin> set (R @ S @ T)" "w \<notin> set W" "w < MAX_TASKS" "us s w \<noteq> 0" using Cons.prems(3,4) by auto
  have c1: "core s1 R S T"
    by (rule core_cong [OF Cons.prems(1)]) (use w Cons.prems(1) in \<open>auto simp: s1_def core_def\<close>)
  have w1: "us s1 w \<noteq> 0" "nx s1 w = None" using w by (simp_all add: s1_def)
  have c2: "core s2 R2 S2 T"
    using core_AddReady [OF c1 w(1,3) w1(1)] core_AddSleeping [OF c1 w(1,3) w1]
    by (simp add: s2_def R2_def S2_def)
  have reps: "ready_rep s1 R" "sleeping_rep s1 S" using c1 by (simp_all add: core_def)
  have n2: "nx s2 y = nx s y" if "y \<notin> set (R @ S)" "y \<noteq> w" for y
    using that AddReady_other [OF reps(1), of y w] AddSleeping_other [OF reps(2), of y w]
    by (simp add: s2_def s1_def)
  have ch2: "chain (nx s2) (nx s w) W"
    using ch chain_cong [of W "nx s2" "nx s"] n2 Cons.prems(3) w by fastforce
  have f: "same_regs s s2" by (simp add: s2_def s1_def same_regs_def)
  have q: "us s2 x = us s x" "quantumLeft (pcbArray s2 x) = quantumLeft (pcbArray s x)"
    "st s2 x = (if x = w then if due s w then READY else SLEEPING else st s x)" "due s2 x = due s x" for x
    by (simp_all add: s2_def s1_def due_def)
  have du2: "due s2 = due s" by (simp add: fun_eq_iff q)
  have step: "wake_loop p s = wake_loop (nx s w) s2"
    using Cons.prems(5,6,7) UnblockProcess_nested [of s1 "Some w"]
    by (subst wake_loop.simps) (simp add: p Let_def s2_def s1_def due_def)
  have d2: "distinct (R2 @ S2 @ T @ W)" using Cons.prems(3) by (auto simp: R2_def S2_def)
  have l2: "\<forall>x \<in> set W. x < MAX_TASKS \<and> us s2 x \<noteq> 0" using Cons.prems(4) q by simp
  have "postponeTaskCounter s2 \<noteq> 0" "irqDisableCounter s2 \<noteq> 0" "\<not> iflag s2"
    using f Cons.prems(5-7) by (simp_all add: same_regs_def)
  then obtain s' where IH: "wake_loop (nx s w) s2 = Some s'" "same_regs s2 s'"
    "core s' (R2 @ filter (due s2) W) (S2 @ filter (\<lambda>x. \<not> due s2 x) W) T"
    "\<forall>x. us s' x = us s2 x \<and> quantumLeft (pcbArray s' x) = quantumLeft (pcbArray s2 x)
         \<and> st s' x = (if x \<in> set W then if due s2 x then READY else SLEEPING else st s2 x)"
    "\<forall>x. x \<notin> set (R2 @ S2 @ T @ W) \<longrightarrow> nx s' x = nx s2 x"
    using Cons.IH [OF c2 ch2 d2 l2] by blast
  have "core s' (R @ filter (due s) (w # W)) (S @ filter (\<lambda>x. \<not> due s x) (w # W)) T"
    using IH(3) du2 by (cases "due s w") (simp_all add: R2_def S2_def)
  moreover have "\<forall>x. x \<notin> set (R @ S @ T @ w # W) \<longrightarrow> nx s' x = nx s x"
    using IH(5) n2 by (simp add: R2_def S2_def)
  moreover have "same_regs s s'" using f IH(2) by (simp add: same_regs_def)
  moreover have "\<forall>x. us s' x = us s x \<and> quantumLeft (pcbArray s' x) = quantumLeft (pcbArray s x)
         \<and> st s' x = (if x \<in> set (w # W) then if due s x then READY else SLEEPING else st s x)"
    using IH(4) w(2) by (auto simp: q)
  moreover have "wake_loop p s = Some s'" using step IH(1) by simp
  ultimately show ?case by blast
qed
text \<open>The effect of the wake-up walk on a state with well-formed lists.\<close>

lemma timer_wake:
  assumes c: "core s R S T" and so: "states_ok s R S T"
    and lk: "postponeTaskCounter s \<noteq> 0" "irqDisableCounter s \<noteq> 0" "\<not> iflag s"
  shows "\<exists>s'. wake_loop (sleepingListHead s) (s\<lparr>sleepingListHead := None, sleepingListTail := None\<rparr>) = Some s'
    \<and> same_regs s s' \<and> core s' (R @ filter (due s) S) (filter (\<lambda>x. \<not> due s x) S) T
    \<and> states_ok s' (R @ filter (due s) S) (filter (\<lambda>x. \<not> due s x) S) T
    \<and> (\<forall>x. us s' x = us s x \<and> quantumLeft (pcbArray s' x) = quantumLeft (pcbArray s x))
    \<and> (\<forall>x. x \<notin> set S \<longrightarrow> st s' x = st s x) \<and> (\<forall>x. st s' x = RUNNING \<longrightarrow> st s x = RUNNING)
    \<and> (\<forall>x. x \<notin> set (R @ S @ T) \<longrightarrow> nx s' x = nx s x)"
proof -
  define s0 where "s0 = s\<lparr>sleepingListHead := None, sleepingListTail := None\<rparr>"
  have c0: "core s0 R [] T" using c by (auto simp: core_def rep_defs s0_def)
  have ch: "chain (nx s0) (sleepingListHead s) S" using c by (simp add: core_def sleeping_rep_def qrep_def s0_def)
  have d: "distinct (R @ [] @ T @ S)" and l: "\<forall>x \<in> set S. x < MAX_TASKS \<and> us s0 x \<noteq> 0"
    using c by (auto simp: core_def s0_def)
  have lk0: "postponeTaskCounter s0 \<noteq> 0" "irqDisableCounter s0 \<noteq> 0" "\<not> iflag s0" using lk by (simp_all add: s0_def)
  have du: "due s0 = due s" by (simp add: due_def s0_def fun_eq_iff)
  obtain s' where W: "wake_loop (sleepingListHead s) s0 = Some s'" "same_regs s0 s'"
    "core s' (R @ filter (due s) S) (filter (\<lambda>x. \<not> due s x) S) T"
    "\<forall>x. us s' x = us s0 x \<and> quantumLeft (pcbArray s' x) = quantumLeft (pcbArray s0 x)
         \<and> st s' x = (if x \<in> set S then if due s x then READY else SLEEPING else st s0 x)"
    "\<forall>x. x \<notin> set (R @ [] @ T @ S) \<longrightarrow> nx s' x = nx s0 x"
    using wake_loop_ok [OF c0 ch d l lk0] unfolding du by auto
  have p0: "pcbArray s0 = pcbArray s" by (simp add: s0_def)
  have "states_ok s' (R @ filter (due s) S) (filter (\<lambda>x. \<not> due s x) S) T"
    using so W(4) c p0 by (auto simp: states_ok_def core_def)
  moreover have "same_regs s s'" using W(2) by (simp add: same_regs_def s0_def)
  moreover have "\<forall>x. us s' x = us s x \<and> quantumLeft (pcbArray s' x) = quantumLeft (pcbArray s x)"
    "\<forall>x. x \<notin> set S \<longrightarrow> st s' x = st s x" "\<forall>x. st s' x = RUNNING \<longrightarrow> st s x = RUNNING"
    "\<forall>x. x \<notin> set (R @ S @ T) \<longrightarrow> nx s' x = nx s x"
    using W(4,5) p0 by (simp_all split: if_splits)
  ultimately show ?thesis using W(1,3) unfolding s0_def by blast
qed

text \<open>The state in which the sleeping list is walked: locks taken, both counter increments done.\<close>

definition tick_entry :: "sched \<Rightarrow> sched" where
  "tick_entry s = s\<lparr>iflag := False, irqDisableCounter := irqDisableCounter s + 1,
     postponeTaskCounter := postponeTaskCounter s + 1, counter := counter s + 2\<rparr>"

definition tick_quantum :: "sched \<Rightarrow> sched" where
  "tick_quantum s =
     (case currentPCB s of
        None \<Rightarrow> s
      | Some c \<Rightarrow>
          let s = upd (Some c) (\<lambda>p. p\<lparr>quantumLeft := quantumLeft p - 1\<rparr>) s
          in if sint (quantumLeft (pcbArray s c)) \<le> 0 then Schedule s else s)"

lemma timer_irq_eq:
  "timer_irq s = do {
     s \<leftarrow> wake_loop (sleepingListHead (tick_entry s))
            ((tick_entry s)\<lparr>sleepingListHead := None, sleepingListTail := None\<rparr>);
     Some (UnlockAndSchedule (tick_quantum s))
   }"
  by (simp add: timer_irq_def IrqTimerHandler_def LockAndPostpone_eq tick_entry_def tick_quantum_def Let_def
    add.commute [of 2])

lemma pcbs_entry: "pcbArray (tick_entry s) = pcbArray s"
  by (simp add: tick_entry_def)

lemma core_entry: "core (tick_entry s) = core s"
  by (simp add: tick_entry_def)

text \<open>Taken by a task, the interrupt wakes the sleepers whose time has come and uses up a time slice.\<close>

lemma timer_irq_facts:
  assumes i: "task_inv s R S T c" and u: "unlocked s"
  shows "\<exists>s2. timer_irq s = Some (UnlockAndSchedule
        (s2\<lparr>taskChangePostponedFlag := (sint (quantumLeft (pcbArray s c) - 1) \<le> 0)\<rparr>))
    \<and> task_inv s2 (R @ filter (due (tick_entry s)) S) (filter (\<lambda>x. \<not> due (tick_entry s) x) S) T c
    \<and> same_regs (tick_entry s) s2 \<and> st s2 c = st s c \<and> us s2 c = us s c"
proof -
  note D = task_invD [OF i]
  define t where "t = tick_entry s"
  have ct: "core t R S T" and st: "states_ok t R S T"
    using D(1,2) pcbs_cong(1) [of t s] by (simp_all add: t_def core_entry pcbs_entry)
  have lk: "postponeTaskCounter t = 1" "irqDisableCounter t = 1" "\<not> iflag t" "\<not> taskChangePostponedFlag t"
    "currentPCB t = Some c" "waiting t = None" "counter t = counter s + 2" "lastCounter t = lastCounter s"
    using u D by (simp_all add: t_def tick_entry_def unlocked_def)
  define R1 where "R1 = R @ filter (due t) S"
  define S1 where "S1 = filter (\<lambda>x. \<not> due t x) S"
  obtain s1 where W: "wake_loop (sleepingListHead t) (t\<lparr>sleepingListHead := None, sleepingListTail := None\<rparr>) = Some s1"
    "same_regs t s1" "core s1 R1 S1 T" "states_ok s1 R1 S1 T" "\<forall>x. us s1 x = us t x \<and> quantumLeft (pcbArray s1 x) = quantumLeft (pcbArray t x)"
    "\<forall>x. x \<notin> set S \<longrightarrow> st s1 x = st t x" "\<forall>x. st s1 x = RUNNING \<longrightarrow> st t x = RUNNING"
    "\<forall>x. x \<notin> set (R @ S @ T) \<longrightarrow> nx s1 x = nx t x"
    using timer_wake [OF ct st, folded R1_def S1_def] lk by auto
  define s2 where "s2 = upd (Some c) (\<lambda>p. p\<lparr>quantumLeft := quantumLeft p - 1\<rparr>) s1"
  have pt: "pcbArray t = pcbArray s" by (simp add: t_def pcbs_entry)
  have r2: "same_regs t s2" using W(2) by (simp add: same_regs_def s2_def)
  have c2: "core s2 R1 S1 T" unfolding s2_def by (rule core_upd [OF W(3)]) simp_all
  have p2: "st s2 x = st s1 x" "us s2 x = us s x" "nx s2 x = nx s1 x" for x using W(5) pt by (simp_all add: s2_def)
  have so2: "states_ok s2 R1 S1 T" using W(4) by (simp add: states_ok_def p2)
  have run2: "only_running s2 (Some c)"
    by (rule only_running_mono [OF D(3)]) (use W(7) pt p2 in simp_all)
  have cl: "c \<notin> set (R1 @ S1 @ T)" "nx s2 c = None" "st s2 c = st s c" "us s2 c \<noteq> 0"
    using D(7,8,9) W(6,8) pt p2 by (auto simp: R1_def S1_def)
  have i2: "task_inv s2 R1 S1 T c"
    unfolding task_inv_def using c2 so2 run2 cl D(6,10) r2 lk by (simp add: same_regs_def)
  have "\<not> taskChangePostponedFlag s2" "quantumLeft (pcbArray s1 c) = quantumLeft (pcbArray s c)"
    using r2 lk W(5) pt by (simp_all add: same_regs_def)
  then have "tick_quantum s1 = s2\<lparr>taskChangePostponedFlag := (sint (quantumLeft (pcbArray s c) - 1) \<le> 0)\<rparr>"
    using W(2) lk by (simp add: tick_quantum_def same_regs_def s2_def Let_def Schedule_postponed)
  then have "timer_irq s = Some (UnlockAndSchedule
        (s2\<lparr>taskChangePostponedFlag := (sint (quantumLeft (pcbArray s c) - 1) \<le> 0)\<rparr>))"
    using W(1) by (simp add: timer_irq_eq t_def)
  then show ?thesis using i2 r2 cl(3) p2(2) [of c] unfolding R1_def S1_def t_def by blast
qed

lemma timer_irq_task:
  assumes i: "task_inv s R S T c" and u: "unlocked s" and ch: "charge_ok (s\<lparr>counter := counter s + 2\<rparr>) c"
  shows "\<exists>s'. timer_irq s = Some s' \<and> sched_inv s'"
proof -
  define q where "q = (sint (quantumLeft (pcbArray s c) - 1) \<le> 0)"
  obtain s2 R1 S1 where F: "timer_irq s = Some (UnlockAndSchedule (s2\<lparr>taskChangePostponedFlag := q\<rparr>))"
    "task_inv s2 R1 S1 T c" "same_regs (tick_entry s) s2" "us s2 c = us s c"
    using timer_irq_facts [OF i u] unfolding q_def by blast
  define s3 where "s3 = s2\<lparr>taskChangePostponedFlag := q\<rparr>"
  have i3: "task_inv s3 R1 S1 T c"
    using F(2) pcbs_cong [of s3 s2] by (simp add: task_inv_def s3_def)
  note D = task_invD [OF i3]
  have lk: "irqDisableCounter s3 = 1" "postponeTaskCounter s3 = 1" "\<not> iflag s3" "taskChangePostponedFlag s3 = q"
    using F(3) u by (simp_all add: s3_def same_regs_def tick_entry_def unlocked_def)
  have "charge_ok s3 c" using ch F(3,4) by (simp add: s3_def charge_ok_def same_regs_def tick_entry_def)
  then have "sched_inv (UnlockAndSchedule s3)"
    using plain_inv [OF i3] dispatch_inv [OF D(1-3) lk(1,2) _ lk(3) D(5,4,6,7)] lk D(8,9) by (cases q) auto
  then show ?thesis using F(1) by (simp add: s3_def)
qed

lemma timer_irq_idle:
  assumes i: "idle_inv s R S T w"
  shows "\<exists>s'. timer_irq (s\<lparr>iflag := True\<rparr>) = Some s'
    \<and> idle_inv s' (R @ filter (due (tick_entry s)) S) (filter (\<lambda>x. \<not> due (tick_entry s) x) S) T w
    \<and> us s' w = us s w \<and> counter s' = counter s + 2 \<and> lastCounter s' = lastCounter s"
proof -
  have I: "core s R S T" "states_ok s R S T" "only_running s None" "currentPCB s = None" "waiting s = Some w"
    "w < MAX_TASKS" "us s w \<noteq> 0" "st s w \<noteq> RUNNING" "irqDisableCounter s = 1" "postponeTaskCounter s = 0"
    "\<not> taskChangePostponedFlag s" "\<not> iflag s" using i by (simp_all add: idle_inv_def)
  define t where "t = tick_entry s"
  have te: "tick_entry (s\<lparr>iflag := True\<rparr>) = t" by (simp add: t_def tick_entry_def)
  have pt: "pcbArray t = pcbArray s" by (simp add: t_def pcbs_entry)
  have ct: "core t R S T" and sot: "states_ok t R S T"
    using I(1,2) pcbs_cong(1) [OF pt] by (simp_all add: t_def core_entry)
  have lk: "postponeTaskCounter t = 1" "irqDisableCounter t = 2" "\<not> iflag t" "\<not> taskChangePostponedFlag t"
    "currentPCB t = None" "waiting t = Some w" "counter t = counter s + 2" "lastCounter t = lastCounter s"
    using I by (simp_all add: t_def tick_entry_def)
  define R1 where "R1 = R @ filter (due t) S"
  define S1 where "S1 = filter (\<lambda>x. \<not> due t x) S"
  obtain s1 where W: "wake_loop (sleepingListHead t) (t\<lparr>sleepingListHead := None, sleepingListTail := None\<rparr>) = Some s1"
    "same_regs t s1" "core s1 R1 S1 T" "states_ok s1 R1 S1 T" "\<forall>x. us s1 x = us t x \<and> quantumLeft (pcbArray s1 x) = quantumLeft (pcbArray t x)"
    "\<forall>x. st s1 x = RUNNING \<longrightarrow> st t x = RUNNING"
    using timer_wake [OF ct sot, folded R1_def S1_def] lk by auto
  define s' where "s' = UnlockScheduler (s1\<lparr>postponeTaskCounter := postponeTaskCounter s1 - 1\<rparr>)"
  have p: "pcbArray s' = pcbArray s1" by (simp add: s'_def)
  have "tick_quantum s1 = s1" using W(2) lk by (simp add: tick_quantum_def same_regs_def)
  then have e: "timer_irq (s\<lparr>iflag := True\<rparr>) = Some s'"
    using W(1,2) lk by (simp add: timer_irq_eq UnlockAndSchedule_plain same_regs_def s'_def te)
  have "only_running s' None"
    by (rule only_running_mono [OF I(3)]) (use W(5,6) pt p in simp_all)
  moreover have "states_ok s' R1 S1 T" using W(4) pcbs_cong(1) [OF p] by simp
  ultimately have "idle_inv s' R1 S1 T w"
    using W lk I(6-8) pt by (auto simp: idle_inv_def s'_def same_regs_def)
  moreover have "us s' w = us s w" "counter s' = counter s + 2" "lastCounter s' = lastCounter s"
    using W(2,5) lk pt by (simp_all add: s'_def same_regs_def)
  ultimately show ?thesis using e unfolding R1_def S1_def t_def by blast
qed

lemma hlt_wakeup_inv:
  assumes i: "idle_inv s R S T w" and ch: "charge_ok (s\<lparr>counter := counter s + 2\<rparr>) w"
  shows "\<exists>s'. hlt_wakeup s = Some s' \<and> sched_inv s'"
proof -
  obtain s1 R1 S1 where s1: "timer_irq (s\<lparr>iflag := True\<rparr>) = Some s1" "idle_inv s1 R1 S1 T w"
    "us s1 w = us s w" "counter s1 = counter s + 2" "lastCounter s1 = lastCounter s"
    using timer_irq_idle [OF i] by blast
  have ws: "waiting s = Some w" using i by (simp add: idle_inv_def)
  have e1: "s1\<lparr>iflag := False\<rparr> = s1" using s1(2) by (simp add: idle_inv_def)
  have I: "core s1 R1 S1 T" "states_ok s1 R1 S1 T" "only_running s1 None" "currentPCB s1 = None" "waiting s1 = Some w"
    "w < MAX_TASKS" "us s1 w \<noteq> 0" "st s1 w \<noteq> RUNNING" "irqDisableCounter s1 = 1" "postponeTaskCounter s1 = 0"
    "\<not> taskChangePostponedFlag s1" "\<not> iflag s1" using s1(2) by (simp_all add: idle_inv_def)
  show ?thesis
  proof (cases R1)
    case Nil
    then have "NextReady s1 = (None, s1)" using I(1) by (simp add: core_def NextReady_nil)
    then have "hlt_wakeup s = Some s1" using ws s1(1) e1 by (simp add: hlt_wakeup_def)
    then show ?thesis using s1(2) sched_inv_idleI by blast
  next
    case (Cons n R')
    note N = core_NextReady [OF I(1) [unfolded Cons]]
    define s2 where "s2 = upd (Some n) (\<lambda>p. p\<lparr>quantumLeft := TIMESLICE\<rparr>) ((snd (NextReady s1))\<lparr>currentPCB := Some w, waiting := None\<rparr>)"
    have e: "hlt_wakeup s = Some (UnlockScheduler (if n \<noteq> w then SwitchToTask n s2 else s2))"
      using ws s1(1) e1 N(1) by (simp add: hlt_wakeup_def case_prod_beta Let_def s2_def)
    have n: "n \<notin> set (R' @ S1 @ T)" "n < MAX_TASKS" "us s1 n \<noteq> 0" "st s1 n = READY"
      using I(1,2) Cons by (auto simp: core_def states_ok_def)
    have c2: "core s2 R' S1 T" unfolding s2_def by (rule core_upd) (use N(2) in simp_all)
    have p2: "st s2 x = st s1 x" "us s2 x = us s1 x" "nx s2 n = None" for x using N(3) by (simp_all add: s2_def)
    have lk: "postponeTaskCounter s2 = 0" "irqDisableCounter s2 = 1" "\<not> taskChangePostponedFlag s2" "waiting s2 = None"
      "currentPCB s2 = Some w" "counter s2 = counter s1" "lastCounter s2 = lastCounter s1"
      using I by (simp_all add: s2_def)
    have so2: "states_ok s2 R' S1 T" using I(2) Cons by (simp add: states_ok_def p2)
    have run2: "only_running s2 (Some w)" using I(3) unfolding only_running_def p2 by blast
    have "sched_inv (UnlockScheduler (if n \<noteq> w then SwitchToTask n s2 else s2))"
    proof (cases "n = w")
      case True
      have "task_inv (UnlockScheduler s2) R' S1 T w"
        unfolding task_inv_def using c2 so2 run2 lk n True p2 pcbs_cong [of "UnlockScheduler s2" s2] by simp
      moreover have "unlocked (UnlockScheduler s2)" using lk by (simp add: unlocked_def)
      ultimately show ?thesis using True sched_inv_taskI by simp
    next
      case False
      have "charge_ok s2 w" using ch lk p2(2) [of w] s1(3-5) by (simp add: charge_ok_def)
      then have "sched_inv (UnlockScheduler (SwitchToTask n s2))"
        by (intro sched_inv_taskI [OF switch_inv [OF c2 so2 run2]]) (use lk n I(6-8) False p2 in simp_all)
      then show ?thesis using False by simp
    qed
    then show ?thesis using e by blast
  qed
qed

subsection \<open>The scheduler as a transition system\<close>

text \<open>
  One step is one call of the interface by the running task, one timer interrupt taken by it, or
  one turn of the wait loop.  \<open>UnblockProcess\<close> is called on a paused task, and a task terminates
  while the butler is paused: \<open>AddReady\<close> on a task that already stands on a list destroys that list
  (see below).  \<open>time_ok\<close> excludes the wrap of the running task's \<open>used\<close> counter, after which
  \<open>PcbAlloc\<close> would hand out the control block of a live task.
\<close>

definition time_ok :: "sched \<Rightarrow> bool" where
  "time_ok s \<longleftrightarrow> (case (if waiting s = None then currentPCB s else waiting s) of
       None \<Rightarrow> False
     | Some c \<Rightarrow> charge_ok s c \<and> charge_ok (s\<lparr>counter := counter s + 2\<rparr>) c)"

inductive sched_step :: "sched \<Rightarrow> sched \<Rightarrow> bool" where
  create: "waiting s = None \<Longrightarrow> sched_step s (snd (CreateProcess startup ent s))"
| pause: "waiting s = None \<Longrightarrow> time_ok s \<Longrightarrow> sched_step s (BlockProcess PAUSED s)"
| unblock: "waiting s = None \<Longrightarrow> p < MAX_TASKS \<Longrightarrow> us s p \<noteq> 0 \<Longrightarrow> st s p = PAUSED \<Longrightarrow>
    sched_step s (UnblockProcess (Some p) s)"
| sleep: "waiting s = None \<Longrightarrow> time_ok s \<Longrightarrow> sched_step s (SleepUntil w s)"
| terminate: "waiting s = None \<Longrightarrow> time_ok s \<Longrightarrow> butler s = Some b \<Longrightarrow> b < MAX_TASKS \<Longrightarrow> us s b \<noteq> 0 \<Longrightarrow>
    st s b = PAUSED \<Longrightarrow> sched_step s (TerminateProcess s)"
| butler_turn: "waiting s = None \<Longrightarrow> time_ok s \<Longrightarrow> currentPCB s = butler s \<Longrightarrow> sched_step s (PerformButler s)"
| tick: "waiting s = None \<Longrightarrow> time_ok s \<Longrightarrow> timer_irq s = Some s' \<Longrightarrow> sched_step s s'"
| wakeup: "waiting s \<noteq> None \<Longrightarrow> time_ok s \<Longrightarrow> hlt_wakeup s = Some s' \<Longrightarrow> sched_step s s'"

inductive reachable :: "sched \<Rightarrow> bool" where
  init: "unlocked s \<Longrightarrow> waiting s = None \<Longrightarrow> reachable (InitScheduler s)"
| step: "reachable s \<Longrightarrow> sched_step s s' \<Longrightarrow> reachable s'"

inductive_cases reachableE: "reachable s"

lemma sched_inv_cases:
  assumes "sched_inv s"
  obtains R S T c where "waiting s = None" "task_inv s R S T c" "unlocked s" "currentPCB s = Some c"
    | R S T w where "waiting s = Some w" "idle_inv s R S T w"
  using assms by (auto simp: sched_inv_def task_inv_def idle_inv_def)

lemma init_inv: "unlocked s \<Longrightarrow> waiting s = None \<Longrightarrow> sched_inv (InitScheduler s)"
  by (rule sched_inv_taskI [of _ "[]" "[]" "[]" 0])
    (auto simp: task_inv_def unlocked_def InitScheduler_def Let_def core_def rep_defs states_ok_def
      only_running_def MAX_TASKS_def split: if_splits)

lemma step_inv:
  assumes "sched_inv s" "sched_step s s'"
  shows "sched_inv s'"
  using assms(1)
proof (cases rule: sched_inv_cases)
  case (1 R S T c)
  then have ch: "time_ok s \<Longrightarrow> charge_ok s c" "time_ok s \<Longrightarrow> charge_ok (s\<lparr>counter := counter s + 2\<rparr>) c"
    by (simp_all add: time_ok_def)
  from assms(2) show ?thesis
  proof cases
    case tick
    then show ?thesis using timer_irq_task [OF 1(2,3) ch(2)] by auto
  qed (use 1 ch CreateProcess_inv [OF 1(2,3)] BlockProcess_PAUSED_inv [OF 1(2,3)] UnblockProcess_inv [OF 1(2,3)]
    SleepUntil_inv [OF 1(2,3)] TerminateProcess_inv [OF 1(2,3)] PerformButler_inv [OF 1(2,3)] in simp_all)
next
  case (2 R S T w)
  from assms(2) show ?thesis
  proof cases
    case wakeup
    then have "charge_ok (s\<lparr>counter := counter s + 2\<rparr>) w" using 2 by (simp add: time_ok_def)
    then show ?thesis using hlt_wakeup_inv [OF 2(2)] wakeup by auto
  qed (use 2 in simp_all)
qed

lemma reachable_inv: "reachable s \<Longrightarrow> sched_inv s"
  by (induction rule: reachable.induct) (auto intro: init_inv step_inv)

end
