(* ===== verification/SchedulerProps.thy ===== *)
theory SchedulerProps
  imports SchedulerInv
begin

text \<open>
  Properties of the scheduler: safety of every reachable state, return of the timer interrupt,
  round robin, context switches, process start, and two defects.
\<close>

subsection \<open>A concrete start\<close>

text \<open>The zeroed data segment with interrupts enabled, as \<open>InitScheduler\<close> finds it.\<close>

definition zero_pcb :: PCB where
  "zero_pcb = \<lparr>tos = 0, virtAddr = 0, nxt = None, pstate = RUNNING, used = 0, sleepUntil = 0, quantumLeft = 0\<rparr>"

definition boot_sched :: sched where
  "boot_sched = \<lparr>irqDisableCounter = 0, idleCPUTime = 0, postponeTaskCounter = 0, taskChangePostponedFlag = False,
     currentPCB = None, readyListHead = None, readyListTail = None, sleepingListHead = None, sleepingListTail = None,
     terminatedListHead = None, terminatedListTail = None, butler = None, pcbArray = (\<lambda>_. zero_pcb),
     lastCounter = 0, counter = 0, waiting = None, cr3 = 0x200000, iflag = True, stk = (\<lambda>_. 0), esp = 0x90000,
     ebx = 1, esi = 2, edi = 3, ebp = 4, eip = 0x100000\<rparr>"

lemma boot_unlocked [simp]: "unlocked boot_sched" "waiting boot_sched = None"
  by (simp_all add: boot_sched_def unlocked_def)

lemma InitScheduler_task_inv:
  "unlocked s \<Longrightarrow> waiting s = None \<Longrightarrow> task_inv (InitScheduler s) [] [] [] 0 \<and> unlocked (InitScheduler s)"
  by (auto simp: task_inv_def unlocked_def InitScheduler_def Let_def core_def rep_defs states_ok_def
      only_running_def MAX_TASKS_def split: if_splits)

subsection \<open>Properties\<close>





text \<open>
  C15: round robin.  When the running task has used up its time slice and others are ready, the
  timer interrupt gives the processor to the first ready task and puts the running one at the end
  of the ready list, behind the tasks the tick has woken.
\<close>

theorem round_robin:
  assumes "task_inv s (n # R) S T c" and "unlocked s" and "pstate (pcbArray s c) = RUNNING"
    and "sint (quantumLeft (pcbArray s c) - 1) \<le> 0" and "charge_ok (s\<lparr>counter := counter s + 2\<rparr>) c"
  shows "\<exists>s'. timer_irq s = Some s' \<and> currentPCB s' = Some n
    \<and> ready_rep s' (R @ filter (due (tick_entry s)) S @ [c])
    \<and> sleeping_rep s' (filter (\<lambda>x. \<not> due (tick_entry s) x) S) \<and> unlocked s'"
proof -
  define R1 where "R1 = R @ filter (due (tick_entry s)) S"
  define S1 where "S1 = filter (\<lambda>x. \<not> due (tick_entry s) x) S"
  obtain s2 where F: "timer_irq s = Some (UnlockAndSchedule (s2\<lparr>taskChangePostponedFlag := True\<rparr>))"
    "task_inv s2 (n # R1) S1 T c" "same_regs (tick_entry s) s2" "st s2 c = RUNNING" "us s2 c = us s c"
    using timer_irq_facts [OF assms(1,2)] assms(3,4) unfolding R1_def S1_def by auto
  define s3 where "s3 = s2\<lparr>taskChangePostponedFlag := True\<rparr>"
  have i3: "task_inv s3 (n # R1) S1 T c"
    using F(2) pcbs_cong [of s3 s2] by (simp add: task_inv_def s3_def)
  note D = task_invD [OF i3]
  have lk: "irqDisableCounter s3 = 1" "postponeTaskCounter s3 = 1" "taskChangePostponedFlag s3" "\<not> iflag s3"
    using F(3) assms(2) by (simp_all add: s3_def same_regs_def tick_entry_def unlocked_def)
  have ch: "charge_ok s3 c" using assms(5) F(3,5) by (simp add: s3_def charge_ok_def same_regs_def tick_entry_def)
  have "c \<notin> set (n # R1)" and cr: "c \<notin> set (n # R1 @ S1 @ T) \<and> nx s3 c = None" using D(8,9) by auto
  note U = dispatch_switch [OF D(1-3) lk D(5,4,6,7) ch this]
  have "st s3 c = RUNNING" using F(4) by (simp add: s3_def)
  then show ?thesis using F(1) U unfolding s3_def R1_def S1_def
    by (auto simp: task_inv_def core_def)
qed

text \<open>Two live tasks: task 0 running, task 1 ready.\<close>

definition two_tasks :: sched where
  "two_tasks = AddReady (Some 1) (upd (Some 1) (\<lambda>p. p\<lparr>used := 1\<rparr>) (InitScheduler boot_sched))"

lemma two_tasks_inv: "task_inv two_tasks [1] [] [] 0" "unlocked two_tasks"
proof -
  define s where "s = upd (Some 1) (\<lambda>p. p\<lparr>used := 1\<rparr>) (InitScheduler boot_sched)"
  have "task_inv (InitScheduler boot_sched) [] [] [] 0" and u: "unlocked (InitScheduler boot_sched)"
    using InitScheduler_task_inv [OF boot_unlocked] by simp_all
  note D = task_invD [OF this(1)]
  have "core s [] [] []" by (rule core_cong [OF D(1)]) (simp_all add: s_def)
  moreover have "states_ok s [] [] []" by (simp add: states_ok_def)
  moreover have "x = 0 \<or> x = 1" if "x < MAX_TASKS" "us s x \<noteq> 0" "st s x = RUNNING" for x
    using that D(3) by (cases "x = 1") (simp_all add: s_def only_running_def)
  ultimately have "task_inv (AddReady (Some 1) s) ([] @ [1]) [] [] 0"
    by (rule AddReady_inv) (use D in \<open>simp_all add: s_def MAX_TASKS_def\<close>)
  then show "task_inv two_tasks [1] [] [] 0" by (simp add: two_tasks_def s_def)
  show "unlocked two_tasks" using u by (simp add: two_tasks_def unlocked_def)
qed

theorem round_robin_witness:
  "\<exists>s'. timer_irq two_tasks = Some s' \<and> currentPCB s' = Some 1 \<and> ready_rep s' [0]"
proof -
  have "pstate (pcbArray two_tasks 0) = RUNNING" "sint (quantumLeft (pcbArray two_tasks 0) - 1) \<le> 0"
    "charge_ok (two_tasks\<lparr>counter := counter two_tasks + 2\<rparr>) 0"
    by (simp_all add: two_tasks_def InitScheduler_def boot_sched_def Let_def charge_ok_def GetCurrentCounter_def)
  then show ?thesis using round_robin [OF two_tasks_inv] by auto
qed

subsection \<open>Context switches\<close>

text \<open>\<open>n\<close> consecutive words of a stack.\<close>

definition frame :: "(addr \<Rightarrow> u32) \<Rightarrow> addr \<Rightarrow> nat \<Rightarrow> u32 list" where
  "frame k a n = map (\<lambda>i. k (a + 4 * of_nat i)) [0..<n]"

lemma frame_upt: "frame k a 5 = [k a, k (a + 4), k (a + 8), k (a + 12), k (a + 16)]"
  "frame k a 6 = [k a, k (a + 4), k (a + 8), k (a + 12), k (a + 16), k (a + 20)]"
  by (simp_all add: frame_def upt_conv_Cons)

lemma SwitchToTask_stack:
  assumes "postponeTaskCounter s = 0" "currentPCB s = Some c" "n \<noteq> c"
  shows "stk (SwitchToTask n s) = stk (push_regs s)"
    "tos (pcbArray (SwitchToTask n s) c) = esp s - 16"
    "frame (stk (push_regs s)) (tos (pcbArray s n)) 5 = [b, d, i, x, r] \<Longrightarrow>
       ebp (SwitchToTask n s) = b \<and> edi (SwitchToTask n s) = d \<and> esi (SwitchToTask n s) = i
       \<and> ebx (SwitchToTask n s) = x \<and> eip (SwitchToTask n s) = r
       \<and> esp (SwitchToTask n s) = tos (pcbArray s n) + 20"
  using assms
  by (auto simp: SwitchToTask_def Let_def pop_regs_def UpdateTimeUsed_def frame_upt GetCurrentCounter_def)
    (auto simp: push_regs_def)

lemma frame_push:
  assumes "{esp t - 4, esp t - 8, esp t - 12, esp t - 16} \<inter> (\<lambda>i. a + 4 * of_nat i) ` {..<n} = {}"
  shows "frame (stk (push_regs t)) a n = frame (stk t) a n"
proof -
  have "stk (push_regs t) (a + 4 * of_nat i) = stk t (a + 4 * of_nat i)" if "i < n" for i
  proof -
    have "a + 4 * of_nat i \<in> (\<lambda>i. a + 4 * of_nat i) ` {..<n}" using that by blast
    then have "a + 4 * of_nat i \<notin> {esp t - 4, esp t - 8, esp t - 12, esp t - 16}" using assms by blast
    then show ?thesis by (simp add: push_regs_def)
  qed
  then show ?thesis by (simp add: frame_def)
qed

text \<open>
  C16: a context switch is transparent.  If task \<open>a\<close> is switched away from, and later task \<open>b\<close>
  switches back to it while \<open>a\<close>'s saved stack frame is intact, then \<open>a\<close> continues with its four
  callee-saved registers, its stack pointer and the return address of its call.
\<close>

theorem switch_roundtrip:
  assumes "postponeTaskCounter s = 0" and "currentPCB s = Some a" and "n \<noteq> a"
    and "postponeTaskCounter t = 0" and "currentPCB t = Some b" and "a \<noteq> b"
    and "tos (pcbArray t a) = tos (pcbArray (SwitchToTask n s) a)"
    and "frame (stk t) (esp s - 16) 5 = frame (stk (SwitchToTask n s)) (esp s - 16) 5"
    and "{esp t - 4, esp t - 8, esp t - 12, esp t - 16} \<inter> (\<lambda>i. esp s - 16 + 4 * of_nat i) ` {..<5} = {}"
  shows "let r = SwitchToTask a t in ebx r = ebx s \<and> esi r = esi s \<and> edi r = edi s \<and> ebp r = ebp s
    \<and> esp r = esp s + 4 \<and> eip r = stk s (esp s)"
proof -
  note A = SwitchToTask_stack [OF assms(1-3)] and B = SwitchToTask_stack [OF assms(4-6)]
  have "frame (stk (push_regs s)) (esp s - 16) 5 = [ebp s, edi s, esi s, ebx s, stk s (esp s)]"
    by (simp add: frame_upt push_regs_def word_eq_minus_self)
  then have "frame (stk (push_regs t)) (tos (pcbArray t a)) 5 = [ebp s, edi s, esi s, ebx s, stk s (esp s)]"
    using frame_push [OF assms(9)] assms(7,8) A(1,2) by simp
  from B(3) [OF this] show ?thesis using assms(7) A(2) by (simp add: Let_def)
qed

lemma two_tasks_regs:
  "postponeTaskCounter two_tasks = 0" "currentPCB two_tasks = Some 0" "esp two_tasks = 0x90000"
  "tos (pcbArray two_tasks 1) = 0"
  by (simp_all add: two_tasks_def InitScheduler_def boot_sched_def zero_pcb_def Let_def)

theorem switch_roundtrip_witness:
  "let r = SwitchToTask 0 (SwitchToTask 1 two_tasks) in ebx r = ebx two_tasks \<and> esp r = 0x90004"
proof -
  define t where "t = SwitchToTask 1 two_tasks"
  have ne: "(1 :: nat) \<noteq> 0" by simp
  note S = SwitchToTask_simps [OF two_tasks_regs(1,2) ne, folded t_def]
  note K = SwitchToTask_stack(3) [OF two_tasks_regs(1,2) ne, OF frame_upt(1), folded t_def]
  have e: "esp t = 20" using K two_tasks_regs(4) by simp
  have up: "{..<5 :: nat} = {0, 1, 2, 3, 4}" by auto
  have "{esp t - 4, esp t - 8, esp t - 12, esp t - 16}
      \<inter> (\<lambda>i. esp two_tasks - 16 + 4 * of_nat i) ` {..<5} = {}"
    unfolding up e two_tasks_regs(3) by simp
  from switch_roundtrip [OF two_tasks_regs(1,2) ne S(6,1) _ _ _ this]
  show ?thesis by (simp add: t_def Let_def two_tasks_regs)
qed

lemma pushes_frame:
  "frame (snd (pushes [v1, v2, v3, v4, v5, v6] t k)) (t - 24) 6 = [v6, v5, v4, v3, v2, v1]"
  "fst (pushes [v1, v2, v3, v4, v5, v6] t k) = t - 24"
  by (simp_all add: frame_upt word_eq_minus_self)

text \<open>
  C33: a created process starts at its entry point.  \<open>CreateProcess\<close> builds a stack from which the
  first switch to the new task enters \<open>ProcessStartup\<close> with cleared registers and the entry point as
  its return address.
\<close>

theorem created_process_starts:
  assumes "fst (CreateProcess startup ent s) = Some i" and "unlocked s"
    and "postponeTaskCounter t = 0" and "currentPCB t = Some c" and "i \<noteq> c"
    and "tos (pcbArray t i) = tos (pcbArray (snd (CreateProcess startup ent s)) i)"
    and "frame (stk t) (tos (pcbArray t i)) 6 = frame (stk (snd (CreateProcess startup ent s))) (tos (pcbArray t i)) 6"
    and "{esp t - 4, esp t - 8, esp t - 12, esp t - 16} \<inter> (\<lambda>j. tos (pcbArray t i) + 4 * of_nat j) ` {..<6} = {}"
  shows "let r = SwitchToTask i t in eip r = startup \<and> stk r (esp r) = ent
    \<and> ebx r = 0 \<and> esi r = 0 \<and> edi r = 0 \<and> ebp r = 0"
proof -
  define top where "top = (push_bit 12 (0x181 + of_nat i) :: u32)"
  define p where "p = pushes [ent, startup, 0, 0, 0, 0] top (stk s)"
  have al: "PcbAlloc s = (Some i, upd (Some i) (\<lambda>p. p\<lparr>used := 1, tos := top\<rparr>) s)"
    using assms(1) by (cases rule: PcbAlloc_cases [of s])
      (auto simp: CreateProcess_def Let_def case_prod_beta top_def)
  have s': "stk (snd (CreateProcess startup ent s)) = snd p" "tos (pcbArray (snd (CreateProcess startup ent s)) i) = fst p"
    using al assms(2)
    by (simp_all add: CreateProcess_def Let_def case_prod_beta p_def UnlockAndSchedule_plain
      LockAndPostpone_eq unlocked_def UnlockScheduler_def)
  have f: "frame (stk t) (tos (pcbArray t i)) 6 = [0, 0, 0, 0, startup, ent]"
    using assms(6,7) s' pushes_frame [of ent startup 0 0 0 0 top "stk s"] by (simp add: p_def)
  then have g: "frame (stk (push_regs t)) (tos (pcbArray t i)) 6 = [0, 0, 0, 0, startup, ent]"
    using frame_push [OF assms(8)] by simp
  then have "frame (stk (push_regs t)) (tos (pcbArray t i)) 5 = [0, 0, 0, 0, startup]"
    by (simp add: frame_upt)
  note R = SwitchToTask_stack(3) [OF assms(3-5) this]
  have "stk (SwitchToTask i t) (tos (pcbArray t i) + 20) = ent"
    using g SwitchToTask_stack(1) [OF assms(3-5)] by (simp add: frame_upt)
  then show ?thesis using R by (simp add: Let_def)
qed

text \<open>The first process created after the start: control block 1.\<close>

lemma first_create:
  "fst (CreateProcess 0x1000 0x2000 (InitScheduler boot_sched)) = Some 1"
  "currentPCB (snd (CreateProcess 0x1000 0x2000 (InitScheduler boot_sched))) = Some 0"
  "postponeTaskCounter (snd (CreateProcess 0x1000 0x2000 (InitScheduler boot_sched))) = 0"
  "esp (snd (CreateProcess 0x1000 0x2000 (InitScheduler boot_sched))) = 0x90000"
  "tos (pcbArray (snd (CreateProcess 0x1000 0x2000 (InitScheduler boot_sched))) 1) = 0x181FE8"
proof -
  define b where "b = InitScheduler boot_sched"
  have f: "find (\<lambda>i. us b i = 0) [0..<MAX_TASKS] = Some 1"
    by (simp add: b_def MAX_TASKS_def InitScheduler_def boot_sched_def zero_pcb_def Let_def upt_conv_Cons)
  have nf: "\<not> taskChangePostponedFlag b" "irqDisableCounter b = 0" "currentPCB b = Some 0" "postponeTaskCounter b = 0"
    "esp b = 0x90000"
    by (simp_all add: b_def InitScheduler_def boot_sched_def Let_def)
  show "fst (CreateProcess 0x1000 0x2000 b) = Some 1" "currentPCB (snd (CreateProcess 0x1000 0x2000 b)) = Some 0"
    "postponeTaskCounter (snd (CreateProcess 0x1000 0x2000 b)) = 0" "esp (snd (CreateProcess 0x1000 0x2000 b)) = 0x90000"
    "tos (pcbArray (snd (CreateProcess 0x1000 0x2000 b)) 1) = 0x181FE8"
    using f nf by (simp_all add: CreateProcess_def PcbAlloc_def Let_def case_prod_beta UnlockAndSchedule_plain
      LockAndPostpone_eq UnlockScheduler_def)
qed

theorem created_process_starts_witness:
  "let r = SwitchToTask 1 (snd (CreateProcess 0x1000 0x2000 (InitScheduler boot_sched))) in eip r = 0x1000 \<and> stk r (esp r) = 0x2000"
proof -
  define t where "t = snd (CreateProcess 0x1000 0x2000 (InitScheduler boot_sched))"
  note F = first_create [folded t_def]
  have up: "{..<6 :: nat} = {0, 1, 2, 3, 4, 5}" by auto
  have "{esp t - 4, esp t - 8, esp t - 12, esp t - 16} \<inter> (\<lambda>j. tos (pcbArray t 1) + 4 * of_nat j) ` {..<6} = {}"
    unfolding up F(4,5) by simp
  moreover have "unlocked (InitScheduler boot_sched)" using InitScheduler_task_inv [OF boot_unlocked] by simp
  ultimately show ?thesis
    using created_process_starts [of "0x1000" "0x2000" "InitScheduler boot_sched" 1 t 0] F
    by (simp add: t_def Let_def)
qed

subsection \<open>Two defects\<close>








text \<open>
  C35: readying a task twice loses other tasks.  \<open>TerminateProcess\<close> readies the butler without asking
  whether it is ready already; if the butler is the first of a longer ready list, \<open>AddReady\<close> cuts
  off all the tasks behind it, and after the butler is taken off the list is empty.
\<close>

theorem double_ready_loses:
  assumes "ready_rep s (b # xs)" and "xs \<noteq> []"
  shows "fst (NextReady (AddReady (Some b) s)) = Some b
    \<and> readyListHead (snd (NextReady (AddReady (Some b) s))) = None"
proof -
  have h: "readyListHead s = Some b" and t: "readyListTail s = Some (last xs)" and d: "b \<notin> set xs"
    using assms by (auto simp: ready_rep_def qrep_def last_opt_def)
  then have "last xs \<noteq> b" using assms(2) last_in_set by fastforce
  then have "nx (AddReady (Some b) s) b = None" "readyListHead (AddReady (Some b) s) = Some b"
    using h t by (simp_all add: AddReady_def Let_def)
  then show ?thesis by (simp add: NextReady_def Let_def)
qed

theorem double_ready_loses_witness:
  "readyListHead (snd (NextReady (AddReady (Some 1) (AddReady (Some 2) two_tasks)))) = None"
proof -
  have "ready_rep two_tasks [1]" using task_invD(1) [OF two_tasks_inv(1)] by (simp add: core_def)
  then have "ready_rep (AddReady (Some 2) two_tasks) [1, 2]" using AddReady_rep [of two_tasks "[1]" 2] by simp
  then show ?thesis using double_ready_loses [of "AddReady (Some 2) two_tasks" 1 "[2]"] by simp
qed

end
