(* ===== verification/KHeap.thy ===== *)
theory KHeap
  imports CString Scheduler
begin

text \<open>
  The kernel heap of \<open>kernel/kheap/kheap.c\<close>: a list of \<open>Node\<close> headers, one for each block of
  \<open>BLOCK_SIZE\<close> bytes, and first-fit allocation of runs of blocks.

  A \<open>Node *\<close> is its address (0 for NULL), \<open>nodes\<close> the headers at the node addresses, \<open>hmem\<close> the
  bytes of the heap.  \<open>mapped\<close> lists the pages passed to \<open>map\<close> of the virtual memory manager during
  initialisation.  Output to the log is not modelled; \<open>RUN_CHECKS_ON_ALLOCATE\<close>,
  \<open>RUN_CHECKS_ON_FREE\<close> and \<open>STANDALONE_MEMORY_ALLOCATION\<close> are not defined in the kernel's build.
\<close>

record Node =
  n_addr :: addr
  n_size :: u32
  n_next :: addr
  allocated :: bool
  first_block :: bool
  num_block_used :: u32
  total_requested_memory :: u32

record kheap =
  memory_region :: addr
  end_of_node_region :: addr
  memory_region_end :: addr
  total_region_size_g :: u32
  heap_active :: bool
  nodes :: "addr \<Rightarrow> Node"
  hmem :: mem
  mapped :: "addr list"
  mem_lock_alloc :: bool
  mem_lock_free :: bool

definition BLOCK_SIZE :: u32 where
  "BLOCK_SIZE = 1024"

definition ALIGNMENT :: u32 where
  "ALIGNMENT = 16"

definition sizeof_Node :: u32 where
  "sizeof_Node = 24"

definition upd_node :: "addr \<Rightarrow> (Node \<Rightarrow> Node) \<Rightarrow> kheap \<Rightarrow> kheap" where
  "upd_node p f h = h\<lparr>nodes := (nodes h)(p := f (nodes h p))\<rparr>"

subsection \<open>Initialisation\<close>

text \<open>
  The loop \<open>for (i = 1; i < num_nodes; ++i)\<close> with \<open>k\<close> iterations to go; \<open>limit\<close> is
  \<open>aligned_start_addr + bytes_available_for_allocation\<close>.
\<close>

primrec init_nodes :: "nat \<Rightarrow> u32 \<Rightarrow> u32 \<Rightarrow> addr \<Rightarrow> addr \<Rightarrow> addr \<Rightarrow> kheap \<Rightarrow> kheap" where
  "init_nodes 0 i num_nodes start limit current h = h"
| "init_nodes (Suc k) i num_nodes start limit current h =
     (if start + i * BLOCK_SIZE > limit
      then upd_node (memory_region h) (\<lambda>n. n\<lparr>num_block_used := i\<rparr>) h
      else
        let h = upd_node current (\<lambda>n. n\<lparr>n_addr := start + i * BLOCK_SIZE, n_size := BLOCK_SIZE,
                  n_next := (if i < num_nodes - 1 then current + sizeof_Node else 0),
                  allocated := False, first_block := False, num_block_used := 0\<rparr>) h;
            h = (if i mod 4 = 0 then h\<lparr>mapped := mapped h @ [start + i * BLOCK_SIZE]\<rparr> else h)
        in init_nodes k (i + 1) num_nodes start limit (current + sizeof_Node) h)"

definition init_memory_region :: "addr \<Rightarrow> u32 \<Rightarrow> kheap \<Rightarrow> addr \<times> kheap" where
  "init_memory_region start_addr sz h =
     (let num_nodes = sz div BLOCK_SIZE;
          bytes_used_by_nodes = num_nodes * sizeof_Node;
          alignment_padding = (ALIGNMENT - (start_addr mod ALIGNMENT)) mod ALIGNMENT;
          aligned_start_addr = start_addr + alignment_padding;
          bytes_available = sz - bytes_used_by_nodes - alignment_padding;
          node_end = aligned_start_addr + bytes_used_by_nodes;
          h = h\<lparr>memory_region := start_addr, memory_region_end := start_addr + sz, end_of_node_region := node_end\<rparr>;
          h = upd_node start_addr (\<lambda>n. n\<lparr>num_block_used := num_block_used n + num_nodes\<rparr>) h
      in (node_end,
          init_nodes (unat num_nodes - 1) 1 num_nodes node_end (aligned_start_addr + bytes_available)
            aligned_start_addr h))"

definition init_memory_allocation :: "addr \<Rightarrow> u32 \<Rightarrow> kheap \<Rightarrow> kheap" where
  "init_memory_allocation start_addr sz h = snd (init_memory_region start_addr sz h)"

text \<open>
  \<open>zone\<close> is the result of \<open>pmm_alloc_pages\<close>.  The product with the constant 0.4 is truncated to an
  integer, which is two fifths rounded down.
\<close>

definition heap_pages :: "u32 \<Rightarrow> u32" where
  "heap_pages sz = of_nat ((unat (sz div 4096) * 2) div 5)"

definition init_kheap :: "(u32 \<Rightarrow> addr) \<Rightarrow> u32 \<Rightarrow> kheap \<Rightarrow> kheap" where
  "init_kheap zone sz h =
     (init_memory_allocation (zone (heap_pages sz)) (heap_pages sz * 4096) h)
       \<lparr>heap_active := True, total_region_size_g := sz\<rparr>"

partial_function (option) last_node :: "kheap \<Rightarrow> addr \<Rightarrow> addr option" where
  "last_node h p = (if n_next (nodes h p) \<noteq> 0 then last_node h (n_next (nodes h p)) else Some p)"

definition extend_allocation_space :: "addr \<Rightarrow> u32 \<Rightarrow> kheap \<Rightarrow> kheap option" where
  "extend_allocation_space extra_region sz h = do {
     p \<leftarrow> last_node h (memory_region h);
     let (node_end, h) = init_memory_region extra_region sz h;
         h = upd_node p (\<lambda>n. n\<lparr>n_next := extra_region\<rparr>) h
     in Some (h\<lparr>end_of_node_region := node_end\<rparr>)
   }"

subsection \<open>Allocation\<close>

text \<open>The inner loop of \<open>find_free_zone\<close>: (where it stops, how many free blocks it has counted).\<close>

primrec free_run :: "kheap \<Rightarrow> addr \<Rightarrow> nat \<Rightarrow> addr \<times> nat" where
  "free_run h p 0 = (p, 0)"
| "free_run h p (Suc k) =
     (if p \<noteq> 0 \<and> \<not> allocated (nodes h p)
      then let (q, c) = free_run h (n_next (nodes h p)) k in (q, Suc c)
      else (p, 0))"

text \<open>The loop that marks the blocks, at iteration \<open>i\<close> with \<open>k\<close> to go.\<close>

primrec mark_blocks :: "nat \<Rightarrow> nat \<Rightarrow> u32 \<Rightarrow> addr \<Rightarrow> kheap \<Rightarrow> kheap" where
  "mark_blocks 0 i needed p h = h"
| "mark_blocks (Suc k) i needed p h =
     mark_blocks k (Suc i) needed (n_next (nodes h p))
       (upd_node p (\<lambda>n. n\<lparr>allocated := True, first_block := (i = 0), num_block_used := needed\<rparr>) h)"

definition advance :: "kheap \<Rightarrow> addr \<Rightarrow> addr" where
  "advance h p = (if p \<noteq> 0 \<and> n_next (nodes h p) \<noteq> 0 then n_next (nodes h p) else p)"

partial_function (option) find_free_zone :: "addr \<Rightarrow> u32 \<Rightarrow> nat \<Rightarrow> kheap \<Rightarrow> (addr \<times> kheap) option" where
  "find_free_zone current sz needed h =
     (if current = 0 then Some (0, h)
      else if \<not> allocated (nodes h current) then
        let h = upd_node current (\<lambda>n. n\<lparr>total_requested_memory := sz\<rparr>) h;
            (q, count) = free_run h current needed
        in if count \<ge> needed
           then Some (n_addr (nodes h current), mark_blocks needed 0 (of_nat needed) current h)
           else find_free_zone (advance h q) sz needed h
      else find_free_zone (advance h current) sz needed h)"

text \<open>
  \<open>(size + (BLOCK_SIZE-1)) / BLOCK_SIZE\<close> on a signed \<open>int\<close>; a negative result counts as 0 blocks in
  the comparisons that use it.  The test against the unsigned \<open>total_region_size_g\<close> is unsigned.
\<close>

definition blocks_needed :: "i32 \<Rightarrow> nat" where
  "blocks_needed sz = nat (sint (sz + (BLOCK_SIZE - 1)) div 1024)"

definition sys_allocate_memory :: "i32 \<Rightarrow> kheap \<Rightarrow> (addr \<times> kheap) option" where
  "sys_allocate_memory sz h =
     (if sz \<ge> total_region_size_g h then Some (0, h)
      else find_free_zone (n_next (nodes h (memory_region h))) sz (blocks_needed sz) h)"

subsection \<open>Release\<close>

partial_function (option) find_node :: "kheap \<Rightarrow> addr \<Rightarrow> addr \<Rightarrow> addr option" where
  "find_node h a p =
     (if p \<noteq> 0 \<and> n_addr (nodes h p) \<noteq> a then find_node h a (n_next (nodes h p)) else Some p)"

primrec free_blocks :: "nat \<Rightarrow> addr \<Rightarrow> kheap \<Rightarrow> kheap" where
  "free_blocks 0 p h = h"
| "free_blocks (Suc k) p h =
     free_blocks k (n_next (nodes h p))
       (upd_node p (\<lambda>n. n\<lparr>allocated := False, first_block := False, num_block_used := 0,
          total_requested_memory := 0\<rparr>) h)"

definition sys_free_memory :: "addr \<Rightarrow> kheap \<Rightarrow> (addr \<times> kheap) option" where
  "sys_free_memory a h = do {
     p \<leftarrow> find_node h a (memory_region h);
     Some (if p \<noteq> 0 \<and> allocated (nodes h p)
           then (0, free_blocks (unat (num_block_used (nodes h p))) p h)
           else (a, h))
   }"

definition sys_reallocate_memory :: "addr \<Rightarrow> i32 \<Rightarrow> i32 \<Rightarrow> kheap \<Rightarrow> (addr \<times> kheap) option" where
  "sys_reallocate_memory a old_size new_size h =
     (if sint old_size \<ge> sint new_size then Some (a, h)
      else if a = 0 \<or> a < memory_region h \<or> a > memory_region_end h then Some (0, h)
      else do {
        (new_addr, h) \<leftarrow> sys_allocate_memory new_size h;
        if new_addr \<noteq> 0 then do {
          (r, h) \<leftarrow> sys_free_memory a (h\<lparr>hmem := memcpy (hmem h) new_addr a old_size\<rparr>);
          Some (new_addr, h)
        } else Some (a, h)
      })"

subsection \<open>Inspection\<close>

primrec memory_size_loop :: "nat \<Rightarrow> kheap \<Rightarrow> addr \<Rightarrow> addr \<Rightarrow> u32" where
  "memory_size_loop 0 h ptr p = - 1"
| "memory_size_loop (Suc k) h ptr p =
     (if n_addr (nodes h p) = ptr \<and> allocated (nodes h p) then total_requested_memory (nodes h p)
      else memory_size_loop k h ptr (n_next (nodes h p)))"

definition get_memory_size :: "addr \<Rightarrow> kheap \<Rightarrow> u32" where
  "get_memory_size ptr h =
     memory_size_loop (unat (num_block_used (nodes h (memory_region h)))) h ptr (memory_region h)"

partial_function (option) memcleanup_loop :: "addr \<Rightarrow> kheap \<Rightarrow> kheap option" where
  "memcleanup_loop p h =
     (if p \<noteq> 0 \<and> n_next (nodes h p) \<noteq> 0 then
        memcleanup_loop (n_next (nodes h p))
          (upd_node p (\<lambda>n. n\<lparr>allocated := False, n_size := 0, num_block_used := 0\<rparr>)
            (h\<lparr>hmem := memset (hmem h) (n_addr (nodes h p)) 0 (n_size (nodes h p))\<rparr>))
      else Some h)"

definition memcleanup :: "kheap \<Rightarrow> kheap option" where
  "memcleanup h = memcleanup_loop (memory_region h) h"

text \<open>
  The detector copies the block into a cleared buffer of 1028 bytes and looks for a non-zero byte
  there; the four bytes after the block are the cleared ones.
\<close>

definition block_dirty :: "kheap \<Rightarrow> addr \<Rightarrow> u32 \<Rightarrow> bool" where
  "block_dirty h a n = list_ex (\<lambda>b. b \<noteq> 0) (bytes_at (hmem h) a (unat n))"

partial_function (option) overflow_loop :: "kheap \<Rightarrow> addr \<Rightarrow> int option" where
  "overflow_loop h p =
     (if p \<noteq> 0 \<and> n_next (nodes h p) \<noteq> 0 then
        if \<not> allocated (nodes h p) \<and> block_dirty h (n_addr (nodes h p)) BLOCK_SIZE then Some (- 1)
        else overflow_loop h (n_next (nodes h p))
      else Some 0)"

definition buffer_overflow_detector :: "kheap \<Rightarrow> int option" where
  "buffer_overflow_detector h = overflow_loop h (memory_region h)"

partial_function (option) dangling_loop :: "kheap \<Rightarrow> addr \<Rightarrow> int option" where
  "dangling_loop h p =
     (if p \<noteq> 0 \<and> n_next (nodes h p) \<noteq> 0 then
        if \<not> allocated (nodes h p) \<and> \<not> allocated (nodes h (n_next (nodes h p)))
           \<and> block_dirty h (n_addr (nodes h p)) (n_size (nodes h p)) then Some (- 1)
        else dangling_loop h (n_next (nodes h p))
      else Some 0)"

definition find_dangling_pointer :: "kheap \<Rightarrow> int option" where
  "find_dangling_pointer h = dangling_loop h (memory_region h)"

definition run_checks :: "kheap \<Rightarrow> (int \<times> int) option" where
  "run_checks h = do { a \<leftarrow> buffer_overflow_detector h; b \<leftarrow> find_dangling_pointer h; Some (a, b) }"

definition is_heap_active :: "kheap \<Rightarrow> bool" where
  "is_heap_active h = heap_active h"

subsection \<open>Locked entry points\<close>

text \<open>The empty loops on \<open>heap_active\<close> and the locks do not end once entered with interrupts off.\<close>

definition kmalloc :: "u32 \<Rightarrow> sched \<times> kheap \<Rightarrow> (addr \<times> sched \<times> kheap) option" where
  "kmalloc sz = (\<lambda>(s, h).
     let s = LockScheduler s
     in if \<not> heap_active h \<or> mem_lock_alloc h then None
        else do {
          (r, h) \<leftarrow> sys_allocate_memory sz (h\<lparr>mem_lock_alloc := True\<rparr>);
          Some (r, UnlockScheduler s, h\<lparr>mem_lock_alloc := False\<rparr>)
        })"

definition kfree :: "addr \<Rightarrow> kheap \<Rightarrow> kheap option" where
  "kfree ptr h =
     (if mem_lock_free h then None
      else do {
        (r, h) \<leftarrow> sys_free_memory ptr (h\<lparr>mem_lock_free := True\<rparr>);
        Some (h\<lparr>mem_lock_free := False\<rparr>)
      })"

end
