(* ===== verification/KHeapSearch.thy ===== *)
theory KHeapSearch
  imports KHeap LinkedQueue
begin

text \<open>
  The search of the kernel heap: the header list as a list of addresses, first fit on the list of
  allocation flags, and the lemma that \<open>find_free_zone\<close> is that search.
\<close>

subsection \<open>The block list\<close>

definition ptr :: "addr \<Rightarrow> addr option" where
  "ptr a = (if a = 0 then None else Some a)"

definition hchain :: "kheap \<Rightarrow> addr \<Rightarrow> addr list \<Rightarrow> bool" where
  "hchain h p ps \<longleftrightarrow> chain (\<lambda>x. ptr (n_next (nodes h x))) (ptr p) ps"

abbreviation bits :: "kheap \<Rightarrow> addr list \<Rightarrow> bool list" where
  "bits h ps \<equiv> map (\<lambda>p. allocated (nodes h p)) ps"

lemma ptr_eq [simp]: "ptr a = None \<longleftrightarrow> a = 0" "ptr a = Some b \<longleftrightarrow> a = b \<and> b \<noteq> 0"
  by (auto simp: ptr_def)

lemma hchain_Nil [simp]: "hchain h p [] \<longleftrightarrow> p = 0"
  by (simp add: hchain_def)

lemma hchain_Cons [simp]: "hchain h p (x # xs) \<longleftrightarrow> p = x \<and> x \<noteq> 0 \<and> hchain h (n_next (nodes h x)) xs"
  by (auto simp: hchain_def)

lemma hchain_0 [simp]: "hchain h 0 ps \<longleftrightarrow> ps = []"
  by (cases ps) auto

lemma hchain_distinct: "hchain h p ps \<Longrightarrow> distinct ps"
  unfolding hchain_def by (rule chain_distinct)

lemma hchain_nonzero: "hchain h p ps \<Longrightarrow> x \<in> set ps \<Longrightarrow> x \<noteq> 0"
  by (induction ps arbitrary: p) auto

lemma hchain_cong:
  "hchain h p ps \<Longrightarrow> (\<And>x. x \<in> set ps \<Longrightarrow> n_next (nodes h' x) = n_next (nodes h x)) \<Longrightarrow> hchain h' p ps"
  by (induction ps arbitrary: p) auto

lemma hchain_drop: "hchain h p ps \<Longrightarrow> i < length ps \<Longrightarrow> hchain h (ps ! i) (drop i ps)"
proof (induction ps arbitrary: p i)
  case (Cons x ps)
  then show ?case by (cases i) auto
qed simp

subsection \<open>First fit on a list of flags\<close>

fun first_fit :: "nat \<Rightarrow> bool list \<Rightarrow> nat option" where
  "first_fit n [] = None"
| "first_fit n (b # bs) =
     (if \<not> b \<and> n \<le> length (takeWhile Not (b # bs)) then Some 0 else map_option Suc (first_fit n bs))"

definition fits :: "nat \<Rightarrow> bool list \<Rightarrow> nat \<Rightarrow> bool" where
  "fits n bs i \<longleftrightarrow> i < length bs \<and> \<not> bs ! i \<and> i + n \<le> length bs \<and> (\<forall>j < n. \<not> bs ! (i + j))"

lemma le_takeWhile_iff:
  "n \<le> length (takeWhile P xs) \<longleftrightarrow> n \<le> length xs \<and> (\<forall>j < n. P (xs ! j))"
proof (induction xs arbitrary: n)
  case (Cons x xs)
  then show ?case by (cases n) (auto simp: all_less_Suc_conv)
qed auto

lemma fits_0: "fits n (b # bs) 0 \<longleftrightarrow> \<not> b \<and> n \<le> length (takeWhile Not (b # bs))"
  unfolding le_takeWhile_iff by (auto simp: fits_def)

lemma fits_Suc: "fits n (b # bs) (Suc i) = fits n bs i"
  by (simp add: fits_def)

lemma first_fit_Some: "first_fit n bs = Some i \<longleftrightarrow> fits n bs i \<and> (\<forall>j < i. \<not> fits n bs j)"
proof (induction bs arbitrary: i)
  case (Cons b bs)
  show ?case
  proof (cases "fits n (b # bs) 0")
    case True
    then show ?thesis using fits_0 [of n b bs] by auto
  next
    case False
    then have "first_fit n (b # bs) = map_option Suc (first_fit n bs)" using fits_0 [of n b bs] by auto
    then show ?thesis using Cons False by (cases i) (auto simp: fits_Suc all_less_Suc_conv)
  qed
qed (simp add: fits_def)

lemma first_fit_None: "first_fit n bs = None \<longleftrightarrow> (\<forall>i. \<not> fits n bs i)"
proof (induction bs)
  case (Cons b bs)
  have "(\<forall>i. \<not> fits n (b # bs) i) \<longleftrightarrow> \<not> fits n (b # bs) 0 \<and> (\<forall>i. \<not> fits n bs i)"
    using fits_Suc by (metis not0_implies_Suc)
  then show ?case using Cons fits_0 [of n b bs] by auto
qed (simp add: fits_def)

text \<open>A run of free blocks that is too short, and the allocated block after it, can be skipped.\<close>

lemma first_fit_skip:
  assumes "c = length (takeWhile Not bs)" "c < n"
  shows "first_fit n bs = (if c < length bs then map_option (\<lambda>i. i + Suc c) (first_fit n (drop (Suc c) bs)) else None)"
  using assms
proof (induction bs arbitrary: c)
  case (Cons b bs)
  show ?case
  proof (cases b)
    case True
    then show ?thesis using Cons.prems by simp
  next
    case False
    then obtain c' where c': "c = Suc c'" "c' = length (takeWhile Not bs)" using Cons.prems(1) by simp
    then show ?thesis using Cons.IH [OF c'(2)] Cons.prems False
      by (auto simp: option.map_comp comp_def)
  qed
qed simp

subsection \<open>The search refines first fit\<close>

lemma nodes_upd_node [simp]: "nodes (upd_node p f h) = (nodes h)(p := f (nodes h p))"
  by (simp add: upd_node_def)

lemma upd_node_frame [simp]:
  "memory_region (upd_node p f h) = memory_region h" "hmem (upd_node p f h) = hmem h"
  "total_region_size_g (upd_node p f h) = total_region_size_g h"
  "mem_lock_alloc (upd_node p f h) = mem_lock_alloc h" "mem_lock_free (upd_node p f h) = mem_lock_free h"
  "heap_active (upd_node p f h) = heap_active h" "memory_region_end (upd_node p f h) = memory_region_end h"
  by (simp_all add: upd_node_def)

lemma free_run_spec:
  assumes "hchain h p ps"
  shows "snd (free_run h p k) = min k (length (takeWhile Not (bits h ps)))"
    "hchain h (fst (free_run h p k)) (drop (snd (free_run h p k)) ps)"
proof -
  have "snd (free_run h p k) = min k (length (takeWhile Not (bits h ps)))
    \<and> hchain h (fst (free_run h p k)) (drop (snd (free_run h p k)) ps)"
    using assms
  proof (induction k arbitrary: p ps)
    case (Suc k)
    then show ?case by (cases ps) (auto simp: case_prod_beta)
  qed simp
  then show "snd (free_run h p k) = min k (length (takeWhile Not (bits h ps)))"
    "hchain h (fst (free_run h p k)) (drop (snd (free_run h p k)) ps)" by blast+
qed

lemma mark_blocks_frame [simp]:
  "memory_region (mark_blocks k i n p h) = memory_region h" "hmem (mark_blocks k i n p h) = hmem h"
  "total_region_size_g (mark_blocks k i n p h) = total_region_size_g h"
  "mem_lock_alloc (mark_blocks k i n p h) = mem_lock_alloc h" "mem_lock_free (mark_blocks k i n p h) = mem_lock_free h"
  "heap_active (mark_blocks k i n p h) = heap_active h" "memory_region_end (mark_blocks k i n p h) = memory_region_end h"
  by (induction k arbitrary: i p h) simp_all

lemma mark_blocks_nodes:
  assumes "hchain h p ps" "k \<le> length ps"
  shows "nodes (mark_blocks k i nd p h) x =
    (if x \<in> set (take k ps)
     then (nodes h x)\<lparr>allocated := True, first_block := (i = 0 \<and> x = p), num_block_used := nd\<rparr> else nodes h x)"
  using assms
proof (induction k arbitrary: i p h ps)
  case (Suc k)
  then obtain qs where ps: "ps = p # qs" "p \<noteq> 0" "hchain h (n_next (nodes h p)) qs" by (cases ps) auto
  define h1 where "h1 = upd_node p (\<lambda>n. n\<lparr>allocated := True, first_block := (i = 0), num_block_used := nd\<rparr>) h"
  have "distinct ps" using hchain_distinct Suc.prems(1) by blast
  then have pq: "p \<notin> set qs" using ps by simp
  have "hchain h1 (n_next (nodes h p)) qs" by (rule hchain_cong [OF ps(3)]) (simp add: h1_def)
  then have "nodes (mark_blocks k (Suc i) nd (n_next (nodes h p)) h1) x =
    (if x \<in> set (take k qs)
     then (nodes h1 x)\<lparr>allocated := True, first_block := False, num_block_used := nd\<rparr> else nodes h1 x)"
    using Suc.IH [of h1 "n_next (nodes h p)" qs "Suc i"] Suc.prems(2) ps by simp
  then show ?case using pq by (auto simp: ps(1) h1_def dest: in_set_takeD)
qed simp

text \<open>An allocated last block stops the search for good.\<close>

lemma find_stuck:
  assumes "p \<noteq> 0" "allocated (nodes h p)" "n_next (nodes h p) = 0"
  shows "find_free_zone p sz n h = None"
proof (rule ccontr)
  assume "find_free_zone p sz n h \<noteq> None"
  then obtain r where "find_free_zone p sz n h = Some r" by blast
  then have "\<not> (p \<noteq> 0 \<and> allocated (nodes h p) \<and> n_next (nodes h p) = 0)"
  proof (rule find_free_zone.raw_induct [where P = "\<lambda>p sz n h r. \<not> (p \<noteq> 0 \<and> allocated (nodes h p) \<and> n_next (nodes h p) = 0)", rotated])
    fix f :: "addr \<Rightarrow> u32 \<Rightarrow> nat \<Rightarrow> kheap \<Rightarrow> (addr \<times> kheap) option" and p sz n h r
    assume IH: "\<And>p sz n h r. f p sz n h = Some r \<Longrightarrow> \<not> (p \<noteq> 0 \<and> allocated (nodes h p) \<and> n_next (nodes h p) = 0)"
      and e: "(if p = 0 then Some (0, h)
        else if \<not> allocated (nodes h p) then
          let h = upd_node p (\<lambda>n. n\<lparr>total_requested_memory := sz\<rparr>) h; (q, count) = free_run h p n
          in if n \<le> count then Some (n_addr (nodes h p), mark_blocks n 0 (of_nat n) p h) else f (advance h q) sz n h
        else f (advance h p) sz n h) = Some r"
    show "\<not> (p \<noteq> 0 \<and> allocated (nodes h p) \<and> n_next (nodes h p) = 0)"
      using IH [of p sz n h r] e by (auto simp: advance_def)
  qed
  then show False using assms by blast
qed

text \<open>What the search may change before it succeeds: the recorded size of free blocks.\<close>

definition touched :: "kheap \<Rightarrow> kheap \<Rightarrow> bool" where
  "touched h h' \<longleftrightarrow> (\<exists>nd. h' = h\<lparr>nodes := nd\<rparr>) \<and> (\<forall>x. nodes h' x = nodes h x
     \<or> \<not> allocated (nodes h x) \<and> (\<exists>v. nodes h' x = (nodes h x)\<lparr>total_requested_memory := v\<rparr>))"

lemma touched_refl: "touched h h"
  unfolding touched_def by (metis kheap.surjective kheap.update_convs(6))

lemma touched_trans: "touched h h1 \<Longrightarrow> touched h1 h2 \<Longrightarrow> touched h h2"
proof -
  assume a: "touched h h1" and b: "touched h1 h2"
  have "\<exists>nd. h2 = h\<lparr>nodes := nd\<rparr>" using a b unfolding touched_def by auto
  moreover have "nodes h2 x = nodes h x
     \<or> \<not> allocated (nodes h x) \<and> (\<exists>v. nodes h2 x = (nodes h x)\<lparr>total_requested_memory := v\<rparr>)" for x
    using a b unfolding touched_def by (elim conjE allE [of _ x]) auto
  ultimately show ?thesis unfolding touched_def by blast
qed

lemma touched_upd:
  "\<not> allocated (nodes h p) \<Longrightarrow> touched h (upd_node p (\<lambda>n. n\<lparr>total_requested_memory := v\<rparr>) h)"
  unfolding touched_def by (auto simp: upd_node_def)

lemma touched_node:
  assumes "touched h h'"
  shows "n_addr (nodes h' x) = n_addr (nodes h x)" "n_next (nodes h' x) = n_next (nodes h x)"
    "allocated (nodes h' x) = allocated (nodes h x)" "first_block (nodes h' x) = first_block (nodes h x)"
    "num_block_used (nodes h' x) = num_block_used (nodes h x)" "n_size (nodes h' x) = n_size (nodes h x)"
  using assms unfolding touched_def by (elim conjE allE [of _ x]; auto)+

lemma touched_frame:
  assumes "touched h h'"
  shows "memory_region h' = memory_region h" "hmem h' = hmem h" "total_region_size_g h' = total_region_size_g h"
  using assms unfolding touched_def by auto

definition search_result :: "addr list \<Rightarrow> u32 \<Rightarrow> nat \<Rightarrow> kheap \<Rightarrow> (addr \<times> kheap) option \<Rightarrow> bool" where
  "search_result ps sz n h r \<longleftrightarrow>
     (case first_fit n (bits h ps) of
        Some i \<Rightarrow> \<exists>h1. touched h h1 \<and> total_requested_memory (nodes h1 (ps ! i)) = sz
                    \<and> r = Some (n_addr (nodes h (ps ! i)), mark_blocks n 0 (of_nat n) (ps ! i) h1)
      | None \<Rightarrow> if ps \<noteq> [] \<and> allocated (nodes h (last ps)) then r = None
                else \<exists>h1. touched h h1 \<and> r = Some (0, h1))"

lemma search_result_shift:
  assumes t: "touched h h1" and r: "search_result (drop (Suc c) ps) sz n h1 r"
    and f: "first_fit n (bits h ps) = map_option (\<lambda>i. i + Suc c) (first_fit n (drop (Suc c) (bits h ps)))"
    and c: "Suc c < length ps"
  shows "search_result ps sz n h r"
proof -
  note N = touched_node [OF t]
  have b: "bits h1 (drop (Suc c) ps) = drop (Suc c) (bits h ps)" by (simp add: N(3) drop_map)
  have l: "last (drop (Suc c) ps) = last ps" "drop (Suc c) ps \<noteq> []" "ps \<noteq> []" using c by auto
  show ?thesis
  proof (cases "first_fit n (drop (Suc c) (bits h ps))")
    case None
    then show ?thesis using r f c touched_trans [OF t] unfolding search_result_def b by (auto simp: l N(3))
  next
    case (Some i)
    then obtain h2 where "touched h1 h2" "total_requested_memory (nodes h2 (drop (Suc c) ps ! i)) = sz"
      "r = Some (n_addr (nodes h1 (drop (Suc c) ps ! i)), mark_blocks n 0 (of_nat n) (drop (Suc c) ps ! i) h2)"
      using r unfolding search_result_def b by auto
    moreover have "drop (Suc c) ps ! i = ps ! (i + Suc c)" using c by (simp add: add.commute)
    ultimately show ?thesis using Some f touched_trans [OF t] unfolding search_result_def by (auto simp: N(1))
  qed
qed

lemma find_free_zone_spec:
  assumes "hchain h p ps"
  shows "search_result ps sz n h (find_free_zone p sz n h)"
  using assms
proof (induction "length ps" arbitrary: h p ps rule: less_induct)
  case less
  show ?case
  proof (cases ps)
    case Nil
    then have "find_free_zone p sz n h = Some (0, h)" using less.prems by (subst find_free_zone.simps) simp
    then show ?thesis using Nil touched_refl by (auto simp: search_result_def)
  next
    case (Cons x qs)
    then have x: "p = x" "x \<noteq> 0" "hchain h (n_next (nodes h x)) qs" using less.prems by auto
    define h1 where "h1 = (if allocated (nodes h x) then h else upd_node x (\<lambda>m. m\<lparr>total_requested_memory := sz\<rparr>) h)"
    have t: "touched h h1" using touched_refl touched_upd by (simp add: h1_def)
    note N = touched_node [OF t]
    have ch: "hchain h1 p ps" using less.prems by (rule hchain_cong) (simp add: N)
    define q where "q = (if allocated (nodes h x) then x else fst (free_run h1 x n))"
    define c where "c = (if allocated (nodes h x) then 0 else snd (free_run h1 x n))"
    have bs: "bits h1 ps = bits h ps" by (simp add: N)
    have qc: "hchain h1 q (drop c ps)" and cc: "\<not> allocated (nodes h x) \<Longrightarrow> c = min n (length (takeWhile Not (bits h ps)))"
      using free_run_spec [OF ch, of n] x(1) ch bs by (auto simp: q_def c_def)
    show ?thesis
    proof (cases "\<not> allocated (nodes h x) \<and> n \<le> c")
      case True
      then have "first_fit n (bits h ps) = Some 0" using cc Cons by auto
      moreover have h1: "upd_node x (\<lambda>m. m\<lparr>total_requested_memory := sz\<rparr>) h = h1" and c: "n \<le> snd (free_run h1 x n)"
        using True unfolding h1_def c_def by (simp_all split: if_splits)
      then have "find_free_zone p sz n h = Some (n_addr (nodes h x), mark_blocks n 0 (of_nat n) x h1)"
        using True x N(1) [of x] by (subst find_free_zone.simps) (simp add: h1 Let_def case_prod_beta)
      ultimately show ?thesis using t True Cons by (auto simp: search_result_def h1_def)
    next
      case False
      have go: "find_free_zone p sz n h = find_free_zone (advance h1 q) sz n h1"
      proof (cases "allocated (nodes h x)")
        case True
        then show ?thesis using x by (subst find_free_zone.simps) (simp add: h1_def q_def)
      next
        case nal: False
        then have h1: "upd_node x (\<lambda>m. m\<lparr>total_requested_memory := sz\<rparr>) h = h1" and c: "\<not> n \<le> snd (free_run h1 x n)"
          using False nal unfolding h1_def c_def by (simp_all split: if_splits)
        then show ?thesis using nal x by (subst find_free_zone.simps) (simp add: h1 q_def Let_def case_prod_beta)
      qed
      have c1: "c = length (takeWhile Not (bits h ps))" and full: "c < n \<or> allocated (nodes h x)"
        using False cc Cons by (auto simp: c_def)
      have f: "first_fit n (bits h ps) =
          (if c < length ps then map_option (\<lambda>i. i + Suc c) (first_fit n (drop (Suc c) (bits h ps))) else None)"
        using first_fit_skip [OF c1, of n] full Cons by (cases "allocated (nodes h x)") (auto simp: c_def)
      show ?thesis
      proof (cases "c < length ps")
        case False
        then have "q = 0" "c = length ps" using qc c1 length_takeWhile_le [of Not "bits h ps"] by auto
        then have r: "find_free_zone p sz n h = Some (0, h1)"
          unfolding go by (subst find_free_zone.simps) (simp add: advance_def)
        have "takeWhile Not (bits h ps) = bits h ps"
          using c1 \<open>c = length ps\<close> by (metis length_map takeWhile_eq_take take_all order_refl)
        then have "\<forall>b \<in> set (bits h ps). \<not> b" by (simp only: takeWhile_eq_all_conv)
        then have "\<not> allocated (nodes h (last ps))" using Cons last_in_set [of ps] by auto
        then show ?thesis using r t f False by (auto simp: search_result_def)
      next
        case True
        have nb: "allocated (nodes h (ps ! c))"
          using nth_length_takeWhile [of Not "bits h ps"] c1 True by simp
        have q: "q = ps ! c" "q \<noteq> 0" "hchain h1 (n_next (nodes h1 q)) (drop (Suc c) ps)"
          using qc True by (auto simp: Cons_nth_drop_Suc [symmetric])
        show ?thesis
        proof (cases "Suc c < length ps")
          case last: False
          then have "n_next (nodes h1 q) = 0" using q by simp
          then have "find_free_zone p sz n h = None"
            unfolding go using find_stuck [of q h1] q nb by (simp add: advance_def N)
          moreover have "length ps - 1 = c" "ps \<noteq> []" using last True by auto
          then have "last ps = ps ! c" "ps \<noteq> []" by (simp_all add: last_conv_nth)
          ultimately show ?thesis using f True last nb by (auto simp: search_result_def)
        next
          case more: True
          then have "n_next (nodes h1 q) \<noteq> 0" using q(3) by (metis hchain_0 drop_eq_Nil not_less)
          then have "find_free_zone p sz n h = find_free_zone (n_next (nodes h1 q)) sz n h1"
            unfolding go using q(2) by (simp add: advance_def)
          moreover have "search_result (drop (Suc c) ps) sz n h1 (find_free_zone (n_next (nodes h1 q)) sz n h1)"
            using less.hyps [OF _ q(3)] more by simp
          ultimately show ?thesis using search_result_shift [OF t _ _ more] f True by simp
        qed
      qed
    qed
  qed
qed

end
