(* ===== verification/KHeapInv.thy ===== *)
theory KHeapInv
  imports KHeapSearch
begin

text \<open>
  The invariant of the kernel heap and its preservation: every allocated block lies in exactly one run
  of blocks that carry the length of the run, \<open>sys_allocate_memory\<close> adds one run, \<open>sys_free_memory\<close> removes
  one, and \<open>init_memory_region\<close> builds a list without runs.
\<close>

subsection \<open>Allocations as runs of blocks\<close>

definition run_at :: "kheap \<Rightarrow> addr list \<Rightarrow> nat \<Rightarrow> nat \<Rightarrow> bool" where
  "run_at h ps i n \<longleftrightarrow> 0 < n \<and> i + n \<le> length ps
     \<and> (\<forall>k. i \<le> k \<longrightarrow> k < i + n \<longrightarrow> allocated (nodes h (ps ! k)) \<and> num_block_used (nodes h (ps ! k)) = of_nat n
          \<and> first_block (nodes h (ps ! k)) = (k = i))"

text \<open>
  The blocks lie one behind the other from \<open>base\<close> on; the last header may be the unused one behind
  the initialised headers, with address NULL.
\<close>

definition block_addrs :: "kheap \<Rightarrow> addr list \<Rightarrow> addr \<Rightarrow> bool" where
  "block_addrs h ps base \<longleftrightarrow> 0 < unat base \<and> unat base + 1024 * length ps < 2 ^ 32
     \<and> (\<forall>i < length ps. n_addr (nodes h (ps ! i)) = base + of_nat (1024 * i)
          \<or> Suc i = length ps \<and> n_addr (nodes h (ps ! i)) = 0)"

definition heap_ok :: "kheap \<Rightarrow> addr list \<Rightarrow> addr \<Rightarrow> bool" where
  "heap_ok h ps base \<longleftrightarrow> hchain h (memory_region h) ps \<and> ps \<noteq> [] \<and> block_addrs h ps base
     \<and> (\<forall>k < length ps. allocated (nodes h (ps ! k)) \<longrightarrow> (\<exists>i n. run_at h ps i n \<and> i \<le> k \<and> k < i + n))"

definition live_at :: "kheap \<Rightarrow> addr list \<Rightarrow> (addr \<times> nat) set" where
  "live_at h ps = {(a, n). a \<noteq> 0 \<and> (\<exists>i. run_at h ps i n \<and> n_addr (nodes h (ps ! i)) = a)}"

lemma heap_ok_len: "heap_ok h ps base \<Longrightarrow> length ps < 2 ^ 32"
  by (simp add: heap_ok_def block_addrs_def)

lemma run_atD:
  assumes "run_at h ps i n" "i \<le> k" "k < i + n"
  shows "allocated (nodes h (ps ! k))" "num_block_used (nodes h (ps ! k)) = of_nat n"
    "first_block (nodes h (ps ! k)) = (k = i)" "k < length ps"
  using assms by (auto simp: run_at_def)

lemma run_overlap:
  assumes "run_at h ps i n" "run_at h ps i' n'" "i \<le> k" "k < i + n" "i' \<le> k" "k < i' + n'" "length ps < 2 ^ 32"
  shows "i = i' \<and> n = n'"
proof -
  define m where "m = max i i'"
  have r: "i \<le> m" "m < i + n" "i' \<le> m" "m < i' + n'" using assms by (auto simp: m_def)
  note A = run_atD [OF assms(1) r(1,2)] and B = run_atD [OF assms(2) r(3,4)]
  have "i = i'" using A(3) B(3) by (auto simp: m_def max_def split: if_splits)
  moreover have "(of_nat n :: u32) = of_nat n'" using A(2) B(2) by simp
  moreover have "n < 2 ^ 32" "n' < 2 ^ 32" using assms(1,2,7) by (simp_all add: run_at_def)
  ultimately show ?thesis using of_nat_inj_word [of n n', where 'a = 32] by simp
qed

lemma block_addr_unat:
  assumes "block_addrs h ps base" "i < length ps" "n_addr (nodes h (ps ! i)) \<noteq> 0"
  shows "unat (n_addr (nodes h (ps ! i))) = unat base + 1024 * i"
proof -
  have "n_addr (nodes h (ps ! i)) = base + of_nat (1024 * i)" using assms by (auto simp: block_addrs_def)
  moreover have "unat (base + of_nat (1024 * i)) = unat base + 1024 * i"
    using assms(1,2) by (simp add: block_addrs_def unat_word_ariths unat_of_nat_u32 unsigned_of_nat take_bit_nat_eq_self)
  ultimately show ?thesis by simp
qed

lemma block_addr_inj:
  assumes "block_addrs h ps base" "i < length ps" "j < length ps" "n_addr (nodes h (ps ! i)) = n_addr (nodes h (ps ! j))"
    "n_addr (nodes h (ps ! i)) \<noteq> 0"
  shows "i = j"
proof -
  have "unat base + 1024 * i = unat base + 1024 * j"
    using block_addr_unat [OF assms(1,2,5)] block_addr_unat [OF assms(1,3)] assms(4,5) by metis
  then show ?thesis by simp
qed

text \<open>Distinct allocations occupy disjoint memory.\<close>

lemma region_disj_unat:
  assumes "unat a + n \<le> unat b" "unat b + m < 2 ^ 32"
  shows "region a n \<inter> region b m = {}"
proof (rule ccontr)
  assume "region a n \<inter> region b m \<noteq> {}"
  then obtain i j where ij: "i < n" "j < m" "a + of_nat i = b + of_nat j" by (auto simp: region_mem)
  have "unat (a + of_nat i) = unat a + i" "unat (b + of_nat j) = unat b + j"
    using assms ij(1,2) by (simp_all add: unat_word_ariths unat_of_nat_u32)
  then have "unat a + i = unat b + j" using ij(3) by metis
  then show False using ij(1,2) assms by simp
qed

lemma live_disjoint:
  assumes ok: "heap_ok h ps base" and l: "(a, n) \<in> live_at h ps" "(b, m) \<in> live_at h ps" and ne: "(a, n) \<noteq> (b, m)"
  shows "region a (1024 * n) \<inter> region b (1024 * m) = {}"
proof -
  obtain i j where i: "run_at h ps i n" "n_addr (nodes h (ps ! i)) = a" "a \<noteq> 0"
    and j: "run_at h ps j m" "n_addr (nodes h (ps ! j)) = b" "b \<noteq> 0" using l by (auto simp: live_at_def)
  have b: "block_addrs h ps base" and len: "length ps < 2 ^ 32" using ok heap_ok_len by (auto simp: heap_ok_def)
  have u: "unat a = unat base + 1024 * i" "unat b = unat base + 1024 * j" "i + n \<le> length ps" "j + m \<le> length ps"
    "unat base + 1024 * length ps < 2 ^ 32"
    using block_addr_unat [OF b, of i] block_addr_unat [OF b, of j] i j b by (auto simp: run_at_def block_addrs_def)
  have "i + n \<le> j \<or> j + m \<le> i"
  proof (rule ccontr)
    assume "\<not> (i + n \<le> j \<or> j + m \<le> i)"
    then have "i = j \<and> n = m" using run_overlap [OF i(1) j(1) _ _ _ _ len, of "max i j"] i(1) j(1) by (auto simp: run_at_def)
    then show False using ne i j by simp
  qed
  then show ?thesis
  proof
    assume "i + n \<le> j"
    then show ?thesis using u by (intro region_disj_unat) auto
  next
    assume "j + m \<le> i"
    then have "region b (1024 * m) \<inter> region a (1024 * n) = {}" using u by (intro region_disj_unat) auto
    then show ?thesis by blast
  qed
qed

subsection \<open>Allocation\<close>

lemma run_at_cong:
  assumes "run_at h ps i n" "\<And>k. i \<le> k \<Longrightarrow> k < i + n \<Longrightarrow> allocated (nodes h' (ps ! k)) = allocated (nodes h (ps ! k))
    \<and> num_block_used (nodes h' (ps ! k)) = num_block_used (nodes h (ps ! k)) \<and> first_block (nodes h' (ps ! k)) = first_block (nodes h (ps ! k))"
  shows "run_at h' ps i n"
  using assms by (simp add: run_at_def)

text \<open>Marking the free blocks \<open>i, \<dots>, i + n - 1\<close> adds the run \<open>(i, n)\<close>.\<close>

lemma mark_runs:
  assumes ok: "heap_ok h ps base" and i: "i + n \<le> length ps" and free: "\<And>k. i \<le> k \<Longrightarrow> k < i + n \<Longrightarrow> \<not> allocated (nodes h (ps ! k))"
    and new: "\<And>k. k < length ps \<Longrightarrow> allocated (nodes h' (ps ! k)) = (i \<le> k \<and> k < i + n \<or> allocated (nodes h (ps ! k)))
      \<and> num_block_used (nodes h' (ps ! k)) = (if i \<le> k \<and> k < i + n then of_nat n else num_block_used (nodes h (ps ! k)))
      \<and> first_block (nodes h' (ps ! k)) = (if i \<le> k \<and> k < i + n then k = i else first_block (nodes h (ps ! k)))"
  shows "run_at h' ps j m \<longleftrightarrow> run_at h ps j m \<or> j = i \<and> m = n \<and> 0 < n"
proof
  assume r: "run_at h' ps j m"
  have len: "length ps < 2 ^ 32" using ok by (rule heap_ok_len)
  show "run_at h ps j m \<or> j = i \<and> m = n \<and> 0 < n"
  proof (cases "\<exists>k. i \<le> k \<and> k < i + n \<and> j \<le> k \<and> k < j + m")
    case True
    then obtain k where k: "i \<le> k" "k < i + n" "j \<le> k" "k < j + m" by blast
    then have "run_at h' ps i n" using i new by (auto simp: run_at_def)
    then show ?thesis using run_overlap [OF _ r k len] k by auto
  next
    case False
    have "run_at h ps j m"
    proof (rule run_at_cong [OF r])
      fix k assume k: "j \<le> k" "k < j + m"
      have "\<not> (i \<le> k \<and> k < i + n)" using False k by blast
      then show "allocated (nodes h (ps ! k)) = allocated (nodes h' (ps ! k))
        \<and> num_block_used (nodes h (ps ! k)) = num_block_used (nodes h' (ps ! k))
        \<and> first_block (nodes h (ps ! k)) = first_block (nodes h' (ps ! k))"
        using new [OF run_atD(4) [OF r k]] by auto
    qed
    then show ?thesis by simp
  qed
next
  assume "run_at h ps j m \<or> j = i \<and> m = n \<and> 0 < n"
  then show "run_at h' ps j m"
  proof
    assume r: "run_at h ps j m"
    show ?thesis
    proof (rule run_at_cong [OF r])
      fix k assume k: "j \<le> k" "k < j + m"
      have "\<not> (i \<le> k \<and> k < i + n)" using free run_atD(1) [OF r k] by blast
      then show "allocated (nodes h' (ps ! k)) = allocated (nodes h (ps ! k))
        \<and> num_block_used (nodes h' (ps ! k)) = num_block_used (nodes h (ps ! k))
        \<and> first_block (nodes h' (ps ! k)) = first_block (nodes h (ps ! k))"
        using new [OF run_atD(4) [OF r k]] by auto
    qed
  qed (use i new in \<open>auto simp: run_at_def\<close>)
qed

text \<open>Clearing the blocks of a run removes exactly that run.\<close>

lemma clear_runs:
  assumes ok: "heap_ok h ps base" and r: "run_at h ps i n"
    and new: "\<And>k. k < length ps \<Longrightarrow> \<not> (i \<le> k \<and> k < i + n) \<Longrightarrow> nodes h' (ps ! k) = nodes h (ps ! k)"
    and gone: "\<And>k. i \<le> k \<Longrightarrow> k < i + n \<Longrightarrow> \<not> allocated (nodes h' (ps ! k))"
  shows "run_at h' ps j m \<longleftrightarrow> run_at h ps j m \<and> \<not> (j = i \<and> m = n)"
proof
  assume q: "run_at h' ps j m"
  then have off: "\<not> (i \<le> k \<and> k < i + n)" if "j \<le> k" "k < j + m" for k
    using gone run_atD(1) [OF q that] by blast
  have "run_at h ps j m" by (rule run_at_cong [OF q]) (use new off run_atD(4) [OF q] in simp)
  moreover have "\<not> (j = i \<and> m = n)" using off [of j] q by (auto simp: run_at_def)
  ultimately show "run_at h ps j m \<and> \<not> (j = i \<and> m = n)" by blast
next
  assume q: "run_at h ps j m \<and> \<not> (j = i \<and> m = n)"
  then have "\<not> (i \<le> k \<and> k < i + n)" if "j \<le> k" "k < j + m" for k
    using run_overlap [OF r _ _ _ _ _ heap_ok_len [OF ok], of j m k] that by blast
  moreover from q have r': "run_at h ps j m" by blast
  ultimately show "run_at h' ps j m"
    by (intro run_at_cong [OF r']) (use new run_atD(4) [OF r'] in simp)
qed

lemma nth_in_take_drop:
  assumes "distinct ps" "k < length ps" "i + n \<le> length ps"
  shows "ps ! k \<in> set (take n (drop i ps)) \<longleftrightarrow> i \<le> k \<and> k < i + n"
proof
  assume "ps ! k \<in> set (take n (drop i ps))"
  then obtain j where "j < n" "i + j < length ps" "ps ! k = ps ! (i + j)" using assms(3) by (auto simp: in_set_conv_nth)
  then have "k = i + j" using assms by (simp add: nth_eq_iff_index_eq)
  then show "i \<le> k \<and> k < i + n" using \<open>j < n\<close> by simp
next
  assume "i \<le> k \<and> k < i + n"
  then have "k - i < n" "take n (drop i ps) ! (k - i) = ps ! k" "k - i < length (take n (drop i ps))"
    using assms by auto
  then show "ps ! k \<in> set (take n (drop i ps))" by (metis nth_mem)
qed

lemma touched_runs: "touched h h1 \<Longrightarrow> run_at h1 ps i n = run_at h ps i n"
  by (simp add: run_at_def touched_node)

lemma touched_ok: "touched h h1 \<Longrightarrow> heap_ok h ps base \<Longrightarrow> heap_ok h1 ps base"
  using hchain_cong [of h "memory_region h" ps h1]
  by (simp add: heap_ok_def block_addrs_def touched_runs touched_node touched_frame)

lemma touched_live: "touched h h1 \<Longrightarrow> live_at h1 ps = live_at h ps"
  by (simp add: live_at_def touched_runs touched_node)

text \<open>Marking the blocks found by the search.\<close>

lemma mark_ok:
  assumes ok: "heap_ok h ps base" and n: "0 < n" "i + n \<le> length ps"
    and free: "\<And>k. i \<le> k \<Longrightarrow> k < i + n \<Longrightarrow> \<not> allocated (nodes h (ps ! k))"
  defines "h' \<equiv> mark_blocks n 0 (of_nat n) (ps ! i) h"
  shows "heap_ok h' ps base"
    "live_at h' ps = (if n_addr (nodes h (ps ! i)) = 0 then live_at h ps
       else insert (n_addr (nodes h (ps ! i)), n) (live_at h ps))"
proof -
  have hc: "hchain h (memory_region h) ps" using ok by (simp add: heap_ok_def)
  have hd: "hchain h (ps ! i) (drop i ps)" using hchain_drop [OF hc, of i] n by simp
  have nd: "nodes h' (ps ! k) = (if i \<le> k \<and> k < i + n
      then (nodes h (ps ! k))\<lparr>allocated := True, first_block := (k = i), num_block_used := of_nat n\<rparr>
      else nodes h (ps ! k))" if "k < length ps" for k
    using mark_blocks_nodes [OF hd, of n 0 "of_nat n" "ps ! k"] nth_in_take_drop [OF hchain_distinct [OF hc] that n(2)]
      nth_eq_iff_index_eq [OF hchain_distinct [OF hc] that, of i] n by (simp add: h'_def)
  have runs: "run_at h' ps j m \<longleftrightarrow> run_at h ps j m \<or> j = i \<and> m = n \<and> 0 < n" for j m
    by (rule mark_runs [OF ok n(2)]) (use nd free in \<open>auto simp: nd\<close>)
  have ad: "n_addr (nodes h' (ps ! k)) = n_addr (nodes h (ps ! k))" if "k < length ps" for k using nd [OF that] by simp
  have "hchain h' (memory_region h) ps"
    by (rule hchain_cong [OF hc]) (use nd in \<open>auto simp: in_set_conv_nth\<close>)
  moreover have "block_addrs h' ps base" using ok by (simp add: heap_ok_def block_addrs_def ad)
  moreover have "\<exists>j m. run_at h' ps j m \<and> j \<le> k \<and> k < j + m" if k: "k < length ps" "allocated (nodes h' (ps ! k))" for k
  proof (cases "i \<le> k \<and> k < i + n")
    case True
    then show ?thesis using runs [of i n] n by blast
  next
    case False
    then have "allocated (nodes h (ps ! k))" using nd [OF k(1)] k(2) by (auto split: if_splits)
    then show ?thesis using ok k(1) runs unfolding heap_ok_def by blast
  qed
  ultimately show "heap_ok h' ps base" using ok by (simp add: heap_ok_def h'_def)
  have "i < length ps" using n by simp
  have "run_at h ps j m \<Longrightarrow> j < length ps" for j m by (auto simp: run_at_def)
  then show "live_at h' ps = (if n_addr (nodes h (ps ! i)) = 0 then live_at h ps
       else insert (n_addr (nodes h (ps ! i)), n) (live_at h ps))"
    using runs ad \<open>i < length ps\<close> n(1) unfolding live_at_def by (auto 4 4)
qed

lemma alloc_ok:
  assumes ok: "heap_ok h ps base" and e: "sys_allocate_memory sz h = Some (a, h')"
  shows "heap_ok h' ps base"
    "live_at h' ps = (if a \<noteq> 0 \<and> 0 < blocks_needed sz then insert (a, blocks_needed sz) (live_at h ps) else live_at h ps)"
    "hmem h' = hmem h"
proof -
  define n where "n = blocks_needed sz"
  obtain p qs where ps: "ps = p # qs" using ok by (cases ps) (auto simp: heap_ok_def)
  have hc: "hchain h (n_next (nodes h (memory_region h))) qs" using ok ps by (simp add: heap_ok_def)
  have "heap_ok h' ps base \<and> live_at h' ps = (if a \<noteq> 0 \<and> 0 < n then insert (a, n) (live_at h ps) else live_at h ps) \<and> hmem h' = hmem h"
  proof (cases "sz \<ge> total_region_size_g h")
    case True
    then show ?thesis using e ok by (simp add: sys_allocate_memory_def)
  next
    case False
    then have r: "search_result qs sz n h (Some (a, h'))"
      using e find_free_zone_spec [OF hc, of sz n] by (simp add: sys_allocate_memory_def n_def)
    show ?thesis
    proof (cases "first_fit n (bits h qs)")
      case None
      then have "touched h h'" "a = 0" using r by (auto simp: search_result_def split: if_splits)
      then show ?thesis using touched_ok [OF _ ok] touched_live touched_frame by auto
    next
      case (Some i)
      then obtain h1 where h1: "touched h h1" "a = n_addr (nodes h (qs ! i))" "h' = mark_blocks n 0 (of_nat n) (qs ! i) h1"
        using r by (auto simp: search_result_def)
      have q: "qs ! i = ps ! Suc i" by (simp add: ps)
      have f: "fits n (bits h qs) i" using Some by (simp add: first_fit_Some)
      show ?thesis
      proof (cases n)
        case 0
        then show ?thesis using h1 touched_ok [OF h1(1) ok] touched_live touched_frame by simp
      next
        case (Suc n')
        have fr: "\<not> allocated (nodes h1 (ps ! k))" if k: "Suc i \<le> k" "k < Suc i + n" for k
        proof -
          obtain j where j: "k = Suc i + j" using k(1) by (metis le_iff_add)
          then have "j < n" using k(2) by simp
          then have "\<not> bits h qs ! (i + j)" "i + j < length qs" using f by (auto simp: fits_def)
          then show ?thesis using j ps touched_node(3) [OF h1(1)] by simp
        qed
        have l: "Suc i + n \<le> length ps" "0 < n" using f Suc by (auto simp: fits_def ps)
        have M: "heap_ok h' ps base"
            "live_at h' ps = (if n_addr (nodes h1 (ps ! Suc i)) = 0 then live_at h1 ps
               else insert (n_addr (nodes h1 (ps ! Suc i)), n) (live_at h1 ps))"
          using mark_ok [OF touched_ok [OF h1(1) ok] l(2,1)] fr unfolding h1(3) q by blast+
        show ?thesis
          using M h1 q l touched_live [OF h1(1)] touched_node(1) [OF h1(1)] touched_frame [OF h1(1)] by simp
      qed
    qed
  qed
  then show "heap_ok h' ps base"
    "live_at h' ps = (if a \<noteq> 0 \<and> 0 < blocks_needed sz then insert (a, blocks_needed sz) (live_at h ps) else live_at h ps)"
    "hmem h' = hmem h" by (auto simp: n_def)
qed

subsection \<open>Release\<close>

lemma find_node_spec:
  "hchain h p ps \<Longrightarrow> find_node h a p = Some (case find (\<lambda>x. n_addr (nodes h x) = a) ps of None \<Rightarrow> 0 | Some x \<Rightarrow> x)"
proof (induction ps arbitrary: p)
  case Nil
  then show ?case by (subst find_node.simps) simp
next
  case (Cons x ps)
  then show ?case by (subst find_node.simps) auto
qed

lemma free_blocks_frame [simp]:
  "memory_region (free_blocks k p h) = memory_region h" "hmem (free_blocks k p h) = hmem h"
  "total_region_size_g (free_blocks k p h) = total_region_size_g h"
  by (induction k arbitrary: p h) simp_all

lemma free_blocks_nodes:
  assumes "hchain h p ps" "k \<le> length ps"
  shows "nodes (free_blocks k p h) x =
    (if x \<in> set (take k ps)
     then (nodes h x)\<lparr>allocated := False, first_block := False, num_block_used := 0, total_requested_memory := 0\<rparr>
     else nodes h x)"
  using assms
proof (induction k arbitrary: p h ps)
  case (Suc k)
  then obtain qs where ps: "ps = p # qs" "p \<noteq> 0" "hchain h (n_next (nodes h p)) qs" by (cases ps) auto
  define h1 where "h1 = upd_node p (\<lambda>n. n\<lparr>allocated := False, first_block := False, num_block_used := 0, total_requested_memory := 0\<rparr>) h"
  have pq: "p \<notin> set qs" using hchain_distinct [OF Suc.prems(1)] ps by simp
  have "hchain h1 (n_next (nodes h p)) qs" by (rule hchain_cong [OF ps(3)]) (simp add: h1_def)
  then show ?case using Suc.IH [of h1 "n_next (nodes h p)" qs] Suc.prems(2) ps pq
    by (auto simp: h1_def dest: in_set_takeD)
qed simp

lemma free_ok:
  assumes ok: "heap_ok h ps base" and l: "(a, n) \<in> live_at h ps"
  shows "\<exists>h'. sys_free_memory a h = Some (0, h') \<and> heap_ok h' ps base \<and> live_at h' ps = live_at h ps - {(a, n)} \<and> hmem h' = hmem h"
proof -
  obtain i where i: "run_at h ps i n" "n_addr (nodes h (ps ! i)) = a" "a \<noteq> 0" using l by (auto simp: live_at_def)
  have hc: "hchain h (memory_region h) ps" and ba: "block_addrs h ps base" using ok by (simp_all add: heap_ok_def)
  have il: "i < length ps" "i + n \<le> length ps" "0 < n" using i(1) by (auto simp: run_at_def)
  have "find (\<lambda>x. n_addr (nodes h x) = a) ps = Some (ps ! i)"
    unfolding find_Some_iff using il(1) i(2,3) block_addr_inj [OF ba _ il(1)]
    by (intro exI [of _ i]) (metis less_trans less_irrefl)
  then have fn: "find_node h a (memory_region h) = Some (ps ! i)" using find_node_spec [OF hc] by simp
  define h' where "h' = free_blocks n (ps ! i) h"
  have "n < 2 ^ 32" using il heap_ok_len [OF ok] by simp
  then have nn: "unat (num_block_used (nodes h (ps ! i))) = n"
    using run_atD(2) [OF i(1), of i] il by (simp add: unat_of_nat_u32)
  have "ps ! i \<noteq> 0" "allocated (nodes h (ps ! i))"
    using hchain_nonzero [OF hc] il(1) run_atD(1) [OF i(1), of i] il by auto
  then have e: "sys_free_memory a h = Some (0, h')" using fn nn by (simp add: sys_free_memory_def h'_def)
  have hd: "hchain h (ps ! i) (drop i ps)" using hchain_drop [OF hc il(1)] .
  have nd: "nodes h' (ps ! k) = (if i \<le> k \<and> k < i + n
      then (nodes h (ps ! k))\<lparr>allocated := False, first_block := False, num_block_used := 0, total_requested_memory := 0\<rparr>
      else nodes h (ps ! k))" if "k < length ps" for k
    using free_blocks_nodes [OF hd, of n "ps ! k"] nth_in_take_drop [OF hchain_distinct [OF hc] that il(2)] il by (simp add: h'_def)
  have runs: "run_at h' ps j m \<longleftrightarrow> run_at h ps j m \<and> \<not> (j = i \<and> m = n)" for j m
    by (rule clear_runs [OF ok i(1)]) (use nd il in auto)
  have ad: "n_addr (nodes h' (ps ! k)) = n_addr (nodes h (ps ! k))" if "k < length ps" for k using nd [OF that] by simp
  have "hchain h' (memory_region h) ps"
    by (rule hchain_cong [OF hc]) (use nd in \<open>auto simp: in_set_conv_nth\<close>)
  moreover have "block_addrs h' ps base" using ba by (simp add: block_addrs_def ad)
  moreover have "\<exists>j m. run_at h' ps j m \<and> j \<le> k \<and> k < j + m" if k: "k < length ps" "allocated (nodes h' (ps ! k))" for k
  proof -
    have nk: "\<not> (i \<le> k \<and> k < i + n)" "allocated (nodes h (ps ! k))" using nd [OF k(1)] k(2) by (auto split: if_splits)
    then obtain j m where "run_at h ps j m" "j \<le> k" "k < j + m" using ok k(1) unfolding heap_ok_def by blast
    then show ?thesis using runs nk(1) by blast
  qed
  ultimately have "heap_ok h' ps base" using ok by (simp add: heap_ok_def h'_def)
  moreover have "live_at h' ps = live_at h ps - {(a, n)}"
  proof -
    have jl: "run_at h ps j m \<Longrightarrow> j < length ps" for j m by (auto simp: run_at_def)
    have E: "run_at h' ps j m \<and> n_addr (nodes h' (ps ! j)) = b
        \<longleftrightarrow> run_at h ps j m \<and> n_addr (nodes h (ps ! j)) = b \<and> \<not> (b = a \<and> m = n)" for j m b
    proof (cases "run_at h ps j m")
      case True
      then have "n_addr (nodes h (ps ! j)) = a \<longleftrightarrow> j = i" using block_addr_inj [OF ba _ il(1)] jl i by metis
      then show ?thesis using runs [of j m] ad [OF jl [OF True]] by auto
    qed (simp add: runs)
    have "(b, m) \<in> live_at h' ps \<longleftrightarrow> (b, m) \<in> live_at h ps - {(a, n)}" for b m
      unfolding live_at_def by (simp only: mem_Collect_eq prod.case Diff_iff E) auto
    then show ?thesis by auto
  qed
  ultimately show ?thesis using e by (auto simp: h'_def)
qed

text \<open>The headers written by the loop, apart from the two fields it leaves to others.\<close>

definition fresh_node :: "addr \<Rightarrow> addr \<Rightarrow> nat \<Rightarrow> nat \<Rightarrow> Node \<Rightarrow> bool" where
  "fresh_node cur st N i n \<longleftrightarrow> n_addr n = st + of_nat (1024 * Suc i) \<and> \<not> allocated n
     \<and> n_next n = (if Suc i < N - 1 then cur + of_nat (24 * Suc i) else 0)"

definition same_node :: "Node \<Rightarrow> Node \<Rightarrow> bool" where
  "same_node n m \<longleftrightarrow> n_addr n = n_addr m \<and> n_next n = n_next m \<and> allocated n = allocated m"

lemma init_nodes_region [simp]: "memory_region (init_nodes k i NN st lim cur h) = memory_region h"
  by (induction k arbitrary: i cur h) (simp_all add: Let_def)

lemma word_step_inj:
  assumes "unat (c :: u32) + 24 * i < 2 ^ 32" "unat c + 24 * j < 2 ^ 32" "c + of_nat (24 * i) = c + of_nat (24 * j)"
  shows "i = j"
proof -
  have "(of_nat (24 * i) :: u32) = of_nat (24 * j)" using assms(3) by simp
  then have "unat (of_nat (24 * i) :: u32) = unat (of_nat (24 * j) :: u32)" by simp
  then show ?thesis using assms(1,2) by (simp add: unat_of_nat_u32 del: of_nat_mult)
qed

lemma init_nodes_spec:
  assumes "unat cur + 24 * (j + k) < 2 ^ 32" "unat st + 1024 * Suc L < 2 ^ 32"
    "unat st + 1024 * L \<le> unat lim" "unat lim < unat st + 1024 * Suc L" "j + k < unat NN" "j \<le> L"
  shows "(\<forall>i. j \<le> i \<and> i < j + k \<and> i < L \<longrightarrow> fresh_node cur st (unat NN) i
        (nodes (init_nodes k (of_nat (Suc j)) NN st lim (cur + of_nat (24 * j)) h) (cur + of_nat (24 * i))))
     \<and> (\<forall>x. (\<forall>i. j \<le> i \<and> i < j + k \<and> i < L \<longrightarrow> x \<noteq> cur + of_nat (24 * i)) \<longrightarrow>
        same_node (nodes (init_nodes k (of_nat (Suc j)) NN st lim (cur + of_nat (24 * j)) h) x) (nodes h x))"
  using assms
proof (induction k arbitrary: j h)
  case 0
  then show ?case by (auto simp: same_node_def)
next
  case (Suc k)
  define a where "a = st + of_nat (1024 * Suc j)"
  have aw: "st + of_nat (Suc j) * BLOCK_SIZE = a" by (simp add: a_def BLOCK_SIZE_def algebra_simps)
  have "unat (of_nat (1024 * Suc j) :: u32) = 1024 * Suc j" using Suc.prems(2,6) by (intro unat_of_nat_u32) simp
  then have au: "unat a = unat st + 1024 * Suc j" unfolding a_def
    using Suc.prems(2,6) by (subst unat_add_lem [THEN iffD1]) (simp_all del: of_nat_mult of_nat_Suc)
  have lim: "a > lim \<longleftrightarrow> \<not> j < L" using au Suc.prems(3,4) by (auto simp: word_less_nat_alt)
  show ?case
  proof (cases "j < L")
    case False
    then show ?thesis using lim aw by (auto simp: same_node_def)
  next
    case True
    define h1 where "h1 = upd_node (cur + of_nat (24 * j)) (\<lambda>n. n\<lparr>n_addr := a, n_size := BLOCK_SIZE,
        n_next := (if of_nat (Suc j) < NN - 1 then cur + of_nat (24 * j) + sizeof_Node else 0),
        allocated := False, first_block := False, num_block_used := 0\<rparr>) h"
    define h2 where "h2 = (if (of_nat (Suc j) :: u32) mod 4 = 0 then h1\<lparr>mapped := mapped h1 @ [a]\<rparr> else h1)"
    have n2: "nodes h2 = nodes h1" by (simp add: h2_def)
    have e: "init_nodes (Suc k) (of_nat (Suc j)) NN st lim (cur + of_nat (24 * j)) h
        = init_nodes k (of_nat (Suc (Suc j))) NN st lim (cur + of_nat (24 * Suc j)) h2"
      using True lim aw by (simp add: h1_def h2_def Let_def sizeof_Node_def algebra_simps)
    have "unat (of_nat (Suc j) :: u32) = Suc j" using Suc.prems(5) u32_unat_less [of NN] by (intro unat_of_nat_u32) simp
    moreover have "unat (NN - 1) = unat NN - 1"
      using Suc.prems(5) by (metis unat_minus_one not_less_zero unat_eq_zero)
    ultimately have jn: "(of_nat (Suc j) :: u32) < NN - 1 \<longleftrightarrow> Suc j < unat NN - 1" by (simp add: word_less_nat_alt)
    have fr: "fresh_node cur st (unat NN) j (nodes h1 (cur + of_nat (24 * j)))"
      using jn by (simp add: fresh_node_def h1_def a_def sizeof_Node_def algebra_simps)
    have inj: "cur + of_nat (24 * i) \<noteq> cur + of_nat (24 * j)" if "Suc j \<le> i" "i < Suc j + k" for i
      using word_step_inj [of cur i j] that Suc.prems(1) by (auto simp del: of_nat_mult)
    note IH = Suc.IH [of "Suc j" h2]
    have I: "\<forall>i. Suc j \<le> i \<and> i < Suc j + k \<and> i < L \<longrightarrow> fresh_node cur st (unat NN) i
        (nodes (init_nodes k (of_nat (Suc (Suc j))) NN st lim (cur + of_nat (24 * Suc j)) h2) (cur + of_nat (24 * i)))"
      "\<forall>x. (\<forall>i. Suc j \<le> i \<and> i < Suc j + k \<and> i < L \<longrightarrow> x \<noteq> cur + of_nat (24 * i)) \<longrightarrow>
        same_node (nodes (init_nodes k (of_nat (Suc (Suc j))) NN st lim (cur + of_nat (24 * Suc j)) h2) x) (nodes h2 x)"
      using IH Suc.prems True by simp_all
    have J: "same_node (nodes (init_nodes k (of_nat (Suc (Suc j))) NN st lim (cur + of_nat (24 * Suc j)) h2) (cur + of_nat (24 * j)))
        (nodes h1 (cur + of_nat (24 * j)))" using I(2) inj n2 by metis
    show ?thesis unfolding e
    proof (intro conjI allI impI, goal_cases)
      case (1 i)
      then show ?case using I(1) J fr by (cases "i = j") (auto simp: same_node_def fresh_node_def)
    next
      case (2 x)
      then have "x \<noteq> cur + of_nat (24 * j)" using True by auto
      then have "nodes h2 x = nodes h x" by (simp add: n2 h1_def)
      moreover have "\<forall>i. Suc j \<le> i \<and> i < Suc j + k \<and> i < L \<longrightarrow> x \<noteq> cur + of_nat (24 * i)" using 2 by auto
      ultimately show ?case using I(2) by metis
    qed
  qed
qed

lemma hchain_upto:
  assumes "\<And>i. j \<le> i \<Longrightarrow> i < j + m \<Longrightarrow> f i \<noteq> 0 \<and> n_next (nodes h (f i)) = (if Suc i < j + m then f (Suc i) else 0)"
  shows "hchain h (if m = 0 then 0 else f j) (map f [j..<j + m])"
  using assms
proof (induction m arbitrary: j)
  case (Suc m)
  have "[j..<j + Suc m] = j # [Suc j..<Suc j + m]" by (simp add: upt_rec)
  moreover have "hchain h (if m = 0 then 0 else f (Suc j)) (map f [Suc j..<Suc j + m])"
    by (rule Suc.IH) (use Suc.prems in simp)
  ultimately show ?case using Suc.prems [of j] by (auto simp del: upt_Suc)
qed simp

definition clear_node :: "Node \<Rightarrow> bool" where
  "clear_node n \<longleftrightarrow> n_addr n = 0 \<and> n_next n = 0 \<and> \<not> allocated n"

text \<open>The blocks that fit behind the headers, and the headers on the list: one more than that when the loop stops early.\<close>

definition fitting_blocks :: "u32 \<Rightarrow> nat" where
  "fitting_blocks sz = (unat sz - 48 * (unat sz div 1024)) div 1024"

definition listed_nodes :: "u32 \<Rightarrow> nat" where
  "listed_nodes sz = (let N = unat sz div 1024; L = fitting_blocks sz in if L < N - 1 then Suc L else N - 1)"

lemma unat_add_of_nat: "unat (a :: u32) + k < 2 ^ 32 \<Longrightarrow> unat (a + of_nat k) = unat a + k"
  by (simp add: unat_of_nat_u32 unat_add_lem [THEN iffD1])

lemma init_region_nodes:
  assumes "start mod 16 = 0" "unat start + unat sz + 2048 < 2 ^ 32" "2 \<le> unat sz div 1024"
    and clear: "\<And>i. i < unat sz div 1024 \<Longrightarrow> clear_node (nodes h (start + of_nat (24 * i)))"
  defines "N \<equiv> unat sz div 1024" and "L \<equiv> fitting_blocks sz" and "h' \<equiv> init_memory_allocation start sz h"
  shows "\<And>i. i < N - 1 \<Longrightarrow> i < L \<Longrightarrow> fresh_node start (start + of_nat (24 * N)) N i (nodes h' (start + of_nat (24 * i)))"
    "\<And>i. i < N \<Longrightarrow> L \<le> i \<Longrightarrow> clear_node (nodes h' (start + of_nat (24 * i)))"
    "memory_region h' = start"
proof -
  define h0 where "h0 = upd_node start (\<lambda>n. n\<lparr>num_block_used := num_block_used n + sz div 1024\<rparr>)
     (h\<lparr>memory_region := start, memory_region_end := start + sz, end_of_node_region := start + sz div 1024 * 24\<rparr>)"
  define lim where "lim = start + (sz - sz div 1024 * 24)"
  have un: "unat (sz div 1024) = N" by (simp add: N_def unat_div)
  have ns: "1024 * N \<le> unat sz" by (simp add: N_def)
  have st: "start + sz div 1024 * 24 = start + of_nat (24 * N)" by (simp add: un [symmetric])
  have e: "h' = init_nodes (N - 1) (of_nat (Suc 0)) (sz div 1024) (start + of_nat (24 * N)) lim (start + of_nat (24 * 0)) h0"
    using assms(1) un unfolding st [symmetric]
    by (simp add: h'_def init_memory_allocation_def init_memory_region_def ALIGNMENT_def BLOCK_SIZE_def sizeof_Node_def
        h0_def lim_def Let_def)
  have us: "unat (start + of_nat (24 * N)) = unat start + 24 * N"
    using assms(2) ns by (intro unat_add_of_nat) simp
  have s24: "sz div 1024 * 24 = of_nat (24 * N)" by (simp add: un [symmetric])
  have "unat (of_nat (24 * N) :: u32) = 24 * N" using ns u32_unat_less [of sz] by (intro unat_of_nat_u32) linarith
  then have "unat (sz - sz div 1024 * 24) = unat sz - 24 * N"
    unfolding s24 using ns by (subst unat_sub) (simp_all add: word_le_nat_alt del: of_nat_mult)
  then have ul: "unat lim = unat start + (unat sz - 24 * N)"
    unfolding lim_def using assms(2) by (subst unat_add_lem [THEN iffD1]) simp_all
  have Lb: "1024 * L \<le> unat sz - 48 * N" "unat sz - 48 * N < 1024 * Suc L"
    using div_mult_mod_eq [of "unat sz - 48 * N" 1024] mod_less_divisor [of 1024 "unat sz - 48 * N"]
    unfolding L_def fitting_blocks_def N_def [symmetric] mult_Suc_right by linarith+
  have "24 * (0 + (N - 1)) \<le> unat sz" "24 * N + 1024 * Suc L \<le> unat sz + 1024" using ns Lb(1) by auto
  then have c: "unat start + 24 * (0 + (N - 1)) < 2 ^ 32" "unat (start + of_nat (24 * N)) + 1024 * Suc L < 2 ^ 32"
    using assms(2) unfolding us by linarith+
  have d: "unat (start + of_nat (24 * N)) + 1024 * L \<le> unat lim" "unat lim < unat (start + of_nat (24 * N)) + 1024 * Suc L"
    using us ul Lb ns by linarith+
  have f: "0 + (N - 1) < unat (sz div 1024)" using assms(3) un by (simp add: N_def)
  note S = init_nodes_spec [OF c d f le0, of h0, folded e, unfolded un]
  show "fresh_node start (start + of_nat (24 * N)) N i (nodes h' (start + of_nat (24 * i)))" if "i < N - 1" "i < L" for i
    using S that by simp
  show "clear_node (nodes h' (start + of_nat (24 * i)))" if i: "i < N" "L \<le> i" for i
  proof -
    have "\<forall>j. 0 \<le> j \<and> j < 0 + (N - 1) \<and> j < L \<longrightarrow> start + of_nat (24 * i) \<noteq> start + of_nat (24 * j)"
    proof (intro allI impI notI)
      fix j assume j: "0 \<le> j \<and> j < 0 + (N - 1) \<and> j < L" and q: "start + of_nat (24 * i) = start + (of_nat (24 * j) :: u32)"
      have "i = j" by (rule word_step_inj [OF _ _ q]) (use i j ns assms(2) in linarith)+
      then show False using j i by simp
    qed
    then have "same_node (nodes h' (start + of_nat (24 * i))) (nodes h0 (start + of_nat (24 * i)))" using S by blast
    moreover have "clear_node (nodes h0 (start + of_nat (24 * i)))"
      using clear [of i] i by (auto simp: h0_def clear_node_def N_def)
    ultimately show ?thesis by (simp add: same_node_def clear_node_def)
  qed
  show "memory_region h' = start" by (simp add: e h0_def)
qed

lemma init_region_ok:
  assumes "start mod 16 = 0" "0 < unat start" "unat start + unat sz + 2048 < 2 ^ 32" "2 \<le> unat sz div 1024"
    and clear: "\<And>i. i < unat sz div 1024 \<Longrightarrow> clear_node (nodes h (start + of_nat (24 * i)))"
  defines "ps \<equiv> map (\<lambda>i. start + of_nat (24 * i)) [0..<listed_nodes sz]" and "h' \<equiv> init_memory_allocation start sz h"
  shows "heap_ok h' ps (start + of_nat (24 * (unat sz div 1024) + 1024))" "live_at h' ps = {}" "length ps = listed_nodes sz"
    "\<And>k. k < length ps \<Longrightarrow> \<not> allocated (nodes h' (ps ! k))"
proof -
  define N L m where "N = unat sz div 1024" and "L = fitting_blocks sz" and "m = listed_nodes sz"
  define st where "st = start + of_nat (24 * N)"
  define f where "f i = start + (of_nat (24 * i) :: u32)" for i
  have N: "2 \<le> N" "1024 * N \<le> unat sz" using assms(4) by (simp_all add: N_def)
  have m: "m = (if L < N - 1 then Suc L else N - 1)" by (simp add: m_def listed_nodes_def Let_def N_def L_def)
  have m0: "0 < m" "m \<le> N" using N m by auto
  note I = init_region_nodes [OF assms(1,3,4) clear, folded h'_def N_def L_def]
  have F: "fresh_node start st N i (nodes h' (f i))" if "i < N - 1" "i < L" for i unfolding f_def st_def by (rule I(1)) (use that in auto)
  have C: "clear_node (nodes h' (f i))" if "i < N" "L \<le> i" for i unfolding f_def by (rule I(2)) (use that in auto)
  have mr: "memory_region h' = start" by (rule I(3)) auto
  have nz: "f i \<noteq> 0" if "i < m" for i
  proof -
    have "unat (f i) = unat start + 24 * i" unfolding f_def using that m0 N(2) assms(3) by (intro unat_add_of_nat) linarith
    then show ?thesis using assms(2) by auto
  qed
  have nx: "n_next (nodes h' (f i)) = (if Suc i < m then f (Suc i) else 0)" if "i < m" for i
    using F [of i] C [of i] that N m unfolding fresh_node_def clear_node_def f_def [symmetric]
    by (cases "i < L") (auto split: if_splits)
  have al: "\<not> allocated (nodes h' (f i))" if "i < m" for i
    using F [of i] C [of i] that N m unfolding fresh_node_def clear_node_def
    by (cases "i < L") (auto split: if_splits)
  have ps: "ps = map f [0..<m]" by (simp add: ps_def f_def m_def)
  have "hchain h' (if m = 0 then 0 else f 0) (map f [0..<0 + m])" by (rule hchain_upto) (use nz nx in auto)
  then have hc: "hchain h' (memory_region h') ps" using m0 mr by (simp add: ps f_def)
  have "m * 1024 \<le> unat sz - 48 * N + 1024" unfolding m L_def fitting_blocks_def N_def [symmetric] by (auto; linarith)
  then have b: "unat start + 24 * N + 1024 + 1024 * m < 2 ^ 32" using assms(3) N by linarith
  have ub: "unat (start + of_nat (24 * N + 1024)) = unat start + 24 * N + 1024"
    using unat_add_of_nat [of start "24 * N + 1024"] b by linarith
  have ad: "n_addr (nodes h' (ps ! i)) = start + of_nat (24 * N + 1024) + of_nat (1024 * i)
      \<or> Suc i = length ps \<and> n_addr (nodes h' (ps ! i)) = 0" if "i < length ps" for i
  proof (cases "i < L \<and> i < N - 1")
    case True
    then show ?thesis using F [of i] that by (simp add: ps fresh_node_def st_def algebra_simps)
  next
    case False
    then have "i < N" "L \<le> i" "Suc i = m" using that m N by (auto simp: ps split: if_splits)
    then show ?thesis using C [of i] that by (simp add: ps clear_node_def)
  qed
  show fr: "\<not> allocated (nodes h' (ps ! k))" if "k < length ps" for k using al that by (simp add: ps)
  then show "heap_ok h' ps (start + of_nat (24 * (unat sz div 1024) + 1024))"
    unfolding heap_ok_def block_addrs_def N_def [symmetric] using hc m0 ub b ad by (auto simp: ps)
  show "live_at h' ps = {}"
  proof -
    have "\<not> run_at h' ps i n" for i n
    proof
      assume r: "run_at h' ps i n"
      then have "i < m" "0 < n" by (auto simp: run_at_def ps)
      then show False using run_atD(1) [OF r, of i] al [of i] by (simp add: ps)
    qed
    then show ?thesis by (simp add: live_at_def)
  qed
  show "length ps = listed_nodes sz" by (simp add: ps m_def)
qed

end
