(* ===== verification/KHeapProps.thy ===== *)
theory KHeapProps
  imports KHeapInv
begin

text \<open>
  What \<open>kmalloc\<close> and \<open>kfree\<close> promise their callers, as the contract of an allocator of blocks, with the
  kernel heap as its implementation.
\<close>

subsection \<open>The contract of the allocator\<close>

locale block_allocator =
  fixes ok :: "'s \<Rightarrow> bool" and live :: "'s \<Rightarrow> (addr \<times> nat) set"
    and alloc :: "u32 \<Rightarrow> 's \<Rightarrow> (addr \<times> 's) option" and release :: "addr \<Rightarrow> 's \<Rightarrow> 's option"
    and blocks :: "u32 \<Rightarrow> nat"
  assumes live_disj: "ok s \<Longrightarrow> (a, n) \<in> live s \<Longrightarrow> (b, m) \<in> live s \<Longrightarrow> (a, n) \<noteq> (b, m)
      \<Longrightarrow> region a (1024 * n) \<inter> region b (1024 * m) = {}"
    and alloc_keeps: "ok s \<Longrightarrow> alloc sz s = Some (a, s') \<Longrightarrow> ok s'"
    and alloc_live: "ok s \<Longrightarrow> alloc sz s = Some (a, s') \<Longrightarrow>
      live s' = (if a \<noteq> 0 \<and> 0 < blocks sz then insert (a, blocks sz) (live s) else live s)"
    and alloc_new: "ok s \<Longrightarrow> alloc sz s = Some (a, s') \<Longrightarrow> 0 < blocks sz \<Longrightarrow> (a, n) \<notin> live s"
    and release_keeps: "ok s \<Longrightarrow> (a, n) \<in> live s \<Longrightarrow> \<exists>s'. release a s = Some s' \<and> ok s' \<and> live s' = live s - {(a, n)}"
begin

text \<open>Any run of a client that releases only what it holds and keeps the allocations at \<open>K\<close>.\<close>

inductive uses :: "addr set \<Rightarrow> 's \<Rightarrow> 's \<Rightarrow> bool" for K :: "addr set" and s :: 's where
  uses_refl: "uses K s s"
| uses_alloc: "uses K s s1 \<Longrightarrow> alloc sz s1 = Some (a, s2) \<Longrightarrow> uses K s s2"
| uses_release: "uses K s s1 \<Longrightarrow> (a, n) \<in> live s1 \<Longrightarrow> a \<notin> K \<Longrightarrow> release a s1 = Some s2 \<Longrightarrow> uses K s s2"

lemma uses_ok: "uses K s s' \<Longrightarrow> ok s \<Longrightarrow> ok s'"
proof (induction rule: uses.induct)
  case (uses_release s1 a n s2)
  then show ?case using release_keeps by fastforce
qed (auto intro: alloc_keeps)

lemma uses_keeps: "uses K s s' \<Longrightarrow> ok s \<Longrightarrow> (a, n) \<in> live s \<Longrightarrow> a \<in> K \<Longrightarrow> (a, n) \<in> live s'"
proof (induction rule: uses.induct)
  case (uses_alloc s1 sz a s2)
  then show ?case using alloc_live [OF uses_ok] by auto
next
  case (uses_release s1 b m s2)
  then have "live s2 = live s1 - {(b, m)}" using release_keeps [OF uses_ok] by fastforce
  then show ?case using uses_release by auto
qed

lemma held_apart:
  assumes ok: "ok s" and a: "alloc n s = Some (a, s1)" "a \<noteq> 0" "0 < blocks n" and u: "uses {a} s1 s2"
    and b: "alloc m s2 = Some (b, s3)" "b \<noteq> 0" "0 < blocks m"
  shows "region a (1024 * blocks n) \<inter> region b (1024 * blocks m) = {}"
proof -
  have ok1: "ok s1" and ok2: "ok s2" using alloc_keeps [OF ok a(1)] uses_ok [OF u] by auto
  have "(a, blocks n) \<in> live s2" using uses_keeps [OF u ok1] alloc_live [OF ok a(1)] a by simp
  moreover have "(b, blocks m) \<notin> live s2" using alloc_new [OF ok2 b(1,3)] .
  ultimately have "(a, blocks n) \<in> live s3" "(b, blocks m) \<in> live s3" "(a, blocks n) \<noteq> (b, blocks m)"
    using alloc_live [OF ok2 b(1)] b by auto
  then show ?thesis using live_disj [OF alloc_keeps [OF ok2 b(1)]] by blast
qed

lemma alloc_release:
  assumes ok: "ok s" and a: "alloc sz s = Some (a, s')" "a \<noteq> 0" "0 < blocks sz"
  shows "\<exists>s''. release a s' = Some s'' \<and> ok s'' \<and> live s'' = live s"
  using release_keeps [OF alloc_keeps [OF ok a(1)], of a "blocks sz"] alloc_live [OF ok a(1)] alloc_new [OF ok a(1,3), of "blocks sz"] a
  by auto

end

subsection \<open>The kernel heap keeps the contract\<close>

definition heap_live :: "kheap \<Rightarrow> (addr \<times> nat) set" where
  "heap_live h = {x. \<exists>ps base. heap_ok h ps base \<and> x \<in> live_at h ps}"

definition kernel_heap_ok :: "sched \<times> kheap \<Rightarrow> bool" where
  "kernel_heap_ok = (\<lambda>(s, h). (\<exists>ps base. heap_ok h ps base) \<and> \<not> mem_lock_free h)"

lemma hchain_unique: "hchain h p ps \<Longrightarrow> hchain h p qs \<Longrightarrow> ps = qs"
proof (induction ps arbitrary: p qs)
  case Nil
  then show ?case by simp
next
  case (Cons x ps)
  then show ?case by (cases qs) auto
qed

lemma heap_live_at: "heap_ok h ps base \<Longrightarrow> heap_live h = live_at h ps"
  unfolding heap_live_def using hchain_unique by (auto simp: heap_ok_def)

lemma heap_ok_cong:
  "nodes h' = nodes h \<Longrightarrow> memory_region h' = memory_region h \<Longrightarrow> heap_ok h' ps base = heap_ok h ps base"
  by (simp add: heap_ok_def block_addrs_def run_at_def hchain_def)

lemma live_at_cong: "nodes h' = nodes h \<Longrightarrow> live_at h' ps = live_at h ps"
  by (simp add: live_at_def run_at_def)

definition only_nodes :: "kheap \<Rightarrow> kheap \<Rightarrow> bool" where
  "only_nodes h h' \<longleftrightarrow> (\<exists>nd. h' = h\<lparr>nodes := nd\<rparr>)"

lemma only_nodes_trans: "only_nodes h h1 \<Longrightarrow> only_nodes h1 h2 \<Longrightarrow> only_nodes h h2"
  by (auto simp: only_nodes_def)

lemma only_nodes_blocks: "only_nodes h (mark_blocks k i n p h)" "only_nodes h (free_blocks k p h)"
proof -
  have r: "only_nodes h h" for h by (simp add: only_nodes_def) (metis kheap.surjective kheap.update_convs(6))
  have u: "only_nodes h (upd_node p f h)" for h p f by (auto simp: only_nodes_def upd_node_def)
  show "only_nodes h (mark_blocks k i n p h)"
    by (induction k arbitrary: i p h) (auto simp: r intro: only_nodes_trans [OF u])
  show "only_nodes h (free_blocks k p h)"
    by (induction k arbitrary: p h) (auto simp: r intro: only_nodes_trans [OF u])
qed

lemma alloc_only_nodes:
  assumes "heap_ok h ps base" "sys_allocate_memory sz h = Some (a, h')"
  shows "only_nodes h h'"
proof (cases "sz \<ge> total_region_size_g h")
  case True
  then show ?thesis using assms(2) only_nodes_blocks(2) [of h 0] by (simp add: sys_allocate_memory_def)
next
  case False
  obtain p qs where "hchain h (n_next (nodes h (memory_region h))) qs"
    using assms(1) by (cases ps) (auto simp: heap_ok_def)
  then have "search_result qs sz (blocks_needed sz) h (Some (a, h'))"
    using assms(2) False find_free_zone_spec [of h "n_next (nodes h (memory_region h))" qs sz "blocks_needed sz"] by (simp add: sys_allocate_memory_def)
  moreover have "only_nodes h h1" if "touched h h1" for h1 using that by (auto simp: touched_def only_nodes_def)
  ultimately show ?thesis
    by (auto simp: search_result_def split: option.splits if_splits intro: only_nodes_trans [OF _ only_nodes_blocks(1)])
qed

lemma alloc_fresh:
  assumes ok: "heap_ok h ps base" and e: "sys_allocate_memory sz h = Some (a, h')" and n: "0 < blocks_needed sz"
  shows "(a, m) \<notin> live_at h ps"
proof
  assume "(a, m) \<in> live_at h ps"
  then obtain j where j: "run_at h ps j m" "n_addr (nodes h (ps ! j)) = a" "a \<noteq> 0" by (auto simp: live_at_def)
  obtain p qs where ps: "ps = p # qs" using ok by (cases ps) (auto simp: heap_ok_def)
  have "\<not> sz \<ge> total_region_size_g h" using e j(3) by (auto simp: sys_allocate_memory_def)
  then have "search_result qs sz (blocks_needed sz) h (Some (a, h'))"
    using e ok find_free_zone_spec [of h "n_next (nodes h (memory_region h))" qs sz "blocks_needed sz"]
    by (simp add: sys_allocate_memory_def heap_ok_def ps)
  then obtain i where i: "first_fit (blocks_needed sz) (bits h qs) = Some i" "a = n_addr (nodes h (qs ! i))"
    using j(3) by (auto simp: search_result_def split: option.splits if_splits)
  then have f: "i < length qs" "\<not> allocated (nodes h (qs ! i))" by (auto simp: first_fit_Some fits_def)
  have jl: "j < length ps" using j(1) by (auto simp: run_at_def)
  have "block_addrs h ps base" using ok by (simp add: heap_ok_def)
  then have "j = Suc i" by (rule block_addr_inj [OF _ jl]) (use f i j ps in auto)
  then show False using run_atD(1) [OF j(1), of j] f ps j(1) by (simp add: run_at_def)
qed

definition kernel_release :: "addr \<Rightarrow> sched \<times> kheap \<Rightarrow> (sched \<times> kheap) option" where
  "kernel_release p = (\<lambda>(s, h). do { h \<leftarrow> kfree p h; Some (s, h) })"

lemma kmalloc_sys:
  assumes "kmalloc sz (s, h) = Some (a, s', h')" "heap_ok h ps base"
  shows "\<exists>h1. sys_allocate_memory sz (h\<lparr>mem_lock_alloc := True\<rparr>) = Some (a, h1) \<and> h' = h1\<lparr>mem_lock_alloc := False\<rparr>
    \<and> mem_lock_free h' = mem_lock_free h \<and> heap_ok (h\<lparr>mem_lock_alloc := True\<rparr>) ps base"
proof -
  obtain h1 where h1: "sys_allocate_memory sz (h\<lparr>mem_lock_alloc := True\<rparr>) = Some (a, h1)" "h' = h1\<lparr>mem_lock_alloc := False\<rparr>"
    using assms(1) by (auto simp: kmalloc_def Let_def bind_eq_Some_conv split: if_splits)
  have ok: "heap_ok (h\<lparr>mem_lock_alloc := True\<rparr>) ps base" using assms(2) heap_ok_cong [of "h\<lparr>mem_lock_alloc := True\<rparr>" h] by simp
  then show ?thesis using h1 alloc_only_nodes [OF ok h1(1)] unfolding only_nodes_def by auto
qed

lemma kmalloc_law:
  assumes e: "kmalloc sz (s, h) = Some (a, s', h')" and ok: "heap_ok h ps base"
  shows "heap_ok h' ps base" "mem_lock_free h' = mem_lock_free h"
    "live_at h' ps = (if a \<noteq> 0 \<and> 0 < blocks_needed sz then insert (a, blocks_needed sz) (live_at h ps) else live_at h ps)"
    "0 < blocks_needed sz \<Longrightarrow> (a, m) \<notin> live_at h ps"
proof -
  obtain h1 where h1: "sys_allocate_memory sz (h\<lparr>mem_lock_alloc := True\<rparr>) = Some (a, h1)" "h' = h1\<lparr>mem_lock_alloc := False\<rparr>"
      "heap_ok (h\<lparr>mem_lock_alloc := True\<rparr>) ps base" "mem_lock_free h' = mem_lock_free h" using kmalloc_sys [OF e ok] by auto
  note A = alloc_ok [OF h1(3,1)]
  show "heap_ok h' ps base" using A(1) heap_ok_cong [of h' h1] h1(2) by simp
  show "mem_lock_free h' = mem_lock_free h" by (rule h1(4))
  show "live_at h' ps = (if a \<noteq> 0 \<and> 0 < blocks_needed sz then insert (a, blocks_needed sz) (live_at h ps) else live_at h ps)"
    using A(2) h1(2) live_at_cong [of h' h1] live_at_cong [of "h\<lparr>mem_lock_alloc := True\<rparr>" h] by simp
  show "(a, m) \<notin> live_at h ps" if "0 < blocks_needed sz"
    using alloc_fresh [OF h1(3,1) that] live_at_cong [of "h\<lparr>mem_lock_alloc := True\<rparr>" h] by simp
qed

lemma kfree_law:
  assumes ok: "heap_ok h ps base" "\<not> mem_lock_free h" and l: "(a, n) \<in> live_at h ps"
  shows "\<exists>h'. kfree a h = Some h' \<and> heap_ok h' ps base \<and> \<not> mem_lock_free h' \<and> live_at h' ps = live_at h ps - {(a, n)}
    \<and> hmem h' = hmem h"
proof -
  let ?h = "h\<lparr>mem_lock_free := True\<rparr>"
  have ok1: "heap_ok ?h ps base" "(a, n) \<in> live_at ?h ps" using ok l heap_ok_cong [of ?h h] live_at_cong [of ?h h] by simp_all
  obtain h1 where h1: "sys_free_memory a ?h = Some (0, h1)" "heap_ok h1 ps base" "live_at h1 ps = live_at ?h ps - {(a, n)}" "hmem h1 = hmem h"
    using free_ok [OF ok1] by auto
  have "kfree a h = Some (h1\<lparr>mem_lock_free := False\<rparr>)" using ok(2) h1(1) by (simp add: kfree_def)
  then show ?thesis using h1 heap_ok_cong [of "h1\<lparr>mem_lock_free := False\<rparr>" h1]
      live_at_cong [of "h1\<lparr>mem_lock_free := False\<rparr>" h1] live_at_cong [of ?h h] by simp
qed

interpretation kmem: block_allocator kernel_heap_ok "\<lambda>(s, h). heap_live h" kmalloc kernel_release blocks_needed
proof
  fix x a n b m assume k: "kernel_heap_ok x" and l: "(a, n) \<in> (case x of (s, h) \<Rightarrow> heap_live h)"
    "(b, m) \<in> (case x of (s, h) \<Rightarrow> heap_live h)" "(a, n) \<noteq> (b, m)"
  obtain s h where x: "x = (s, h)" by (cases x)
  obtain ps base where ok: "heap_ok h ps base" using k by (auto simp: kernel_heap_ok_def x)
  show "region a (1024 * n) \<inter> region b (1024 * m) = {}"
    using live_disjoint [OF ok _ _ l(3)] l(1,2) heap_live_at [OF ok] by (simp add: x)
next
  fix x a x' sz assume k: "kernel_heap_ok x" and e: "kmalloc sz x = Some (a, x')"
  obtain s h s' h' where x: "x = (s, h)" "x' = (s', h')" by (cases x; cases x')
  obtain ps base where ok: "heap_ok h ps base" "\<not> mem_lock_free h" using k by (auto simp: kernel_heap_ok_def x)
  note L = kmalloc_law [OF e [unfolded x] ok(1)]
  show "kernel_heap_ok x'" using L(1,2) ok by (auto simp: kernel_heap_ok_def x)
  show "(case x' of (s, h) \<Rightarrow> heap_live h) = (if a \<noteq> 0 \<and> 0 < blocks_needed sz
      then insert (a, blocks_needed sz) (case x of (s, h) \<Rightarrow> heap_live h) else (case x of (s, h) \<Rightarrow> heap_live h))"
    using L(3) heap_live_at [OF ok(1)] heap_live_at [OF L(1)] by (simp add: x)
  show "(a, n) \<notin> (case x of (s, h) \<Rightarrow> heap_live h)" if "0 < blocks_needed sz" for n
    using L(4) [OF that] heap_live_at [OF ok(1)] by (simp add: x)
next
  fix x a n assume k: "kernel_heap_ok x" and l: "(a, n) \<in> (case x of (s, h) \<Rightarrow> heap_live h)"
  obtain s h where x: "x = (s, h)" by (cases x)
  obtain ps base where ok: "heap_ok h ps base" "\<not> mem_lock_free h" using k by (auto simp: kernel_heap_ok_def x)
  obtain h' where h': "kfree a h = Some h'" "heap_ok h' ps base" "\<not> mem_lock_free h'" "live_at h' ps = live_at h ps - {(a, n)}"
    using kfree_law [OF ok, of a n] l heap_live_at [OF ok(1)] by (auto simp: x)
  show "\<exists>x'. kernel_release a x = Some x' \<and> kernel_heap_ok x' \<and>
      (case x' of (s, h) \<Rightarrow> heap_live h) = (case x of (s, h) \<Rightarrow> heap_live h) - {(a, n)}"
  proof (intro exI conjI)
    show "kernel_release a x = Some (s, h')" using h'(1) by (simp add: x kernel_release_def)
    show "kernel_heap_ok (s, h')" using h'(2,3) by (auto simp: kernel_heap_ok_def)
    show "(case (s, h') of (s, h) \<Rightarrow> heap_live h) = (case x of (s, h) \<Rightarrow> heap_live h) - {(a, n)}"
      using h'(4) heap_live_at [OF ok(1)] heap_live_at [OF h'(2)] by (simp add: x)
  qed
qed

definition set_run :: "nat \<Rightarrow> nat \<Rightarrow> bool list \<Rightarrow> bool list" where
  "set_run i n bs = take i bs @ replicate n True @ drop (i + n) bs"

lemma set_run_nth: "i + n \<le> length bs \<Longrightarrow> k < length bs \<Longrightarrow> set_run i n bs ! k = (i \<le> k \<and> k < i + n \<or> bs ! k)"
  by (auto simp: set_run_def nth_append)

lemma set_run_length: "i + n \<le> length bs \<Longrightarrow> length (set_run i n bs) = length bs"
  by (simp add: set_run_def)

lemma sys_allocate_fit:
  assumes ok: "heap_ok h (p # qs) base" and sz: "sz < total_region_size_g h"
    and f: "first_fit (blocks_needed sz) (bits h qs) = Some i"
  shows "\<exists>h'. sys_allocate_memory sz h = Some (n_addr (nodes h (qs ! i)), h')
    \<and> bits h' qs = set_run i (blocks_needed sz) (bits h qs) \<and> only_nodes h h'"
proof -
  define n where "n = blocks_needed sz"
  have hc: "hchain h (n_next (nodes h (memory_region h))) qs" using ok by (simp add: heap_ok_def)
  obtain h1 where h1: "touched h h1" "sys_allocate_memory sz h = Some (n_addr (nodes h (qs ! i)), mark_blocks n 0 (of_nat n) (qs ! i) h1)"
  proof -
    have "sys_allocate_memory sz h = find_free_zone (n_next (nodes h (memory_region h))) sz n h"
      using sz by (auto simp: sys_allocate_memory_def n_def)
    then show ?thesis using that find_free_zone_spec [OF hc, of sz n] f unfolding search_result_def n_def by auto
  qed
  have fit: "i < length qs" "i + n \<le> length qs" using f by (auto simp: first_fit_Some fits_def n_def)
  have "hchain h1 (n_next (nodes h (memory_region h))) qs" by (rule hchain_cong [OF hc]) (simp add: touched_node [OF h1(1)])
  then have hd: "hchain h1 (qs ! i) (drop i qs)" by (rule hchain_drop) (rule fit(1))
  have "bits (mark_blocks n 0 (of_nat n) (qs ! i) h1) qs = set_run i n (bits h qs)"
  proof (rule nth_equalityI)
    fix k assume "k < length (bits (mark_blocks n 0 (of_nat n) (qs ! i) h1) qs)"
    then have k: "k < length qs" by simp
    show "bits (mark_blocks n 0 (of_nat n) (qs ! i) h1) qs ! k = set_run i n (bits h qs) ! k"
      using mark_blocks_nodes [OF hd, of n 0 "of_nat n" "qs ! k"] nth_in_take_drop [OF hchain_distinct [OF hc] k fit(2)]
        set_run_nth [of i n "bits h qs" k] fit k by (auto simp: touched_node [OF h1(1)])
  qed (use fit in \<open>simp add: set_run_length\<close>)
  then show ?thesis using h1(2) alloc_only_nodes [OF ok h1(2)] by (simp add: n_def)
qed

lemma kmalloc_fit:
  assumes ok: "heap_ok h (p # qs) base" and sz: "sz < total_region_size_g h" and a: "heap_active h" "\<not> mem_lock_alloc h"
    and f: "first_fit (blocks_needed sz) (bits h qs) = Some i"
  shows "\<exists>s' h'. kmalloc sz (s, h) = Some (n_addr (nodes h (qs ! i)), s', h')
    \<and> bits h' qs = set_run i (blocks_needed sz) (bits h qs) \<and> heap_ok h' (p # qs) base
    \<and> heap_active h' \<and> \<not> mem_lock_alloc h' \<and> total_region_size_g h' = total_region_size_g h \<and> mem_lock_free h' = mem_lock_free h"
proof -
  let ?h = "h\<lparr>mem_lock_alloc := True\<rparr>"
  have "heap_ok ?h (p # qs) base" using ok heap_ok_cong [of ?h h] by simp
  then obtain h1 where h1: "sys_allocate_memory sz ?h = Some (n_addr (nodes h (qs ! i)), h1)"
     "bits h1 qs = set_run i (blocks_needed sz) (bits h qs)" "only_nodes ?h h1" using sys_allocate_fit [of ?h p qs base sz i] sz f by auto
  have e: "kmalloc sz (s, h) = Some (n_addr (nodes h (qs ! i)), UnlockScheduler (LockScheduler s), h1\<lparr>mem_lock_alloc := False\<rparr>)"
    using a h1(1) by (simp add: kmalloc_def)
  show ?thesis using e h1 kmalloc_law(1) [OF e ok] a by (auto simp: only_nodes_def)
qed

lemma kmalloc_none:
  assumes ok: "heap_ok h (p # qs) base" and sz: "sz < total_region_size_g h" and a: "heap_active h" "\<not> mem_lock_alloc h"
    and f: "first_fit (blocks_needed sz) (bits h qs) = None"
  shows "kmalloc sz (s, h) = None \<longleftrightarrow> qs \<noteq> [] \<and> allocated (nodes h (last qs))"
proof -
  let ?h = "h\<lparr>mem_lock_alloc := True\<rparr>"
  have "heap_ok ?h (p # qs) base" using ok heap_ok_cong [of ?h h] by simp
  then have "hchain ?h (n_next (nodes h (memory_region h))) qs" by (simp add: heap_ok_def)
  from find_free_zone_spec [OF this, of sz "blocks_needed sz"] show ?thesis
    using f a sz by (auto simp: kmalloc_def sys_allocate_memory_def search_result_def split: if_splits)
qed

lemma block_addr_nonzero:
  assumes "heap_ok h (p # qs) base" "Suc i < length qs"
  shows "n_addr (nodes h (qs ! i)) \<noteq> 0"
proof -
  have ba: "block_addrs h (p # qs) base" using assms(1) by (simp add: heap_ok_def)
  have b: "unat base + 1024 * length (p # qs) < 2 ^ 32" "0 < unat base" using ba by (simp_all add: block_addrs_def)
  have e: "n_addr (nodes h ((p # qs) ! Suc i)) = base + of_nat (1024 * Suc i)"
    using ba assms(2) unfolding block_addrs_def by (elim conjE allE [of _ "Suc i"]) auto
  have "unat (base + of_nat (1024 * Suc i)) = unat base + 1024 * Suc i"
    using assms(2) b by (intro unat_add_of_nat) simp
  then show ?thesis using b e by auto
qed

subsection \<open>Initialisation of the kernel heap\<close>

lemma init_kheap_frame:
  "heap_ok (init_kheap zone sz h) ps base = heap_ok (init_memory_allocation (zone (heap_pages sz)) (heap_pages sz * 4096) h) ps base"
  "live_at (init_kheap zone sz h) ps = live_at (init_memory_allocation (zone (heap_pages sz)) (heap_pages sz * 4096) h) ps"
  by (simp_all add: init_kheap_def heap_ok_def block_addrs_def run_at_def hchain_def live_at_def)

lemma init_nodes_locks [simp]:
  "mem_lock_alloc (init_nodes k i NN st lim cur h) = mem_lock_alloc h"
  "mem_lock_free (init_nodes k i NN st lim cur h) = mem_lock_free h"
  by (induction k arbitrary: i cur h; simp add: Let_def)+

lemma init_kheap_locks [simp]:
  "heap_active (init_kheap zone sz h)" "total_region_size_g (init_kheap zone sz h) = sz"
  "mem_lock_alloc (init_kheap zone sz h) = mem_lock_alloc h" "mem_lock_free (init_kheap zone sz h) = mem_lock_free h"
  by (simp_all add: init_kheap_def init_memory_allocation_def init_memory_region_def Let_def)

lemma init_kheap_all:
  assumes "zone (heap_pages sz) mod 16 = 0" "0 < unat (zone (heap_pages sz))"
    "unat (zone (heap_pages sz)) + unat (heap_pages sz * 4096) + 2048 < 2 ^ 32" "2048 \<le> unat (heap_pages sz * 4096)"
    "\<And>x. clear_node (nodes h x)"
  shows "\<exists>p qs base. heap_ok (init_kheap zone sz h) (p # qs) base \<and> Suc (length qs) = listed_nodes (heap_pages sz * 4096)
    \<and> bits (init_kheap zone sz h) qs = replicate (length qs) False \<and> heap_live (init_kheap zone sz h) = {}"
proof -
  define ps where "ps = map (\<lambda>i. zone (heap_pages sz) + of_nat (24 * i)) [0..<listed_nodes (heap_pages sz * 4096)]"
  let ?h = "init_kheap zone sz h"
  have n: "2 \<le> unat (heap_pages sz * 4096) div 1024" using assms(4) by linarith
  note I = init_region_ok [OF assms(1-3) n assms(5), folded ps_def]
  obtain base where ok: "heap_ok ?h ps base" and l: "live_at ?h ps = {}" "length ps = listed_nodes (heap_pages sz * 4096)"
    using I(1-3) unfolding init_kheap_frame by blast
  then obtain p qs where ps: "ps = p # qs" by (cases ps) (auto simp: heap_ok_def)
  have "\<not> allocated (nodes ?h (ps ! k))" if "k < length ps" for k using I(4) [OF that] by (simp add: init_kheap_def)
  from this [of "Suc k" for k] have "bits ?h qs = replicate (length qs) False" by (intro nth_equalityI) (auto simp: ps)
  then show ?thesis using ok l heap_live_at [OF ok] ps by auto
qed

subsection \<open>Properties\<close>

text \<open>
  C2: Two allocations the kernel holds at the same time never overlap: after \<open>kmalloc\<close> has returned \<open>a\<close>,
  whatever the clients allocate and release, as long as \<open>a\<close> is not released, the next \<open>kmalloc\<close> returns a
  region disjoint from that of \<open>a\<close>.
\<close>
theorem kmalloc_disjoint:
  assumes "kernel_heap_ok x" "kmalloc n x = Some (a, x1)" "a \<noteq> 0" "0 < blocks_needed n"
    "kmem.uses {a} x1 x2" "kmalloc m x2 = Some (b, x3)" "b \<noteq> 0" "0 < blocks_needed m"
  shows "region a (1024 * blocks_needed n) \<inter> region b (1024 * blocks_needed m) = {}"
  by (rule kmem.held_apart [OF assms])

text \<open>A heap of two pages at 1 MB, as \<open>init_kheap\<close> leaves it on cleared memory.\<close>

definition blank_heap :: kheap where
  "blank_heap = \<lparr>memory_region = 0, end_of_node_region = 0, memory_region_end = 0, total_region_size_g = 0, heap_active = False,
      nodes = (\<lambda>_. \<lparr>n_addr = 0, n_size = 0, n_next = 0, allocated = False, first_block = False, num_block_used = 0,
        total_requested_memory = 0\<rparr>), hmem = (\<lambda>_. 0), mapped = [], mem_lock_alloc = False, mem_lock_free = False\<rparr>"

definition sample_heap :: kheap where
  "sample_heap = init_kheap (\<lambda>_. 0x100000) 0x5000 blank_heap"

lemma sample_pages: "heap_pages 0x5000 = 2"
  by (simp add: heap_pages_def)

lemma sample_listed: "listed_nodes (heap_pages 0x5000 * 4096) = 7"
  by (simp add: sample_pages listed_nodes_def fitting_blocks_def)

lemma sample_start:
  "(\<lambda>_. 0x100000 :: u32) (heap_pages 0x5000) mod 16 = 0" "0 < unat ((\<lambda>_. 0x100000 :: u32) (heap_pages 0x5000))"
  "unat ((\<lambda>_. 0x100000 :: u32) (heap_pages 0x5000)) + unat (heap_pages 0x5000 * 4096) + 2048 < 2 ^ 32"
  "2048 \<le> unat (heap_pages 0x5000 * 4096)" "\<And>x. clear_node (nodes blank_heap x)"
  by (simp_all add: sample_pages clear_node_def blank_heap_def)

lemma sample_heap_fields:
  "heap_active sample_heap" "\<not> mem_lock_alloc sample_heap" "\<not> mem_lock_free sample_heap" "total_region_size_g sample_heap = 0x5000"
  by (simp_all add: sample_heap_def blank_heap_def)

lemma sample_blocks: "blocks_needed 100 = 1" "blocks_needed 2000 = 2" "blocks_needed 6144 = 6" "blocks_needed 1 = 1"
  by (simp_all add: blocks_needed_def BLOCK_SIZE_def)

lemma sample_sizes:
  "blocks_needed 100 \<le> 6" "(100 :: u32) < 0x5000" "blocks_needed 2000 \<le> 6" "(2000 :: u32) < 0x5000"
  "blocks_needed 6144 \<le> 6" "(6144 :: u32) < 0x5000" "blocks_needed 1 \<le> 6" "(1 :: u32) < 0x5000"
  by (simp_all add: sample_blocks)

lemma sample_kmalloc:
  assumes "blocks_needed sz \<le> 6" "sz < 0x5000"
  shows "\<exists>p qs base s1 h1. heap_ok sample_heap (p # qs) base \<and> length qs = 6 \<and> bits sample_heap qs = replicate 6 False
    \<and> kmalloc sz (s, sample_heap) = Some (n_addr (nodes sample_heap (qs ! 0)), s1, h1) \<and> n_addr (nodes sample_heap (qs ! 0)) \<noteq> 0
    \<and> heap_ok h1 (p # qs) base \<and> heap_active h1 \<and> \<not> mem_lock_alloc h1 \<and> total_region_size_g h1 = 0x5000
    \<and> bits h1 qs = replicate (blocks_needed sz) True @ replicate (6 - blocks_needed sz) False"
proof -
  obtain p qs base where ok: "heap_ok sample_heap (p # qs) base" and q: "length qs = 6" "bits sample_heap qs = replicate 6 False"
    using init_kheap_all [of "\<lambda>_. 0x100000" "0x5000" blank_heap, OF sample_start, folded sample_heap_def] sample_listed by fastforce
  have f: "first_fit (blocks_needed sz) (bits sample_heap qs) = Some 0"
    unfolding q(2) using assms(1) by (simp add: numeral_eq_Suc)
  have b: "set_run 0 (blocks_needed sz) (replicate 6 False) = replicate (blocks_needed sz) True @ replicate (6 - blocks_needed sz) False"
    by (simp add: set_run_def)
  have "sz < total_region_size_g sample_heap" using assms(2) sample_heap_fields by simp
  note K = kmalloc_fit [OF ok this sample_heap_fields(1,2) f, of s, unfolded q(2) b sample_heap_fields(4)]
  have nz: "n_addr (nodes sample_heap (qs ! 0)) \<noteq> 0" using block_addr_nonzero [OF ok, of 0] q(1) by simp
  show ?thesis using K by (elim exE conjE) (intro exI conjI; (rule ok q nz | assumption))
qed

lemma sample_kernel_ok: "kernel_heap_ok (s, sample_heap)"
  using sample_kmalloc [of 1, OF sample_sizes(7,8)] sample_heap_fields unfolding kernel_heap_ok_def by blast

theorem kmalloc_disjoint_witness:
  "\<forall>s. \<exists>a x1 b x3. kmalloc 100 (s, sample_heap) = Some (a, x1) \<and> kmalloc 2000 x1 = Some (b, x3) \<and> a \<noteq> 0 \<and> b \<noteq> 0
     \<and> region a 1024 \<inter> region b 2048 = {}"
proof
  fix s
  obtain p qs base s1 h1 where ok: "length qs = 6"
     and 1: "kmalloc 100 (s, sample_heap) = Some (n_addr (nodes sample_heap (qs ! 0)), s1, h1)" "n_addr (nodes sample_heap (qs ! 0)) \<noteq> 0"
       "heap_ok h1 (p # qs) base" "heap_active h1" "\<not> mem_lock_alloc h1" "total_region_size_g h1 = 0x5000"
     and b: "bits h1 qs = replicate 1 True @ replicate (6 - 1) False"
    using sample_kmalloc [of 100 s, OF sample_sizes(1,2)] unfolding sample_blocks by blast
  have g: "first_fit (blocks_needed 2000) (bits h1 qs) = Some 1" unfolding b by (simp add: sample_blocks numeral_eq_Suc)
  have "2000 < total_region_size_g h1" using 1(6) by simp
  then obtain s3 h3 where 3: "kmalloc 2000 (s1, h1) = Some (n_addr (nodes h1 (qs ! 1)), s3, h3)"
    using kmalloc_fit [OF 1(3) _ 1(4,5) g, of s1] by blast
  have nz: "n_addr (nodes h1 (qs ! 1)) \<noteq> 0" using block_addr_nonzero [OF 1(3), of 1] ok by simp
  show "\<exists>a x1 b x3. kmalloc 100 (s, sample_heap) = Some (a, x1) \<and> kmalloc 2000 x1 = Some (b, x3) \<and> a \<noteq> 0 \<and> b \<noteq> 0
     \<and> region a 1024 \<inter> region b 2048 = {}"
    using kmalloc_disjoint [OF sample_kernel_ok 1(1,2) _ kmem.uses_refl 3 nz] 1(1,2) 3 nz by (auto simp: sample_blocks)
qed

text \<open>
  C5: Allocation is first fit: with a free run of the needed length on the list, \<open>kmalloc\<close> returns the
  address of the first one, marks exactly its blocks, and leaves the heap well-formed.  The first header is
  never considered.
\<close>
theorem kmalloc_first_fit:
  assumes "heap_ok h (p # qs) base" "sz < total_region_size_g h" "heap_active h" "\<not> mem_lock_alloc h"
    and "first_fit (blocks_needed sz) (bits h qs) = Some i"
  shows "\<exists>s' h'. kmalloc sz (s, h) = Some (n_addr (nodes h (qs ! i)), s', h')
    \<and> bits h' qs = set_run i (blocks_needed sz) (bits h qs) \<and> heap_ok h' (p # qs) base"
  using kmalloc_fit [OF assms, of s] by blast

theorem kmalloc_first_fit_witness:
  "\<forall>s. \<exists>qs s' h'. kmalloc 2000 (s, sample_heap) = Some (n_addr (nodes sample_heap (qs ! 0)), s', h')
     \<and> bits h' qs = [True, True, False, False, False, False]"
proof
  fix s
  obtain p qs base where ok: "heap_ok sample_heap (p # qs) base" and q: "bits sample_heap qs = replicate 6 False"
    using sample_kmalloc [of 1, OF sample_sizes(7,8)] by blast
  have f: "first_fit (blocks_needed 2000) (bits sample_heap qs) = Some 0" unfolding q by (simp add: sample_blocks numeral_eq_Suc)
  have b: "set_run 0 (blocks_needed 2000) (bits sample_heap qs) = [True, True, False, False, False, False]"
    unfolding q by (simp add: sample_blocks set_run_def numeral_eq_Suc)
  have "2000 < total_region_size_g sample_heap" using sample_heap_fields by simp
  note K = kmalloc_first_fit [OF ok this sample_heap_fields(1,2) f, of s, unfolded b]
  obtain s' h' where "kmalloc 2000 (s, sample_heap) = Some (n_addr (nodes sample_heap (qs ! 0)), s', h')"
      "bits h' qs = [True, True, False, False, False, False]"
    using K by (elim exE conjE) (rule that)
  then show "\<exists>qs s' h'. kmalloc 2000 (s, sample_heap) = Some (n_addr (nodes sample_heap (qs ! 0)), s', h')
     \<and> bits h' qs = [True, True, False, False, False, False]" by (intro exI conjI)
qed

text \<open>
  C17: Releasing what \<open>kmalloc\<close> returned restores the set of live allocations, and touches no byte of the
  heap.
\<close>
theorem kmalloc_kfree:
  assumes "kernel_heap_ok (s, h)" "kmalloc sz (s, h) = Some (a, s', h')" "a \<noteq> 0" "0 < blocks_needed sz"
  shows "\<exists>h''. kfree a h' = Some h'' \<and> kernel_heap_ok (s', h'') \<and> heap_live h'' = heap_live h"
  using kmem.alloc_release [OF assms] by (auto simp: kernel_release_def bind_eq_Some_conv)

theorem kmalloc_kfree_witness:
  "\<forall>s. \<exists>a s' h' h''. kmalloc 2000 (s, sample_heap) = Some (a, s', h') \<and> a \<noteq> 0 \<and> kfree a h' = Some h''
     \<and> heap_live h'' = heap_live sample_heap"
proof
  fix s
  obtain a s1 h1 where 1: "kmalloc 2000 (s, sample_heap) = Some (a, s1, h1)" "a \<noteq> 0"
    using sample_kmalloc [of 2000 s, OF sample_sizes(3,4)] by blast
  from kmalloc_kfree [OF sample_kernel_ok this] show "\<exists>a s' h' h''. kmalloc 2000 (s, sample_heap) = Some (a, s', h') \<and> a \<noteq> 0
     \<and> kfree a h' = Some h'' \<and> heap_live h'' = heap_live sample_heap" using 1 by (auto simp: sample_blocks)
qed

text \<open>
  C18: When no free run is long enough, \<open>kmalloc\<close> does not return at all if the last block of the list is
  allocated: the search stays on the last header.  Only if that block is free does it report the failure.
\<close>
theorem kmalloc_exhausted:
  assumes "heap_ok h (p # qs) base" "sz < total_region_size_g h" "heap_active h" "\<not> mem_lock_alloc h"
    and "first_fit (blocks_needed sz) (bits h qs) = None"
  shows "kmalloc sz (s, h) = None \<longleftrightarrow> qs \<noteq> [] \<and> allocated (nodes h (last qs))"
  by (rule kmalloc_none [OF assms])

theorem kmalloc_exhausted_witness:
  "\<forall>s. \<exists>a s' h'. kmalloc 6144 (s, sample_heap) = Some (a, s', h') \<and> kmalloc 1 (s', h') = None"
proof
  fix s
  obtain p qs base s1 h1 where q: "length qs = 6"
     and 1: "kmalloc 6144 (s, sample_heap) = Some (n_addr (nodes sample_heap (qs ! 0)), s1, h1)"
       "heap_ok h1 (p # qs) base" "heap_active h1" "\<not> mem_lock_alloc h1" "total_region_size_g h1 = 0x5000"
     and b: "bits h1 qs = replicate 6 True @ replicate (6 - 6) False"
    using sample_kmalloc [of 6144 s, OF sample_sizes(5,6)] unfolding sample_blocks by blast
  have g: "first_fit (blocks_needed 1) (bits h1 qs) = None" unfolding b by (simp add: sample_blocks numeral_eq_Suc)
  have "bits h1 qs ! 5" unfolding b by simp
  then have "allocated (nodes h1 (qs ! 5))" using q by simp
  moreover have qn: "qs \<noteq> []" using q by auto
  moreover have "last qs = qs ! 5" using q last_conv_nth [OF qn] by simp
  ultimately have l: "qs \<noteq> [] \<and> allocated (nodes h1 (last qs))" by simp
  have "1 < total_region_size_g h1" using 1(5) by simp
  then have "kmalloc 1 (s1, h1) = None" using kmalloc_exhausted [OF 1(2) _ 1(3,4) g, of s1] l by blast
  then show "\<exists>a s' h'. kmalloc 6144 (s, sample_heap) = Some (a, s', h') \<and> kmalloc 1 (s', h') = None" using 1(1) by blast
qed



end
