(* ===== verification/Bytes.thy ===== *)
theory Bytes
  imports CMemory
begin

text \<open>
  Little-endian access to a byte store: the 16 and 32 bit loads and stores of the i686, as the paging
  code and the file system use them, and loops that may fail.
\<close>

definition byte :: "nat \<Rightarrow> u32 \<Rightarrow> u8" where
  "byte k v = ucast (drop_bit (8 * k) v)"

definition le16 :: "u8 \<Rightarrow> u8 \<Rightarrow> u16" where
  "le16 a b = ucast a OR push_bit 8 (ucast b)"

definition le32 :: "u8 \<Rightarrow> u8 \<Rightarrow> u8 \<Rightarrow> u8 \<Rightarrow> u32" where
  "le32 a b c d = ucast a OR push_bit 8 (ucast b) OR push_bit 16 (ucast c) OR push_bit 24 (ucast d)"

definition rd32 :: "mem \<Rightarrow> addr \<Rightarrow> u32" where
  "rd32 m a = le32 (m a) (m (a + 1)) (m (a + 2)) (m (a + 3))"

definition wr32 :: "mem \<Rightarrow> addr \<Rightarrow> u32 \<Rightarrow> mem" where
  "wr32 m a v = m(a := byte 0 v, a + 1 := byte 1 v, a + 2 := byte 2 v, a + 3 := byte 3 v)"

primrec foldM :: "('a \<Rightarrow> 's \<Rightarrow> 's option) \<Rightarrow> 'a list \<Rightarrow> 's \<Rightarrow> 's option" where
  "foldM f [] s = Some s"
| "foldM f (x # xs) s = Option.bind (f x s) (foldM f xs)"

lemma byte_simps: "byte 0 v = ucast v" "byte (Suc k) v = ucast (drop_bit (8 + 8 * k) v)"
  by (simp_all add: byte_def)

lemma bit_byte: "bit (byte k v) n \<longleftrightarrow> n < 8 \<and> bit v (8 * k + n)"
  by (auto simp: byte_def bit_unsigned_iff bit_drop_bit_eq)

lemma bit_le32:
  "bit (le32 a b c d) n \<longleftrightarrow> (if n < 8 then bit a n else if n < 16 then bit b (n - 8) else if n < 24 then bit c (n - 16)
     else n < 32 \<and> bit d (n - 24))"
proof -
  have b8: "bit (x :: u8) k \<Longrightarrow> k < 8" for x k using bit_imp_le_length [of x k] by simp
  show ?thesis
    by (auto simp: le32_def bit_simps dest: b8)
qed

lemma bit_le16: "bit (le16 a b) n \<longleftrightarrow> (if n < 8 then bit a n else n < 16 \<and> bit b (n - 8))"
proof -
  have b8: "bit (x :: u8) k \<Longrightarrow> k < 8" for x k using bit_imp_le_length [of x k] by simp
  show ?thesis by (auto simp: le16_def bit_simps dest: b8)
qed

lemma le32_bytes [simp]: "le32 (byte 0 v) (byte 1 v) (byte 2 v) (byte 3 v) = v"
proof (rule bit_word_eqI)
  fix n assume "n < LENGTH(32)"
  then show "bit (le32 (byte 0 v) (byte 1 v) (byte 2 v) (byte 3 v)) n = bit v n"
    by (auto simp: bit_le32 bit_byte)
qed

lemma byte_le32 [simp]:
  "byte 0 (le32 a b c d) = a" "byte 1 (le32 a b c d) = b" "byte 2 (le32 a b c d) = c" "byte 3 (le32 a b c d) = d"
  by (rule bit_word_eqI; simp add: bit_byte bit_le32)+

lemma rd32_wr32 [simp]: "rd32 (wr32 m a v) a = v"
  using le32_bytes [of v] by (simp add: rd32_def wr32_def word_eq_minus_self)

lemma region_4: "region a 4 = {a, a + 1, a + 2, a + 3}"
  by (simp add: region_def numeral_eq_Suc lessThan_Suc insert_commute)

lemma rd32_cong: "(\<And>x. x \<in> region a 4 \<Longrightarrow> m x = m' x) \<Longrightarrow> rd32 m a = rd32 m' a"
  by (simp add: rd32_def region_4)

lemma wr32_other: "x \<notin> region a 4 \<Longrightarrow> wr32 m a v x = m x"
  by (auto simp: wr32_def region_4)

lemma rd32_wr32_other: "region a 4 \<inter> region b 4 = {} \<Longrightarrow> rd32 (wr32 m a v) b = rd32 m b"
  by (rule rd32_cong) (auto intro: wr32_other)

text \<open>Aligned words do not overlap.\<close>

lemma unat_aligned_add:
  assumes "(a :: addr) mod 4 = 0" "i < 4"
  shows "unat (a + of_nat i) = unat a + i" "unat a mod 4 = 0"
proof -
  have "unat (a mod 4) = unat a mod 4" by (simp add: unat_mod)
  then show m: "unat a mod 4 = 0" using assms(1) by simp
  then obtain q where "unat a = 4 * q" by auto
  then have "unat a + i < 2 ^ 32" using u32_unat_less [of a] assms(2) by auto
  then show "unat (a + of_nat i) = unat a + i" by (simp add: unat_of_nat_u32 unat_add_lem [THEN iffD1])
qed

lemma aligned_disjoint:
  assumes "a mod 4 = 0" "b mod 4 = 0" "a \<noteq> (b :: addr)"
  shows "region a 4 \<inter> region b 4 = {}"
proof (rule ccontr)
  assume "region a 4 \<inter> region b 4 \<noteq> {}"
  then obtain i j where ij: "i < 4" "j < 4" "a + of_nat i = b + of_nat j" by (auto simp: region_mem)
  then have "unat a + i = unat b + j" using unat_aligned_add(1) [OF assms(1), of i] unat_aligned_add(1) [OF assms(2), of j] by simp
  then have "unat a = unat b"
    using unat_aligned_add(2) [OF assms(1) ij(1)] unat_aligned_add(2) [OF assms(2) ij(2)] ij by presburger
  then show False using assms(3) word_unat_eq_iff by blast
qed

lemma rd32_wr32_aligned:
  "a mod 4 = 0 \<Longrightarrow> b mod 4 = 0 \<Longrightarrow> rd32 (wr32 m a v) b = (if a = b then v else rd32 m b)"
  using rd32_wr32_other [OF aligned_disjoint] by auto

lemma foldM_append: "foldM f (xs @ ys) s = Option.bind (foldM f xs s) (foldM f ys)"
proof (induction xs arbitrary: s)
  case (Cons x xs)
  then show ?case by (cases "f x s") simp_all
qed simp

end
