(* ===== verification/Paging.thy ===== *)
theory Paging
  imports Bytes
begin

text \<open>
  Physical and virtual memory: \<open>kernel/pmm/pmm.c\<close>, \<open>kernel/vmm/vmm.c\<close> and
  \<open>asm/pageing/page.asm\<close>, over the two-level page tables of the i686.

  The page tables are bytes of the physical memory \<open>pmem\<close>, and every load and store of the code goes
  through the translation \<open>walk\<close> of the processor once paging is on, so that the code reaches its own
  tables only through the recursive mapping it has set up.  An access to an address that is not mapped
  does not come back (\<^const>\<open>None\<close>): no handler for the page fault is installed.  The kernel runs with
  write protection off, and cached translations (the TLB) are not modelled.  Messages are not modelled.
\<close>

record page_directory =
  physical :: addr
  directory :: addr
  pages :: addr

record page_directory_mount =
  m_directory :: addr
  m_pages :: addr

record vm =
  pmem :: mem
  vcr3 :: addr
  cr0_pg :: bool
  kernel_directory :: page_directory
  current_directory :: page_directory
  can_map :: bool
  pmm_paging_active :: bool
  pmm_stack_loc :: addr
  pmm_stack_max :: addr
  pmm_location :: addr

subsection \<open>Constants and address arithmetic\<close>

definition PAGE_SIZE :: u32 where "PAGE_SIZE = 0x1000"
definition PAGE_PRESENT :: u32 where "PAGE_PRESENT = 0x1"
definition PAGE_WRITE :: u32 where "PAGE_WRITE = 0x2"
definition PAGE_USER :: u32 where "PAGE_USER = 0x4"
definition PAGE_ADDR_MASK :: u32 where "PAGE_ADDR_MASK = 0xFFFFF000"
definition PAGE_FLAGS_MASK :: u32 where "PAGE_FLAGS_MASK = 0xFFF"

definition PAGE_ROUND_DOWN :: "u32 \<Rightarrow> u32" where
  "PAGE_ROUND_DOWN x = x AND PAGE_ADDR_MASK"

definition PAGE_ROUND_UP :: "u32 \<Rightarrow> u32" where
  "PAGE_ROUND_UP x = (x + PAGE_SIZE - 1) AND PAGE_ADDR_MASK"

definition PG_NUM_FROM_ADDR :: "u32 \<Rightarrow> u32" where
  "PG_NUM_FROM_ADDR x = drop_bit 12 x"

definition PG_FIRST_DIR_FROM_ADDR :: "u32 \<Rightarrow> u32" where
  "PG_FIRST_DIR_FROM_ADDR x = push_bit 10 (drop_bit 22 x)"

definition PGDIR_IDX_FROM_ADDR :: "u32 \<Rightarrow> u32" where
  "PGDIR_IDX_FROM_ADDR x = drop_bit 22 x"

definition PGTAB_IDX_FROM_ADDR :: "u32 \<Rightarrow> u32" where
  "PGTAB_IDX_FROM_ADDR x = drop_bit 12 x AND 0x3FF"

definition LOWMEM_ID_MAP_END :: addr where "LOWMEM_ID_MAP_END = 0x00400000"
definition USER_DIR_VIRTUAL :: addr where "USER_DIR_VIRTUAL = 0xEFBFF000"
definition USER_TABLES_VIRTUAL :: addr where "USER_TABLES_VIRTUAL = 0xEFC00000"
definition KERNEL_ADDRESS_SPACE :: addr where "KERNEL_ADDRESS_SPACE = 0xF0000000"
definition MOUNT_TABS_START :: addr where "MOUNT_TABS_START = 0xFD000000"
definition MOUNT_TABS_END :: addr where "MOUNT_TABS_END = 0xFF000000"
definition MOUNT_DIR_START :: addr where "MOUNT_DIR_START = 0xFF7FB000"
definition MOUNT_DIR_END :: addr where "MOUNT_DIR_END = 0xFF7FF000"
definition PMM_STACK_START :: addr where "PMM_STACK_START = 0xFF7FF000"
definition KERNEL_DIR_VIRTUAL :: addr where "KERNEL_DIR_VIRTUAL = 0xFFBFF000"
definition KERNEL_TABLES_VIRTUAL :: addr where "KERNEL_TABLES_VIRTUAL = 0xFFC00000"

subsection \<open>The processor\<close>

definition pde_addr :: "addr \<Rightarrow> addr \<Rightarrow> addr" where
  "pde_addr dir va = (dir AND PAGE_ADDR_MASK) + 4 * PGDIR_IDX_FROM_ADDR va"

definition pte_addr :: "u32 \<Rightarrow> addr \<Rightarrow> addr" where
  "pte_addr pde va = (pde AND PAGE_ADDR_MASK) + 4 * PGTAB_IDX_FROM_ADDR va"

definition walk :: "mem \<Rightarrow> addr \<Rightarrow> addr \<Rightarrow> addr option" where
  "walk m dir va =
     (let pde = rd32 m (pde_addr dir va);
          pte = rd32 m (pte_addr pde va)
      in if pde AND PAGE_PRESENT = 0 \<or> pte AND PAGE_PRESENT = 0 then None
         else Some ((pte AND PAGE_ADDR_MASK) + (va AND PAGE_FLAGS_MASK)))"

definition xlate :: "vm \<Rightarrow> addr \<Rightarrow> addr option" where
  "xlate s va = (if cr0_pg s then walk (pmem s) (vcr3 s) va else Some va)"

definition load :: "addr \<Rightarrow> vm \<Rightarrow> u32 option" where
  "load va s = map_option (rd32 (pmem s)) (xlate s va)"

definition store :: "addr \<Rightarrow> u32 \<Rightarrow> vm \<Rightarrow> vm option" where
  "store va v s = map_option (\<lambda>pa. s\<lparr>pmem := wr32 (pmem s) pa v\<rparr>) (xlate s va)"

text \<open>\<open>memset(va, 0, n)\<close>, a byte at a time.\<close>

definition store8 :: "addr \<Rightarrow> u8 \<Rightarrow> vm \<Rightarrow> vm option" where
  "store8 va b s = map_option (\<lambda>pa. s\<lparr>pmem := (pmem s)(pa := b)\<rparr>) (xlate s va)"

definition memzero :: "addr \<Rightarrow> nat \<Rightarrow> vm \<Rightarrow> vm option" where
  "memzero va n s = foldM (\<lambda>i. store8 (va + of_nat i) 0) [0..<n] s"

subsection \<open>Physical pages and mappings\<close>

definition init_pmm_page :: "u32 \<Rightarrow> vm \<Rightarrow> vm" where
  "init_pmm_page pmm_start s = s\<lparr>pmm_location := (pmm_start + PAGE_SIZE) AND PAGE_ADDR_MASK\<rparr>"

definition pmm_alloc_page :: "vm \<Rightarrow> (u32 \<times> vm) option" where
  "pmm_alloc_page s =
     (if \<not> pmm_paging_active s then Some (pmm_location s, s\<lparr>pmm_location := pmm_location s + PAGE_SIZE\<rparr>)
      else do {
        let s = s\<lparr>pmm_stack_loc := pmm_stack_loc s - 4\<rparr>;
        v \<leftarrow> load (pmm_stack_loc s) s;
        Some (v, s)
      })"

text \<open>The comparison with the kernel directory, for kernel addresses, only prints; its loads are kept.\<close>

definition map_page :: "u32 \<Rightarrow> u32 \<Rightarrow> u32 \<Rightarrow> vm \<Rightarrow> vm option" where
  "map_page va pa flags s =
     (if \<not> can_map s then None
      else do {
        let dir_entry = PGDIR_IDX_FROM_ADDR va;
        let page_num = PG_NUM_FROM_ADDR va;
        let d = directory (current_directory s) + 4 * dir_entry;
        e \<leftarrow> load d s;
        s \<leftarrow> (if e = 0 then do {
                (p, s) \<leftarrow> pmm_alloc_page s;
                s \<leftarrow> store d (p OR PAGE_PRESENT OR PAGE_WRITE) s;
                memzero (pages (current_directory s) + 4 * (dir_entry * 1024)) 4096 s
              } else Some s);
        s \<leftarrow> store (pages (current_directory s) + 4 * page_num) ((pa AND PAGE_ADDR_MASK) OR PAGE_PRESENT OR flags) s;
        if KERNEL_ADDRESS_SPACE \<le> va then do {
          _ \<leftarrow> load (pages (current_directory s) + 4 * page_num) s;
          _ \<leftarrow> load (pages (kernel_directory s) + 4 * page_num) s;
          Some s
        } else Some s
      })"

definition unmap :: "u32 \<Rightarrow> vm \<Rightarrow> vm option" where
  "unmap va s = store (pages (current_directory s) + 4 * PG_NUM_FROM_ADDR va) 0 s"

text \<open>The result: \<^const>\<open>None\<close> for 0, the physical address for 1.\<close>

definition get_mapping :: "u32 \<Rightarrow> vm \<Rightarrow> u32 option option" where
  "get_mapping va s = do {
     e \<leftarrow> load (directory (current_directory s) + 4 * PGDIR_IDX_FROM_ADDR va) s;
     if e = 0 then Some None
     else do {
       p \<leftarrow> load (pages (current_directory s) + 4 * PG_NUM_FROM_ADDR va) s;
       Some (if p \<noteq> 0 then Some ((p AND PAGE_ADDR_MASK) + (va AND PAGE_FLAGS_MASK)) else None)
     }
   }"

definition pmm_free_page :: "u32 \<Rightarrow> vm \<Rightarrow> vm option" where
  "pmm_free_page p s =
     (let p = p AND PAGE_ADDR_MASK
      in if p < pmm_location s then Some s
         else if pmm_stack_max s \<le> pmm_stack_loc s then do {
           s \<leftarrow> map_page (pmm_stack_max s) p (PAGE_PRESENT OR PAGE_WRITE) s;
           Some (s\<lparr>pmm_stack_max := pmm_stack_max s + PAGE_SIZE\<rparr>)
         } else do {
           s \<leftarrow> store (pmm_stack_loc s) p s;
           Some (s\<lparr>pmm_stack_loc := pmm_stack_loc s + 4\<rparr>)
         })"

text \<open>
  The memory map of the boot loader is the list of the entries the loop over \<open>mmap_addr\<close> meets: type,
  \<open>addr_low\<close> and \<open>len_low\<close>.
\<close>

partial_function (option) collect_range :: "u32 \<Rightarrow> u32 \<Rightarrow> vm \<Rightarrow> vm option" where
  "collect_range j lim s =
     (if j < lim then do { s \<leftarrow> pmm_free_page j s; collect_range (j + 0x1000) lim s } else Some s)"

definition pmm_collect_pages :: "(u32 \<times> u32 \<times> u32) list \<Rightarrow> vm \<Rightarrow> vm option" where
  "pmm_collect_pages mmap s =
     foldM (\<lambda>(type, addr_low, len_low) s. if type = 1 then collect_range addr_low (addr_low + len_low) s else Some s) mmap s"

primrec alloc_pages_loop :: "nat \<Rightarrow> u32 \<Rightarrow> vm \<Rightarrow> vm option" where
  "alloc_pages_loop 0 va_adder s = Some s"
| "alloc_pages_loop (Suc k) va_adder s = do {
     (adder, s) \<leftarrow> pmm_alloc_page s;
     s \<leftarrow> map_page (va_adder + PAGE_SIZE) adder (PAGE_PRESENT OR PAGE_WRITE) s;
     alloc_pages_loop k (va_adder + PAGE_SIZE) s
   }"

definition pmm_alloc_pages :: "u32 \<Rightarrow> vm \<Rightarrow> (u32 \<times> vm) option" where
  "pmm_alloc_pages num_pages s = do {
     (start, s) \<leftarrow> pmm_alloc_page s;
     s \<leftarrow> map_page start start (PAGE_PRESENT OR PAGE_WRITE) s;
     s \<leftarrow> alloc_pages_loop (unat (num_pages - PAGE_SIZE)) start s;
     Some (start, s)
   }"

subsection \<open>Setting up the kernel directory\<close>

definition switch_page_directory :: "page_directory \<Rightarrow> vm \<Rightarrow> vm" where
  "switch_page_directory dir s = s\<lparr>current_directory := dir, vcr3 := physical dir\<rparr>"

text \<open>A fresh, cleared table, entered into the directory at \<open>dir_ptr\<close> under index \<open>i\<close>.\<close>

definition new_table :: "addr \<Rightarrow> u32 \<Rightarrow> vm \<Rightarrow> (addr \<times> vm) option" where
  "new_table dir_ptr i s = do {
     (tab_ptr, s) \<leftarrow> pmm_alloc_page s;
     s \<leftarrow> memzero tab_ptr 4096 s;
     s \<leftarrow> store (dir_ptr + 4 * i) (tab_ptr OR PAGE_PRESENT OR PAGE_WRITE) s;
     Some (tab_ptr, s)
   }"

definition fill_table :: "addr \<Rightarrow> u32 \<Rightarrow> vm \<Rightarrow> vm option" where
  "fill_table dir_ptr i s = do {
     e \<leftarrow> load (dir_ptr + 4 * i) s;
     if e = 0 then map_option snd (new_table dir_ptr i s) else Some s
   }"

definition kernel_tables :: "addr \<Rightarrow> vm \<Rightarrow> vm option" where
  "kernel_tables dir_ptr s =
     foldM (fill_table dir_ptr)
       (map of_nat [unat (PGDIR_IDX_FROM_ADDR KERNEL_ADDRESS_SPACE)..<unat (PGDIR_IDX_FROM_ADDR MOUNT_TABS_START)]) s"

text \<open>The first half of \<open>init_vmm\<close>: the directory, the identity mapping of low memory, and the recursive mapping.\<close>

definition mount_kernel :: "vm \<Rightarrow> (addr \<times> vm) option" where
  "mount_kernel s = do {
     (dir_ptr, s) \<leftarrow> pmm_alloc_page s;
     s \<leftarrow> memzero dir_ptr 4096 s;
     let s = s\<lparr>kernel_directory := (kernel_directory s)\<lparr>physical := dir_ptr\<rparr>\<rparr>;
     (tab_ptr, s) \<leftarrow> new_table dir_ptr 0 s;
     s \<leftarrow> foldM (\<lambda>i. store (tab_ptr + 4 * of_nat i) ((of_nat i * 0x1000) OR PAGE_PRESENT OR PAGE_WRITE))
            [0..<unat (PG_NUM_FROM_ADDR LOWMEM_ID_MAP_END)] s;
     (tab_ptr, s) \<leftarrow> new_table dir_ptr (PGDIR_IDX_FROM_ADDR KERNEL_DIR_VIRTUAL) s;
     s \<leftarrow> store (tab_ptr + 4 * PGTAB_IDX_FROM_ADDR KERNEL_DIR_VIRTUAL) (dir_ptr OR PAGE_PRESENT OR PAGE_WRITE) s;
     s \<leftarrow> store (dir_ptr + 4 * PGDIR_IDX_FROM_ADDR KERNEL_TABLES_VIRTUAL) (dir_ptr OR PAGE_PRESENT OR PAGE_WRITE) s;
     Some (dir_ptr, s\<lparr>kernel_directory := (kernel_directory s)\<lparr>directory := KERNEL_DIR_VIRTUAL, pages := KERNEL_TABLES_VIRTUAL\<rparr>\<rparr>)
   }"

definition init_vmm :: "vm \<Rightarrow> vm option" where
  "init_vmm s = do {
     (dir_ptr, s) \<leftarrow> mount_kernel s;
     s \<leftarrow> kernel_tables dir_ptr s;
     s \<leftarrow> kernel_tables dir_ptr s;
     let s = (switch_page_directory (kernel_directory s) s)\<lparr>cr0_pg := True\<rparr>;
     (p, s) \<leftarrow> pmm_alloc_page s;
     s \<leftarrow> store (directory (kernel_directory s) + 4 * PGDIR_IDX_FROM_ADDR PMM_STACK_START) (p OR PAGE_PRESENT OR PAGE_WRITE) s;
     s \<leftarrow> memzero (pages (kernel_directory s) + 4 * PG_FIRST_DIR_FROM_ADDR PMM_STACK_START) 4096 s;
     Some (s\<lparr>pmm_paging_active := True, can_map := True\<rparr>)
   }"

subsection \<open>Ranges of virtual addresses\<close>

partial_function (option) scan_range :: "u32 \<Rightarrow> u32 \<Rightarrow> vm \<Rightarrow> u32 option" where
  "scan_range va lim s =
     (if va < lim then do { r \<leftarrow> get_mapping va s; if r \<noteq> None then Some va else scan_range (va + PAGE_SIZE) lim s }
      else Some va)"

partial_function (option) skip_to :: "u32 \<Rightarrow> u32 \<Rightarrow> u32 \<Rightarrow> u32 option" where
  "skip_to va_start va step = (if va_start \<le> va then skip_to (va_start + step) va step else Some va_start)"

partial_function (option) free_range_loop :: "u32 \<Rightarrow> u32 \<Rightarrow> u32 \<Rightarrow> u32 \<Rightarrow> vm \<Rightarrow> u32 option" where
  "free_range_loop va_start va_end sz step s =
     (if va_start < va_end then do {
        va \<leftarrow> scan_range va_start (va_start + sz) s;
        if va = va_start + sz then Some va_start
        else do { va_start \<leftarrow> skip_to va_start va step; free_range_loop va_start va_end sz step s }
      } else Some va_end)"

definition find_free_range :: "u32 \<Rightarrow> u32 \<Rightarrow> u32 \<Rightarrow> bool \<Rightarrow> vm \<Rightarrow> u32 option" where
  "find_free_range va_start va_end sz size_aligned s =
     (let sz = PAGE_ROUND_UP sz
      in free_range_loop (PAGE_ROUND_DOWN va_start) (PAGE_ROUND_UP va_end) sz (if size_aligned then sz else PAGE_SIZE) s)"

partial_function (option) allocate_loop :: "u32 \<Rightarrow> u32 \<Rightarrow> u32 \<Rightarrow> vm \<Rightarrow> vm option" where
  "allocate_loop va va_end flags s =
     (if va < va_end then do {
        r \<leftarrow> get_mapping va s;
        s \<leftarrow> (case r of
               Some pa \<Rightarrow> map_page va pa flags s
             | None \<Rightarrow> do { (p, s) \<leftarrow> pmm_alloc_page s; map_page va p flags s });
        allocate_loop (va + PAGE_SIZE) va_end flags s
      } else Some s)"

definition allocate_range :: "u32 \<Rightarrow> u32 \<Rightarrow> u32 \<Rightarrow> vm \<Rightarrow> (u32 \<times> vm) option" where
  "allocate_range va_start va_end flags s = do {
     s \<leftarrow> allocate_loop (PAGE_ROUND_DOWN va_start) (PAGE_ROUND_UP va_end) flags s;
     Some (PAGE_ROUND_UP va_end, s)
   }"

partial_function (option) map_loop :: "u32 \<Rightarrow> u32 \<Rightarrow> u32 \<Rightarrow> u32 \<Rightarrow> u32 \<Rightarrow> vm \<Rightarrow> vm option" where
  "map_loop offset sz va pa flags s =
     (if offset < sz then do {
        s \<leftarrow> map_page (va + offset) (pa + offset) flags s;
        map_loop (offset + PAGE_SIZE) sz va pa flags s
      } else Some s)"

definition sys_allocate_virtual_memory :: "u32 \<Rightarrow> u32 \<Rightarrow> u32 \<Rightarrow> vm \<Rightarrow> (u32 \<times> vm) option" where
  "sys_allocate_virtual_memory va sz flags s = do {
     (pa, s) \<leftarrow> pmm_alloc_page s;
     if pa = 0 then Some (0, s)
     else do { s \<leftarrow> map_loop 0 (PAGE_ROUND_UP sz) va pa flags s; Some (va, s) }
   }"

subsection \<open>Directories of processes\<close>

primrec first_free_dir :: "addr list \<Rightarrow> vm \<Rightarrow> addr option" where
  "first_free_dir [] s = Some 0"
| "first_free_dir (va # vas) s = do { r \<leftarrow> get_mapping va s; if r = None then Some va else first_free_dir vas s }"

primrec first_free_tabs :: "addr list \<Rightarrow> vm \<Rightarrow> addr option" where
  "first_free_tabs [] s = Some 0"
| "first_free_tabs (va # vas) s = do {
     e \<leftarrow> load (directory (current_directory s) + 4 * PGDIR_IDX_FROM_ADDR va) s;
     if e = 0 then Some va else first_free_tabs vas s
   }"

text \<open>The two loops run over the four page slots and the eight table slots of the layout.\<close>

definition find_mount_point :: "vm \<Rightarrow> page_directory_mount option" where
  "find_mount_point s = do {
     d \<leftarrow> first_free_dir (map (\<lambda>i. MOUNT_DIR_START + of_nat i * PAGE_SIZE)
            [0..<unat ((MOUNT_DIR_END - MOUNT_DIR_START) div PAGE_SIZE)]) s;
     p \<leftarrow> first_free_tabs (map (\<lambda>i. MOUNT_TABS_START + of_nat i * (1024 * PAGE_SIZE))
            [0..<unat ((MOUNT_TABS_END - MOUNT_TABS_START) div (1024 * PAGE_SIZE))]) s;
     Some \<lparr>m_directory = d, m_pages = p\<rparr>
   }"

definition mount_directory :: "page_directory \<Rightarrow> vm \<Rightarrow> (page_directory_mount \<times> vm) option" where
  "mount_directory dir s = do {
     mount \<leftarrow> find_mount_point s;
     let dir_idx = PGDIR_IDX_FROM_ADDR (m_pages mount);
     r \<leftarrow> get_mapping (m_directory mount) s;
     _ \<leftarrow> (if r = None then load (directory (current_directory s) + 4 * dir_idx) s else Some 0);
     s \<leftarrow> map_page (m_directory mount) (physical dir) (PAGE_PRESENT OR PAGE_WRITE) s;
     s \<leftarrow> store (directory (current_directory s) + 4 * dir_idx) (physical dir OR PAGE_PRESENT OR PAGE_WRITE) s;
     Some (mount, s)
   }"

definition umount_directory :: "page_directory_mount \<Rightarrow> vm \<Rightarrow> vm option" where
  "umount_directory mount s = do {
     s \<leftarrow> unmap (m_directory mount) s;
     store (directory (current_directory s) + 4 * PGDIR_IDX_FROM_ADDR (m_pages mount)) 0 s
   }"

text \<open>
  \<open>copy_page_physical\<close> of \<open>page.asm\<close>: with paging off, 1024 words from the address in the first argument
  to the address in the second one, in order.
\<close>

definition copy_page_physical :: "addr \<Rightarrow> addr \<Rightarrow> vm \<Rightarrow> vm" where
  "copy_page_physical arg1 arg2 s =
     s\<lparr>pmem := fold (\<lambda>i m. wr32 m (arg2 + 4 * of_nat i) (rd32 m (arg1 + 4 * of_nat i))) [0..<1024] (pmem s)\<rparr>"

end
