(* ===== verification/PagingTables.thy ===== *)
theory PagingTables
  imports Paging
begin

text \<open>
  The page tables seen as a two-dimensional array: index arithmetic on addresses, the recursive mapping
  through which the kernel reaches its own tables, the invariant of the tables, and the effect of writing
  one entry or adding one table.
\<close>

definition paligned :: "addr \<Rightarrow> bool" where
  "paligned a \<longleftrightarrow> unat a mod 4096 = 0"

lemma mask_low: "unat (x AND PAGE_FLAGS_MASK) = unat x mod 4096"
proof -
  have "x AND PAGE_FLAGS_MASK = take_bit 12 x" by (simp add: take_bit_eq_mask PAGE_FLAGS_MASK_def mask_eq_exp_minus_1)
  then show ?thesis by (simp add: take_bit_eq_mod unat_mod)
qed

lemma mask_high: "unat (x AND PAGE_ADDR_MASK) = 4096 * (unat x div 4096)"
proof -
  have "(0xFFFFF000 :: u32) = NOT 0xFFF" by simp
  also have "(0xFFF :: u32) = mask 12" by (simp add: mask_eq_exp_minus_1)
  finally have m: "PAGE_ADDR_MASK = NOT (mask 12)" by (simp add: PAGE_ADDR_MASK_def)
  have "x AND PAGE_ADDR_MASK = push_bit 12 (drop_bit 12 x)"
    unfolding m by (rule bit_word_eqI) (auto simp: bit_simps)
  also have "\<dots> = (x div 4096) * 4096" by (simp add: push_bit_eq_mult drop_bit_eq_div)
  finally have e: "x AND PAGE_ADDR_MASK = (x div 4096) * 4096" .
  have "unat (x div 4096) = unat x div 4096" by (simp add: unat_div)
  moreover have "unat x div 4096 * 4096 < 2 ^ 32" using u32_unat_less [of x] by (simp add: div_times_less_eq_dividend le_less_trans)
  ultimately have "unat ((x div 4096) * 4096) = unat x div 4096 * 4096" by (subst unat_mult_lem [THEN iffD1]) simp_all
  then show ?thesis using e by simp
qed

lemma idx_dir: "unat (PGDIR_IDX_FROM_ADDR x) = unat x div 2 ^ 22"
  by (simp add: PGDIR_IDX_FROM_ADDR_def drop_bit_eq_div unat_div)

lemma idx_num: "unat (PG_NUM_FROM_ADDR x) = unat x div 4096"
  by (simp add: PG_NUM_FROM_ADDR_def drop_bit_eq_div unat_div)

lemma idx_tab: "unat (PGTAB_IDX_FROM_ADDR x) = unat x div 4096 mod 1024"
proof -
  have "PGTAB_IDX_FROM_ADDR x = take_bit 10 (drop_bit 12 x)" by (simp add: take_bit_eq_mask PGTAB_IDX_FROM_ADDR_def mask_eq_exp_minus_1)
  then show ?thesis by (simp add: take_bit_eq_mod unat_mod drop_bit_eq_div unat_div)
qed
lemma paligned_mask: "paligned (x AND PAGE_ADDR_MASK)"
  by (simp add: paligned_def mask_high)

lemma unat_page_add:
  assumes "paligned b" "unat k < 4096"
  shows "unat (b + k) = unat b + unat k"
proof -
  obtain q where "unat b = 4096 * q" using assms(1) by (auto simp: paligned_def)
  then have "unat b + unat k < 2 ^ 32" using u32_unat_less [of b] assms(2) by simp
  then show ?thesis by (simp add: unat_add_lem [THEN iffD1])
qed

lemma page_of_add:
  assumes "paligned b" "unat k < 4096"
  shows "(b + k) AND PAGE_ADDR_MASK = b" "(b + k) AND PAGE_FLAGS_MASK = k"
proof -
  obtain q where q: "unat b = 4096 * q" using assms(1) by (auto simp: paligned_def)
  have u: "unat (b + k) = 4096 * q + unat k" using unat_page_add [OF assms] q by simp
  have "(4096 * q + unat k) div 4096 = q" "(4096 * q + unat k) mod 4096 = unat k" using assms(2) by simp_all
  then show "(b + k) AND PAGE_ADDR_MASK = b" "(b + k) AND PAGE_FLAGS_MASK = k"
    by (simp_all add: word_unat_eq_iff mask_high mask_low u q)
qed

lemma page_split: "(x AND PAGE_ADDR_MASK) + (x AND PAGE_FLAGS_MASK) = x"
proof -
  have "unat ((x AND PAGE_ADDR_MASK) + (x AND PAGE_FLAGS_MASK)) = unat x"
    using unat_page_add [OF paligned_mask, of "x AND PAGE_FLAGS_MASK" x] by (simp add: mask_low mask_high)
  then show ?thesis by (simp add: word_unat_eq_iff)
qed

lemma entry_flags:
  assumes "paligned p" "unat f < 4096"
  shows "(p OR f) AND PAGE_ADDR_MASK = p" "(p OR f) AND PAGE_PRESENT = f AND PAGE_PRESENT"
proof -
  have "p AND f = 0"
  proof -
    have 1: "p AND PAGE_ADDR_MASK = p" using page_of_add(1) [of p 0] assms(1) by simp
    have 2: "f AND PAGE_FLAGS_MASK = f" using assms(2) by (simp add: word_unat_eq_iff mask_low)
    have "PAGE_ADDR_MASK AND PAGE_FLAGS_MASK = 0" by (simp add: PAGE_ADDR_MASK_def PAGE_FLAGS_MASK_def)
    moreover have "(p AND PAGE_ADDR_MASK) AND (f AND PAGE_FLAGS_MASK) = (p AND f) AND (PAGE_ADDR_MASK AND PAGE_FLAGS_MASK)"
      by (simp only: and.assoc and.left_commute)
    ultimately show ?thesis unfolding 1 2 by simp
  qed
  then have e: "p OR f = p + f" using disjunctive_add_eq_or [of p f] by simp
  show "(p OR f) AND PAGE_ADDR_MASK = p" unfolding e by (rule page_of_add(1) [OF assms])
  have "p AND PAGE_PRESENT = 0"
  proof -
    have "unat (p AND 1) = unat p mod 2" by (simp add: and_one_eq unat_mod)
    moreover have "unat p mod 2 = 0" using assms(1) by (auto simp: paligned_def)
    ultimately show ?thesis by (simp add: PAGE_PRESENT_def word_unat_eq_iff)
  qed
  then show "(p OR f) AND PAGE_PRESENT = f AND PAGE_PRESENT" by (simp add: bit.conj_disj_distrib2)
qed

subsection \<open>The tables as a two-dimensional array\<close>

abbreviation base :: "u32 \<Rightarrow> addr" where "base e \<equiv> e AND PAGE_ADDR_MASK"
abbreviation present :: "u32 \<Rightarrow> bool" where "present e \<equiv> e AND PAGE_PRESENT \<noteq> 0"

definition pde :: "mem \<Rightarrow> addr \<Rightarrow> u32 \<Rightarrow> u32" where
  "pde m D i = rd32 m (D + 4 * i)"

definition pte :: "mem \<Rightarrow> addr \<Rightarrow> u32 \<Rightarrow> u32 \<Rightarrow> u32" where
  "pte m D i j = rd32 m (base (pde m D i) + 4 * j)"

lemma unat_4: "unat (x :: u32) < 1024 \<Longrightarrow> unat (4 * x) = 4 * unat x"
  by (subst unat_mult_lem [THEN iffD1]) simp_all

lemma entry_unat: "paligned b \<Longrightarrow> unat x < 1024 \<Longrightarrow> unat (b + 4 * x) = unat b + 4 * unat x"
  using unat_page_add [of b "4 * x"] by (simp add: unat_4)

lemma entry_page: "paligned b \<Longrightarrow> unat x < 1024 \<Longrightarrow> base (b + 4 * x) = b"
  using page_of_add(1) [of b "4 * x"] by (simp add: unat_4)

lemma entry_aligned:
  assumes "paligned b" "unat x < 1024"
  shows "(b + 4 * x) mod 4 = 0"
proof -
  obtain q where q: "unat b = 4096 * q" using assms(1) by (auto simp: paligned_def)
  have "unat ((b + 4 * x) mod 4) = (4096 * q + 4 * unat x) mod 4"
    using entry_unat [OF assms] q by (simp add: unat_mod)
  also have "4096 * q + 4 * unat x = 4 * (1024 * q + unat x)" by simp
  also have "\<dots> mod 4 = 0" by (rule mod_mult_self1_is_0)
  finally show ?thesis by (simp add: word_unat_eq_iff)
qed

lemma entry_inj:
  assumes "paligned b" "paligned c" "unat x < 1024" "unat y < 1024" "b + 4 * x = c + 4 * y"
  shows "b = c \<and> x = y"
proof -
  have bc: "b = c" using entry_page [of b x] entry_page [of c y] assms by simp
  then have "unat (4 * x) = unat (4 * y)" using assms(5) by simp
  then show ?thesis using bc unat_4 assms(3,4) by (simp add: word_unat_eq_iff)
qed

lemma rd32_wr32_entry:
  assumes "paligned b" "paligned c" "unat x < 1024" "unat y < 1024"
  shows "rd32 (wr32 m (b + 4 * x) v) (c + 4 * y) = (if b = c \<and> x = y then v else rd32 m (c + 4 * y))"
  using rd32_wr32_aligned [OF entry_aligned [OF assms(1,3)] entry_aligned [OF assms(2,4)], of m v] entry_inj [OF assms] by auto

lemma walk_entries:
  assumes "paligned D"
  shows "walk m D va =
    (let i = PGDIR_IDX_FROM_ADDR va; j = PGTAB_IDX_FROM_ADDR va
     in if present (pde m D i) \<and> present (pte m D i j) then Some (base (pte m D i j) + (va AND PAGE_FLAGS_MASK)) else None)"
proof -
  have "D AND PAGE_ADDR_MASK = D" using page_of_add(1) [of D 0] assms by simp
  then show ?thesis by (simp add: walk_def pde_addr_def pte_addr_def pde_def pte_def Let_def)
qed

subsection \<open>The recursive mapping\<close>

lemma tables_index_byte:
  assumes "unat i < 1024" "unat k < 4096"
  defines "v \<equiv> KERNEL_TABLES_VIRTUAL + (4096 * i + k)"
  shows "PGDIR_IDX_FROM_ADDR v = 1023" "PGTAB_IDX_FROM_ADDR v = i" "v AND PAGE_FLAGS_MASK = k"
proof -
  have "unat (4096 * i) = 4096 * unat i" using assms(1) by (subst unat_mult_lem [THEN iffD1]) simp_all
  then have e: "unat (4096 * i + k) = 4096 * unat i + unat k" using assms by (subst unat_add_lem [THEN iffD1]) simp_all
  have "unat v = 1023 * 1024 * 4096 + (4096 * unat i + unat k)"
    unfolding v_def using e assms(1,2)
    by (subst unat_add_lem [THEN iffD1]) (simp_all add: KERNEL_TABLES_VIRTUAL_def)
  moreover have "4096 * unat i + unat k < 4194304" using assms(1,2) by linarith
  moreover have "(4096 * (1023 * 1024 + unat i) + unat k) mod 4096 = unat k"
    unfolding mod_mult_self4 using assms(2) by simp
  ultimately have "unat v div 4194304 = 1023" "unat v div 4096 = 1023 * 1024 + unat i" "unat v mod 4096 = unat k"
    using assms(2) by (simp_all add: add.assoc)
  moreover have "(1024 * 1023 + unat i) mod 1024 = unat i" unfolding mod_mult_self4 using assms(1) by simp
  ultimately show "PGDIR_IDX_FROM_ADDR v = 1023" "PGTAB_IDX_FROM_ADDR v = i" "v AND PAGE_FLAGS_MASK = k"
    using assms(1,2) by (simp_all add: word_unat_eq_iff idx_dir idx_tab mask_low)
qed

lemma dir_index:
  assumes "unat i < 1024"
  defines "v \<equiv> KERNEL_DIR_VIRTUAL + 4 * i"
  shows "PGDIR_IDX_FROM_ADDR v = 1022" "PGTAB_IDX_FROM_ADDR v = 1023" "v AND PAGE_FLAGS_MASK = 4 * i"
proof -
  have "unat v = 1022 * 1024 * 4096 + (1023 * 4096 + 4 * unat i)"
    unfolding v_def using unat_4 [OF assms(1)] assms(1)
    by (subst unat_add_lem [THEN iffD1]) (simp_all add: KERNEL_DIR_VIRTUAL_def)
  moreover have "(4096 * (1022 * 1024 + 1023) + 4 * unat i) mod 4096 = 4 * unat i"
    unfolding mod_mult_self4 using assms(1) by simp
  ultimately have "unat v div 4194304 = 1022" "unat v div 4096 = 1022 * 1024 + 1023" "unat v mod 4096 = 4 * unat i"
    using assms(1) by simp_all
  then show "PGDIR_IDX_FROM_ADDR v = 1022" "PGTAB_IDX_FROM_ADDR v = 1023" "v AND PAGE_FLAGS_MASK = 4 * i"
    using assms(1) by (simp_all add: word_unat_eq_iff idx_dir idx_tab mask_low unat_4)
qed

lemma page_num_split: "PG_NUM_FROM_ADDR va = 1024 * PGDIR_IDX_FROM_ADDR va + PGTAB_IDX_FROM_ADDR va"
proof -
  have "unat va div 2 ^ 22 < 1024" using u32_unat_less [of va] by (simp add: div_less_iff_less_mult)
  then have b: "unat (PGDIR_IDX_FROM_ADDR va) < 1024" "unat (PGTAB_IDX_FROM_ADDR va) < 1024" by (simp_all add: idx_dir idx_tab)
  then have "unat (1024 * PGDIR_IDX_FROM_ADDR va) = 1024 * unat (PGDIR_IDX_FROM_ADDR va)" by (subst unat_mult_lem [THEN iffD1]) simp_all
  then have "unat (1024 * PGDIR_IDX_FROM_ADDR va + PGTAB_IDX_FROM_ADDR va) = 1024 * (unat va div 2 ^ 22) + unat va div 4096 mod 1024"
    using b by (subst unat_add_lem [THEN iffD1]) (simp_all add: idx_dir idx_tab)
  also have "unat va div 2 ^ 22 = unat va div 4096 div 1024" by (simp add: div_mult2_eq [symmetric])
  also have "1024 * (unat va div 4096 div 1024) + unat va div 4096 mod 1024 = unat (PG_NUM_FROM_ADDR va)"
    unfolding idx_num by (rule mult_div_mod_eq)
  finally show ?thesis unfolding word_unat_eq_iff by (rule sym)
qed

lemma idx_bounds: "unat (PGDIR_IDX_FROM_ADDR va) < 1024" "unat (PGTAB_IDX_FROM_ADDR va) < 1024"
proof -
  have "unat va div 2 ^ 22 < 1024" using u32_unat_less [of va] by (simp add: div_less_iff_less_mult)
  then show "unat (PGDIR_IDX_FROM_ADDR va) < 1024" "unat (PGTAB_IDX_FROM_ADDR va) < 1024" by (simp_all add: idx_dir idx_tab)
qed

lemma page_num_eq:
  "PG_NUM_FROM_ADDR a = PG_NUM_FROM_ADDR b \<longleftrightarrow> PGDIR_IDX_FROM_ADDR a = PGDIR_IDX_FROM_ADDR b \<and> PGTAB_IDX_FROM_ADDR a = PGTAB_IDX_FROM_ADDR b"
proof
  assume "PG_NUM_FROM_ADDR a = PG_NUM_FROM_ADDR b"
  then have e: "unat a div 4096 = unat b div 4096" by (metis idx_num)
  have "unat x div 2 ^ 22 = unat x div 4096 div 1024" for x :: u32 by (simp add: div_mult2_eq [symmetric])
  then show "PGDIR_IDX_FROM_ADDR a = PGDIR_IDX_FROM_ADDR b \<and> PGTAB_IDX_FROM_ADDR a = PGTAB_IDX_FROM_ADDR b"
    unfolding word_unat_eq_iff idx_dir idx_tab using e by simp
qed (simp add: page_num_split)

definition mounted :: "mem \<Rightarrow> addr \<Rightarrow> bool" where
  "mounted m D \<longleftrightarrow> paligned D \<and> present (pde m D 1023) \<and> base (pde m D 1023) = D
     \<and> present (pde m D 1022) \<and> present (pte m D 1022 1023) \<and> base (pte m D 1022 1023) = D"

lemma walk_dir:
  assumes "mounted m D" "unat i < 1024"
  shows "walk m D (KERNEL_DIR_VIRTUAL + 4 * i) = Some (D + 4 * i)"
  using assms by (simp add: walk_entries mounted_def dir_index Let_def)

definition selfmapped :: "mem \<Rightarrow> addr \<Rightarrow> bool" where
  "selfmapped m D \<longleftrightarrow> paligned D \<and> present (pde m D 1023) \<and> base (pde m D 1023) = D"

lemma walk_tables_byte:
  assumes "selfmapped m D" "unat i < 1024" "unat k < 4096" "present (pde m D i)"
  shows "walk m D (KERNEL_TABLES_VIRTUAL + (4096 * i + k)) = Some (base (pde m D i) + k)"
proof -
  have "pte m D 1023 i = pde m D i" using assms(1) by (simp add: selfmapped_def pte_def pde_def)
  then show ?thesis using assms walk_entries [of D m "KERNEL_TABLES_VIRTUAL + (4096 * i + k)"]
    unfolding tables_index_byte [OF assms(2,3)] by (simp add: selfmapped_def Let_def)
qed

lemma mounted_self: "mounted m D \<Longrightarrow> selfmapped m D"
  by (simp add: mounted_def selfmapped_def)

lemma walk_tables:
  assumes "mounted m D" "unat i < 1024" "unat j < 1024" "present (pde m D i)"
  shows "walk m D (KERNEL_TABLES_VIRTUAL + 4 * (1024 * i + j)) = Some (base (pde m D i) + 4 * j)"
proof -
  have "unat (4 * j) < 4096" using assms(3) by (simp add: unat_4)
  moreover have "4 * (1024 * i + j) = 4096 * i + 4 * j" by (simp add: algebra_simps)
  ultimately show ?thesis using walk_tables_byte [OF mounted_self [OF assms(1)] assms(2) _ assms(4), of "4 * j"] by simp
qed

subsection \<open>The invariant of the tables\<close>

definition tables_wf :: "mem \<Rightarrow> addr \<Rightarrow> bool" where
  "tables_wf m D \<longleftrightarrow> paligned D
     \<and> (\<forall>i. unat i < 1024 \<longrightarrow> pde m D i = 0 \<or> present (pde m D i))
     \<and> (\<forall>i. unat i < 1023 \<longrightarrow> pde m D i \<noteq> 0 \<longrightarrow> base (pde m D i) \<noteq> D)
     \<and> (\<forall>i k. unat i < 1023 \<longrightarrow> unat k < 1023 \<longrightarrow> i \<noteq> k \<longrightarrow> pde m D i \<noteq> 0 \<longrightarrow> pde m D k \<noteq> 0 \<longrightarrow> base (pde m D i) \<noteq> base (pde m D k))
     \<and> (\<forall>i j. unat i < 1023 \<longrightarrow> unat j < 1024 \<longrightarrow> pde m D i \<noteq> 0 \<longrightarrow> pte m D i j = 0 \<or> present (pte m D i j))"

definition tables_ok :: "mem \<Rightarrow> addr \<Rightarrow> bool" where
  "tables_ok m D \<longleftrightarrow> mounted m D \<and> tables_wf m D"

definition paged :: "vm \<Rightarrow> bool" where
  "paged s \<longleftrightarrow> cr0_pg s \<and> directory (current_directory s) = KERNEL_DIR_VIRTUAL
     \<and> pages (current_directory s) = KERNEL_TABLES_VIRTUAL \<and> pages (kernel_directory s) = KERNEL_TABLES_VIRTUAL
     \<and> tables_ok (pmem s) (vcr3 s)"

definition vm_ok :: "vm \<Rightarrow> bool" where
  "vm_ok s \<longleftrightarrow> paged s \<and> can_map s"

lemma tables_wfD:
  assumes "tables_wf m D"
  shows "paligned D" "\<And>i. unat i < 1024 \<Longrightarrow> pde m D i \<noteq> 0 \<Longrightarrow> present (pde m D i)"
    "\<And>i. unat i < 1023 \<Longrightarrow> pde m D i \<noteq> 0 \<Longrightarrow> base (pde m D i) \<noteq> D"
    "\<And>i k. unat i < 1023 \<Longrightarrow> unat k < 1023 \<Longrightarrow> i \<noteq> k \<Longrightarrow> pde m D i \<noteq> 0 \<Longrightarrow> pde m D k \<noteq> 0 \<Longrightarrow> base (pde m D i) \<noteq> base (pde m D k)"
    "\<And>i j. unat i < 1023 \<Longrightarrow> unat j < 1024 \<Longrightarrow> pde m D i \<noteq> 0 \<Longrightarrow> pte m D i j \<noteq> 0 \<Longrightarrow> present (pte m D i j)"
  using assms unfolding tables_wf_def by blast+

lemma tables_okD:
  assumes "tables_ok m D"
  shows "mounted m D" "paligned D" "\<And>i. unat i < 1024 \<Longrightarrow> pde m D i \<noteq> 0 \<Longrightarrow> present (pde m D i)" "tables_wf m D"
  using assms unfolding tables_ok_def tables_wf_def by blast+

lemma present_nonzero: "present e \<Longrightarrow> e \<noteq> 0"
  by auto

text \<open>Writing one entry of a table.\<close>

lemma set_pte:
  fixes v :: u32
  assumes ok: "tables_wf m D" and i: "unat i < 1023" "unat j < 1024" "pde m D i \<noteq> 0"
  defines "m' \<equiv> wr32 m (base (pde m D i) + 4 * j) v"
  shows "\<And>k. unat k < 1024 \<Longrightarrow> pde m' D k = pde m D k"
    "\<And>k l. unat k < 1023 \<Longrightarrow> unat l < 1024 \<Longrightarrow> pde m D k \<noteq> 0 \<Longrightarrow> pte m' D k l = (if k = i \<and> l = j then v else pte m D k l)"
proof -
  note T = tables_wfD [OF ok]
  show p: "pde m' D k = pde m D k" if "unat k < 1024" for k
    using rd32_wr32_entry [OF paligned_mask [of "pde m D i"] T(1) i(2) that, of m v] T(3) [OF i(1,3)] by (simp add: pde_def m'_def)
  show "pte m' D k l = (if k = i \<and> l = j then v else pte m D k l)" if k: "unat k < 1023" "unat l < 1024" "pde m D k \<noteq> 0" for k l
  proof -
    have e: "pde m' D k = pde m D k" using p k(1) by simp
    have "base (pde m D i) = base (pde m D k) \<longleftrightarrow> i = k" using T(4) [OF i(1) k(1) _ i(3) k(3)] by auto
    then show ?thesis unfolding pte_def e unfolding m'_def using rd32_wr32_entry [OF paligned_mask [of "pde m D i"] paligned_mask [of "pde m D k"] i(2) k(2), of m v] by auto
  qed
qed

lemma set_pte_wf:
  assumes ok: "tables_wf m D" and i: "unat i < 1023" "unat j < 1024" "pde m D i \<noteq> 0" and v: "v = 0 \<or> present v"
  shows "tables_wf (wr32 m (base (pde m D i) + 4 * j) v) D"
proof -
  define m' where "m' = wr32 m (base (pde m D i) + 4 * j) v"
  note S = set_pte [OF ok i, where v = v, folded m'_def] and T = tables_wfD [OF ok]
  have "\<forall>k l. unat k < 1023 \<longrightarrow> unat l < 1024 \<longrightarrow> pde m' D k \<noteq> 0 \<longrightarrow> pte m' D k l = 0 \<or> present (pte m' D k l)"
    using S T(5) v by auto
  then show ?thesis using S(1) T(1-4) unfolding tables_wf_def m'_def [symmetric] by auto
qed

lemma set_pte_ok:
  assumes ok: "tables_ok m D" and i: "unat i < 1023" "unat j < 1024" "pde m D i \<noteq> 0" and ij: "\<not> (i = 1022 \<and> j = 1023)" and v: "v = 0 \<or> present v"
  shows "tables_ok (wr32 m (base (pde m D i) + 4 * j) v) D"
proof -
  define m' where "m' = wr32 m (base (pde m D i) + 4 * j) v"
  note S = set_pte [OF tables_okD(4) [OF ok] i, where v = v, folded m'_def] and T = tables_okD [OF ok]
  have "pde m D 1022 \<noteq> 0" using T(1) by (auto simp: mounted_def)
  then have "mounted m' D" using T(1) S(1) [of 1023] S(1) [of 1022] S(2) [of 1022 1023] ij by (auto simp: mounted_def)
  then show ?thesis using set_pte_wf [OF T(4) i v] by (simp add: tables_ok_def m'_def)
qed

lemma below_dir:
  assumes "va < KERNEL_DIR_VIRTUAL"
  shows "unat (PGDIR_IDX_FROM_ADDR va) < 1023" "\<not> (PGDIR_IDX_FROM_ADDR va = 1022 \<and> PGTAB_IDX_FROM_ADDR va = 1023)"
proof -
  have v: "unat va < 0xFFBFF000" using assms by (simp add: word_less_nat_alt KERNEL_DIR_VIRTUAL_def)
  then show "unat (PGDIR_IDX_FROM_ADDR va) < 1023" by (simp add: idx_dir div_less_iff_less_mult)
  show "\<not> (PGDIR_IDX_FROM_ADDR va = 1022 \<and> PGTAB_IDX_FROM_ADDR va = 1023)"
  proof
    assume "PGDIR_IDX_FROM_ADDR va = 1022 \<and> PGTAB_IDX_FROM_ADDR va = 1023"
    then have "PG_NUM_FROM_ADDR va = 1047551" by (simp add: page_num_split)
    then have "unat va div 4096 = 1047551" using idx_num [of va] by simp
    then show False using v div_times_less_eq_dividend [of "unat va" 4096] by simp
  qed
qed

lemma load_dir: "paged s \<Longrightarrow> unat i < 1024 \<Longrightarrow> load (directory (current_directory s) + 4 * i) s = Some (pde (pmem s) (vcr3 s) i)"
  using walk_dir [of "pmem s" "vcr3 s" i] by (simp add: paged_def load_def xlate_def tables_okD(1) pde_def)

lemma xlate_table:
  assumes "cr0_pg s" "tables_ok (pmem s) (vcr3 s)" "pde (pmem s) (vcr3 s) (PGDIR_IDX_FROM_ADDR va) \<noteq> 0"
  shows "xlate s (KERNEL_TABLES_VIRTUAL + 4 * PG_NUM_FROM_ADDR va) = Some (base (pde (pmem s) (vcr3 s) (PGDIR_IDX_FROM_ADDR va)) + 4 * PGTAB_IDX_FROM_ADDR va)"
  unfolding page_num_split using assms walk_tables [OF tables_okD(1) idx_bounds] tables_okD(3) [OF _ idx_bounds(1)]
  by (simp add: xlate_def)

text \<open>What one entry contributes to the translation.\<close>

lemma walk_change:
  assumes ok: "tables_ok m D" and i: "unat i < 1023" "unat j < 1024" "pde m D i \<noteq> 0" and v: "present v"
    and va: "va < KERNEL_TABLES_VIRTUAL"
  shows "walk (wr32 m (base (pde m D i) + 4 * j) v) D va =
    (if PGDIR_IDX_FROM_ADDR va = i \<and> PGTAB_IDX_FROM_ADDR va = j then Some (base v + (va AND PAGE_FLAGS_MASK)) else walk m D va)"
proof -
  note S = set_pte [OF tables_okD(4) [OF ok] i, where v = v] and T = tables_okD [OF ok]
  have "unat va < 0xFFC00000" using va by (simp add: word_less_nat_alt KERNEL_TABLES_VIRTUAL_def)
  then have b: "unat (PGDIR_IDX_FROM_ADDR va) < 1023" by (simp add: idx_dir div_less_iff_less_mult)
  have p: "pde (wr32 m (base (pde m D i) + 4 * j) v) D (PGDIR_IDX_FROM_ADDR va) = pde m D (PGDIR_IDX_FROM_ADDR va)"
    using S(1) idx_bounds(1) by blast
  show ?thesis
  proof (cases "pde m D (PGDIR_IDX_FROM_ADDR va) = 0")
    case True
    then show ?thesis using p i(3) unfolding walk_entries [OF T(2)] by (auto simp: Let_def)
  next
    case False
    have "present (pde m D (PGDIR_IDX_FROM_ADDR va))" using T(3) [OF idx_bounds(1) False] .
    then show ?thesis using p v S(2) [OF b idx_bounds(2) False] unfolding walk_entries [OF T(2)] by (auto simp: Let_def)
  qed
qed

subsection \<open>Adding a table\<close>

text \<open>A page that is neither the directory nor one of its tables.\<close>

definition fresh_page :: "mem \<Rightarrow> addr \<Rightarrow> addr \<Rightarrow> bool" where
  "fresh_page m D p \<longleftrightarrow> paligned p \<and> p \<noteq> D \<and> (\<forall>k. unat k < 1023 \<longrightarrow> pde m D k \<noteq> 0 \<longrightarrow> base (pde m D k) \<noteq> p)"

definition zeroed :: "addr \<Rightarrow> nat \<Rightarrow> mem \<Rightarrow> mem" where
  "zeroed p n m = (\<lambda>x. if x \<in> region p n then 0 else m x)"

lemma region_page: "paligned p \<Longrightarrow> x \<in> region p 4096 \<Longrightarrow> base x = p"
  using page_of_add(1) by (auto simp: region_mem unat_of_nat_u32)

lemma entry_region_page:
  assumes "paligned b" "unat x < 1024" "y \<in> region (b + 4 * x) 4"
  shows "base y = b"
proof -
  obtain r where r: "r < 4" "y = b + 4 * x + of_nat r" using assms(3) by (auto simp: region_mem)
  have "unat (4 * x + of_nat r) = 4 * unat x + r"
    using r(1) assms(2) by (subst unat_add_lem [THEN iffD1]) (simp_all add: unat_4 unat_of_nat_u32)
  then have "unat (4 * x + of_nat r) < 4096" using r(1) assms(2) by simp
  from page_of_add(1) [OF assms(1) this] show ?thesis by (simp add: r(2) add.assoc)
qed

lemma rd32_outside:
  assumes "paligned b" "paligned p" "b \<noteq> p" "unat x < 1024" "\<And>y. y \<notin> region p 4096 \<Longrightarrow> m' y = m y"
  shows "rd32 m' (b + 4 * x) = rd32 m (b + 4 * x)"
  by (rule rd32_cong) (use entry_region_page [OF assms(1,4)] region_page [OF assms(2)] assms(3,5) in metis)

lemma rd32_zeroed: "paligned p \<Longrightarrow> unat x < 1024 \<Longrightarrow> rd32 (zeroed p 4096 m) (p + 4 * x) = 0"
proof -
  assume p: "paligned p" "unat x < 1024"
  have "zeroed p 4096 m y = 0" if y: "y \<in> region (p + 4 * x) 4" for y
  proof -
    obtain r where r: "r < 4" "y = p + 4 * x + of_nat r" using y by (auto simp: region_mem)
    have "y = p + of_nat (4 * unat x + r)" using r(2) by (simp add: add.assoc)
    moreover have "p + of_nat (4 * unat x + r) \<in> region p 4096" using r(1) p(2) by (intro region_memI) simp
    ultimately show ?thesis by (simp add: zeroed_def)
  qed
  then have "rd32 (zeroed p 4096 m) (p + 4 * x) = rd32 (\<lambda>_. 0) (p + 4 * x)" by (rule rd32_cong)
  then show ?thesis by (simp add: rd32_def le32_def)
qed

lemma memzero_page:
  assumes "cr0_pg s" "n \<le> 4096"
    and w: "\<And>m' k. (\<And>y. y \<notin> region p 4096 \<Longrightarrow> m' y = pmem s y) \<Longrightarrow> k < 4096 \<Longrightarrow> walk m' (vcr3 s) (va + of_nat k) = Some (p + of_nat k)"
  shows "memzero va n s = Some (s\<lparr>pmem := zeroed p n (pmem s)\<rparr>)"
  using assms(2)
proof (induction n)
  case 0
  then show ?case by (simp add: memzero_def zeroed_def)
next
  case (Suc n)
  have "region p n \<subseteq> region p 4096" using Suc.prems by (intro region_mono) simp
  then have "walk (zeroed p n (pmem s)) (vcr3 s) (va + of_nat n) = Some (p + of_nat n)"
    using Suc.prems by (intro w) (auto simp: zeroed_def)
  moreover have "(zeroed p n (pmem s))(p + of_nat n := 0) = zeroed p (Suc n) (pmem s)"
    by (auto simp: zeroed_def region_Suc_last)
  ultimately show ?case using Suc assms(1) by (simp add: memzero_def foldM_append store8_def xlate_def)
qed

lemma set_pde:
  assumes ok: "tables_wf m D" and i: "unat i < 1023" "pde m D i = 0" and p: "fresh_page m D p" and e: "base e = p" "present e"
  defines "m' \<equiv> zeroed p 4096 (wr32 m (D + 4 * i) e)"
  shows "tables_wf m' D" "\<And>k. unat k < 1024 \<Longrightarrow> pde m' D k = (if k = i then e else pde m D k)"
    "\<And>j. unat j < 1024 \<Longrightarrow> pte m' D i j = 0"
    "\<And>k j. unat k < 1023 \<Longrightarrow> unat j < 1024 \<Longrightarrow> pde m D k \<noteq> 0 \<Longrightarrow> pte m' D k j = pte m D k j"
proof -
  note T = tables_wfD [OF ok]
  have pp: "paligned p" "p \<noteq> D" "\<And>k. unat k < 1023 \<Longrightarrow> pde m D k \<noteq> 0 \<Longrightarrow> base (pde m D k) \<noteq> p"
    using p by (auto simp: fresh_page_def)
  have i': "unat i < 1024" using i by simp
  have out: "rd32 m' (b + 4 * x) = rd32 (wr32 m (D + 4 * i) e) (b + 4 * x)" if "paligned b" "b \<noteq> p" "unat x < 1024" for b x
    unfolding m'_def by (rule rd32_outside [OF that(1) pp(1) that(2,3)]) (simp add: zeroed_def)
  show P: "pde m' D k = (if k = i then e else pde m D k)" if "unat k < 1024" for k
    using out [OF T(1) pp(2) [symmetric] that] rd32_wr32_entry [OF T(1) T(1) i' that, of m e] by (auto simp: pde_def)
  show Z: "pte m' D i j = 0" if "unat j < 1024" for j
    using P [OF i'] e(1) rd32_zeroed [OF pp(1) that] by (simp add: pte_def m'_def)
  show S: "pte m' D k j = pte m D k j" if k: "unat k < 1023" "unat j < 1024" "pde m D k \<noteq> 0" for k j
  proof -
    have "k \<noteq> i" using k(3) i(2) by auto
    then have "pde m' D k = pde m D k" using P k(1) by simp
    then show ?thesis unfolding pte_def
      using out [OF paligned_mask pp(3) [OF k(1,3)] k(2)] rd32_wr32_entry [OF T(1) paligned_mask [of "pde m D k"] i' k(2), of m e] T(3) [OF k(1,3)] by auto
  qed
  have "\<forall>k l. unat k < 1023 \<longrightarrow> unat l < 1023 \<longrightarrow> k \<noteq> l \<longrightarrow> pde m' D k \<noteq> 0 \<longrightarrow> pde m' D l \<noteq> 0 \<longrightarrow> base (pde m' D k) \<noteq> base (pde m' D l)"
  proof (intro allI impI)
    fix k l assume kl: "unat k < 1023" "unat l < 1023" "k \<noteq> l" "pde m' D k \<noteq> 0" "pde m' D l \<noteq> 0"
    have q: "pde m' D k = (if k = i then e else pde m D k)" "pde m' D l = (if l = i then e else pde m D l)" using P kl by simp_all
    then show "base (pde m' D k) \<noteq> base (pde m' D l)" using kl T(4) [of k l] pp(3) [of k] pp(3) [of l] e(1) by (auto split: if_splits)
  qed
  moreover have "\<forall>k. unat k < 1023 \<longrightarrow> pde m' D k \<noteq> 0 \<longrightarrow> base (pde m' D k) \<noteq> D"
    using P T(3) e(1) pp(2) by auto
  moreover have "\<forall>k j. unat k < 1023 \<longrightarrow> unat j < 1024 \<longrightarrow> pde m' D k \<noteq> 0 \<longrightarrow> pte m' D k j = 0 \<or> present (pte m' D k j)"
  proof (intro allI impI)
    fix k j :: u32 assume k: "unat k < 1023" "unat j < 1024" "pde m' D k \<noteq> 0"
    show "pte m' D k j = 0 \<or> present (pte m' D k j)"
      using Z S T(5) P [of k] k by (cases "k = i") auto
  qed
  moreover have "\<forall>k. unat k < 1024 \<longrightarrow> pde m' D k = 0 \<or> present (pde m' D k)" using P T(2) e(2) by auto
  ultimately show "tables_wf m' D" unfolding tables_wf_def using T(1) by blast
qed

lemma set_pde_mounted:
  assumes "tables_wf m D" "mounted m D" "unat i < 1023" "pde m D i = 0" "fresh_page m D p" "base e = p" "present e"
  shows "mounted (zeroed p 4096 (wr32 m (D + 4 * i) e)) D"
proof -
  note S = set_pde(2,4) [OF assms(1,3-7)]
  have n1022: "pde m D 1022 \<noteq> 0" using assms(2) by (auto simp: mounted_def)
  then have "i \<noteq> 1022" "i \<noteq> 1023" using assms(3,4) by auto
  then show ?thesis using assms(2) S(1) [of 1023] S(1) [of 1022] S(2) [of 1022 1023] n1022 by (simp add: mounted_def)
qed

end
