(* ===== verification/PagingMap.thy ===== *)
theory PagingMap
  imports PagingTables
begin

text \<open>
  What \<open>map\<close>, \<open>unmap\<close>, \<open>get_mapping\<close> and the stack of free pages do to the translation of addresses.
\<close>

subsection \<open>Mapping a page\<close>

lemma flags_bound: "unat f < 4096 \<Longrightarrow> unat (PAGE_PRESENT OR f) < 4096"
proof -
  assume f: "unat f < 4096"
  have "f AND PAGE_FLAGS_MASK = f" using f by (simp add: word_unat_eq_iff mask_low)
  then have "(PAGE_PRESENT OR f) AND PAGE_FLAGS_MASK = PAGE_PRESENT OR f"
    unfolding bit.conj_disj_distrib2 by (simp add: PAGE_PRESENT_def PAGE_FLAGS_MASK_def)
  then show ?thesis using mask_low [of "PAGE_PRESENT OR f"] by simp
qed

lemma page_entry:
  assumes "unat f < 4096" "paligned p"
  shows "base (p OR PAGE_PRESENT OR f) = p" "present (p OR PAGE_PRESENT OR f)"
proof -
  note E = entry_flags [OF assms(2) flags_bound [OF assms(1)]]
  have "(PAGE_PRESENT OR f) AND PAGE_PRESENT = PAGE_PRESENT" by (rule bit_word_eqI) (auto simp: bit_simps)
  then show "base (p OR PAGE_PRESENT OR f) = p" "present (p OR PAGE_PRESENT OR f)"
    using E by (simp_all add: or.assoc PAGE_PRESENT_def)
qed

lemma alloc_page_frame:
  assumes "pmm_alloc_page s = Some (p, s1)"
  shows "\<exists>a b. s1 = s\<lparr>pmm_stack_loc := a, pmm_location := b\<rparr>"
  by (rule exI [of _ "pmm_stack_loc s1"], rule exI [of _ "pmm_location s1"])
    (use assms in \<open>auto simp: pmm_alloc_page_def Let_def bind_eq_Some_conv split: if_splits\<close>)

lemma paged_frame: "paged (s\<lparr>pmm_stack_loc := a, pmm_location := b\<rparr>) = paged s"
  by (simp add: paged_def)

lemma add_table:
  assumes ok: "paged s" and i: "unat i < 1023" "pde (pmem s) (vcr3 s) i = 0" and p: "fresh_page (pmem s) (vcr3 s) p"
  shows "(do { s \<leftarrow> store (directory (current_directory s) + 4 * i) (p OR PAGE_PRESENT OR PAGE_WRITE) s;
               memzero (pages (current_directory s) + 4 * (i * 1024)) 4096 s })
    = Some (s\<lparr>pmem := zeroed p 4096 (wr32 (pmem s) (vcr3 s + 4 * i) (p OR PAGE_PRESENT OR PAGE_WRITE))\<rparr>)"
proof -
  define D m e where "D = vcr3 s" and "m = pmem s" and "e = p OR PAGE_PRESENT OR PAGE_WRITE"
  define m1 where "m1 = wr32 m (D + 4 * i) e"
  have T: "tables_ok m D" "mounted m D" "paligned D" using ok by (auto simp: paged_def m_def D_def intro: tables_okD)
  have pp: "paligned p" "p \<noteq> D" using p by (auto simp: fresh_page_def D_def)
  have e: "base e = p" "present e" using page_entry [of PAGE_WRITE p] pp by (simp_all add: e_def PAGE_WRITE_def)
  have i': "unat i < 1024" using i by simp
  have st: "store (directory (current_directory s) + 4 * i) e s = Some (s\<lparr>pmem := m1\<rparr>)"
    using walk_dir [OF T(2) i'] ok by (simp add: store_def xlate_def paged_def m_def D_def m1_def)
  have w: "walk m' D (KERNEL_TABLES_VIRTUAL + 4 * (i * 1024) + of_nat k) = Some (p + of_nat k)"
    if m': "\<And>y. y \<notin> region p 4096 \<Longrightarrow> m' y = m1 y" and k: "k < 4096" for m' k
  proof -
    have "pde m' D x = pde m1 D x" if "unat x < 1024" for x
      unfolding pde_def by (rule rd32_outside [OF T(3) pp(1) pp(2) [symmetric] that m'])
    moreover have "pde m1 D x = (if x = i then e else pde m D x)" if "unat x < 1024" for x
      using rd32_wr32_entry [OF T(3) T(3) i' that, of m e] by (auto simp: pde_def m1_def)
    ultimately have d: "pde m' D x = (if x = i then e else pde m D x)" if "unat x < 1024" for x using that by simp
    have "i \<noteq> 1023" using i(1) by auto
    then have "selfmapped m' D" using mounted_self [OF T(2)] d [of 1023] by (simp add: selfmapped_def)
    moreover have "unat (of_nat k :: u32) < 4096" using k by (simp add: unat_of_nat_u32)
    ultimately have "walk m' D (KERNEL_TABLES_VIRTUAL + (4096 * i + of_nat k)) = Some (base (pde m' D i) + of_nat k)"
      using walk_tables_byte [of m' D i "of_nat k"] i' d [of i] e(2) by simp
    then show ?thesis using d [OF i'] e(1) by (simp add: algebra_simps)
  qed
  have "memzero (KERNEL_TABLES_VIRTUAL + 4 * (i * 1024)) 4096 (s\<lparr>pmem := m1\<rparr>)
      = Some ((s\<lparr>pmem := m1\<rparr>)\<lparr>pmem := zeroed p 4096 (pmem (s\<lparr>pmem := m1\<rparr>))\<rparr>)"
    by (rule memzero_page) (use ok w in \<open>simp_all add: paged_def D_def\<close>)
  moreover have "pages (current_directory s) = KERNEL_TABLES_VIRTUAL" using ok by (simp add: paged_def)
  ultimately show ?thesis using st by (simp add: e_def m1_def m_def D_def)
qed

lemma map_existing:
  fixes pa :: addr
  assumes ok: "vm_ok s" and va: "va < KERNEL_DIR_VIRTUAL" and f: "unat fl < 4096"
    and d: "pde (pmem s) (vcr3 s) (PGDIR_IDX_FROM_ADDR va) \<noteq> 0"
  defines "s' \<equiv> s\<lparr>pmem := wr32 (pmem s) (base (pde (pmem s) (vcr3 s) (PGDIR_IDX_FROM_ADDR va)) + 4 * PGTAB_IDX_FROM_ADDR va) (base pa OR PAGE_PRESENT OR fl)\<rparr>"
  shows "(do {
        s \<leftarrow> store (pages (current_directory s) + 4 * PG_NUM_FROM_ADDR va) ((pa AND PAGE_ADDR_MASK) OR PAGE_PRESENT OR fl) s;
        if KERNEL_ADDRESS_SPACE \<le> va then do {
          _ \<leftarrow> load (pages (current_directory s) + 4 * PG_NUM_FROM_ADDR va) s;
          _ \<leftarrow> load (pages (kernel_directory s) + 4 * PG_NUM_FROM_ADDR va) s;
          Some s
        } else Some s }) = Some s'" "vm_ok s'"
    "va' < KERNEL_TABLES_VIRTUAL \<Longrightarrow> walk (pmem s') (vcr3 s') va' =
       (if PG_NUM_FROM_ADDR va' = PG_NUM_FROM_ADDR va then Some (base pa + (va' AND PAGE_FLAGS_MASK)) else walk (pmem s) (vcr3 s) va')"
proof -
  define D m i j v where "D = vcr3 s" and "m = pmem s" and "i = PGDIR_IDX_FROM_ADDR va" and "j = PGTAB_IDX_FROM_ADDR va"
    and "v = base pa OR PAGE_PRESENT OR fl"
  have T: "tables_ok m D" using ok by (simp add: vm_ok_def paged_def m_def D_def)
  have i: "unat i < 1023" "unat j < 1024" "\<not> (i = 1022 \<and> j = 1023)" using below_dir [OF va] idx_bounds by (simp_all add: i_def j_def)
  have d': "pde m D i \<noteq> 0" using d by (simp add: m_def D_def i_def)
  have v: "present v" "base v = base pa" using page_entry [OF f paligned_mask] by (simp_all add: v_def)
  have s': "s' = s\<lparr>pmem := wr32 m (base (pde m D i) + 4 * j) v\<rparr>" by (simp add: s'_def m_def D_def i_def j_def v_def)
  have ok': "tables_ok (pmem s') D" using set_pte_ok [OF T i(1,2) d' i(3)] v(1) by (simp add: s')
  then show vo: "vm_ok s'" using ok by (simp add: vm_ok_def paged_def s' D_def)
  have st: "store (KERNEL_TABLES_VIRTUAL + 4 * PG_NUM_FROM_ADDR va) v s = Some s'"
    using xlate_table [of s va] ok T d by (simp add: store_def vm_ok_def paged_def s' m_def D_def i_def j_def)
  have i': "unat i < 1024" using i(1) by simp
  have "pde (pmem s') (vcr3 s') (PGDIR_IDX_FROM_ADDR va) \<noteq> 0"
    using set_pte(1) [OF tables_okD(4) [OF T] i(1,2) d' i', where v = v] d' by (simp add: s' i_def D_def m_def)
  then have ld: "load (KERNEL_TABLES_VIRTUAL + 4 * PG_NUM_FROM_ADDR va) s' \<noteq> None"
    using xlate_table [of s' va] vo by (simp add: load_def vm_ok_def paged_def)
  have p: "pages (current_directory s) = KERNEL_TABLES_VIRTUAL" "pages (current_directory s') = KERNEL_TABLES_VIRTUAL" "pages (kernel_directory s') = KERNEL_TABLES_VIRTUAL"
    using ok vo by (simp_all add: vm_ok_def paged_def)
  show "(do {
        s \<leftarrow> store (pages (current_directory s) + 4 * PG_NUM_FROM_ADDR va) ((pa AND PAGE_ADDR_MASK) OR PAGE_PRESENT OR fl) s;
        if KERNEL_ADDRESS_SPACE \<le> va then do {
          _ \<leftarrow> load (pages (current_directory s) + 4 * PG_NUM_FROM_ADDR va) s;
          _ \<leftarrow> load (pages (kernel_directory s) + 4 * PG_NUM_FROM_ADDR va) s;
          Some s
        } else Some s }) = Some s'"
    unfolding p v_def [symmetric] st using ld by (auto simp: p)
  show "walk (pmem s') (vcr3 s') va' = (if PG_NUM_FROM_ADDR va' = PG_NUM_FROM_ADDR va then Some (base pa + (va' AND PAGE_FLAGS_MASK)) else walk (pmem s) (vcr3 s) va')"
    if "va' < KERNEL_TABLES_VIRTUAL"
  proof -
    have "PG_NUM_FROM_ADDR va' = PG_NUM_FROM_ADDR va \<longleftrightarrow> PGDIR_IDX_FROM_ADDR va' = i \<and> PGTAB_IDX_FROM_ADDR va' = j"
      unfolding i_def j_def by (rule page_num_eq)
    then show ?thesis using walk_change [OF T i(1,2) d' v(1) that] v(2) by (simp add: s' D_def m_def)
  qed
qed

lemma below_tables: "va < KERNEL_TABLES_VIRTUAL \<Longrightarrow> unat (PGDIR_IDX_FROM_ADDR va) < 1023"
  by (simp add: word_less_nat_alt KERNEL_TABLES_VIRTUAL_def idx_dir div_less_iff_less_mult)

lemma walk_new_table:
  assumes ok: "tables_wf m D" and i: "unat i < 1023" "pde m D i = 0" and p: "fresh_page m D p" and e: "base e = p" "present e"
    and va: "va < KERNEL_TABLES_VIRTUAL"
  shows "walk (zeroed p 4096 (wr32 m (D + 4 * i) e)) D va = walk m D va"
proof -
  note S = set_pde [OF ok i p e] and T = tables_wfD [OF ok]
  define m' where "m' = zeroed p 4096 (wr32 m (D + 4 * i) e)"
  let ?i = "PGDIR_IDX_FROM_ADDR va" and ?j = "PGTAB_IDX_FROM_ADDR va"
  have d: "pde m' D ?i = (if ?i = i then e else pde m D ?i)" unfolding m'_def by (rule S(2) [OF idx_bounds(1)])
  show ?thesis
  proof (cases "?i = i")
    case True
    then have "pte m' D ?i ?j = 0" unfolding m'_def using S(3) [OF idx_bounds(2)] by simp
    then show ?thesis using True i(2) unfolding walk_entries [OF T(1)] m'_def [symmetric] by (simp add: Let_def)
  next
    case False
    then have d': "pde m' D ?i = pde m D ?i" using d by simp
    have "pde m D ?i \<noteq> 0 \<Longrightarrow> pte m' D ?i ?j = pte m D ?i ?j" unfolding m'_def by (rule S(4) [OF below_tables [OF va] idx_bounds(2)])
    then show ?thesis using d' unfolding walk_entries [OF T(1)] m'_def [symmetric] by (cases "pde m D ?i = 0") (simp_all add: Let_def)
  qed
qed

lemma map_page_all:
  assumes ok: "vm_ok s" and va: "va < KERNEL_DIR_VIRTUAL" and f: "unat fl < 4096"
    and new: "pde (pmem s) (vcr3 s) (PGDIR_IDX_FROM_ADDR va) = 0 \<Longrightarrow> \<exists>p s1. pmm_alloc_page s = Some (p, s1) \<and> fresh_page (pmem s) (vcr3 s) p"
  shows "\<exists>s'. map_page va pa fl s = Some s' \<and> vm_ok s' \<and> (\<forall>va'. va' < KERNEL_TABLES_VIRTUAL \<longrightarrow> walk (pmem s') (vcr3 s') va' =
    (if PG_NUM_FROM_ADDR va' = PG_NUM_FROM_ADDR va then Some (base pa + (va' AND PAGE_FLAGS_MASK)) else walk (pmem s) (vcr3 s) va'))"
proof -
  let ?i = "PGDIR_IDX_FROM_ADDR va"
  have pg: "paged s" and cm: "can_map s" using ok by (simp_all add: vm_ok_def)
  have ld: "load (directory (current_directory s) + 4 * ?i) s = Some (pde (pmem s) (vcr3 s) ?i)" by (rule load_dir [OF pg idx_bounds(1)])
  show ?thesis
  proof (cases "pde (pmem s) (vcr3 s) ?i = 0")
    case False
    note M = map_existing [OF ok va f False, where pa = pa]
    show ?thesis using M(1) M(2,3) ld cm False unfolding map_page_def by auto
  next
    case True
    then obtain p s1 where a: "pmm_alloc_page s = Some (p, s1)" and fp: "fresh_page (pmem s) (vcr3 s) p" using new by blast
    obtain x y where s1: "s1 = s\<lparr>pmm_stack_loc := x, pmm_location := y\<rparr>" using alloc_page_frame [OF a] by blast
    have e: "base (p OR PAGE_PRESENT OR PAGE_WRITE) = p" "present (p OR PAGE_PRESENT OR PAGE_WRITE)"
      using page_entry [of PAGE_WRITE p] fp by (simp_all add: PAGE_WRITE_def fresh_page_def)
    define m2 where "m2 = zeroed p 4096 (wr32 (pmem s) (vcr3 s + 4 * ?i) (p OR PAGE_PRESENT OR PAGE_WRITE))"
    define s2 where "s2 = s1\<lparr>pmem := m2\<rparr>"
    have i: "unat ?i < 1023" by (rule below_dir [OF va])
    have T: "tables_wf (pmem s) (vcr3 s)" "mounted (pmem s) (vcr3 s)" using pg tables_okD by (auto simp: paged_def)
    have st: "(do { s \<leftarrow> store (directory (current_directory s1) + 4 * ?i) (p OR PAGE_PRESENT OR PAGE_WRITE) s1;
               memzero (pages (current_directory s) + 4 * (?i * 1024)) 4096 s }) = Some s2"
      using add_table [of s1 ?i p] pg i True fp by (simp add: s1 paged_frame m2_def s2_def)
    have ok2: "vm_ok s2" using set_pde(1) [OF T(1) i True fp e] set_pde_mounted [OF T i True fp e] ok
      by (simp add: vm_ok_def paged_def tables_ok_def s2_def s1 m2_def)
    have d2: "pde (pmem s2) (vcr3 s2) ?i \<noteq> 0"
      using set_pde(2) [OF T(1) i True fp e idx_bounds(1)] present_nonzero [OF e(2)] by (simp add: s2_def s1 m2_def)
    have w2: "walk (pmem s2) (vcr3 s2) va' = walk (pmem s) (vcr3 s) va'" if "va' < KERNEL_TABLES_VIRTUAL" for va'
      using walk_new_table [OF T(1) i True fp e that] by (simp add: s2_def s1 m2_def)
    note M = map_existing [OF ok2 va f d2, where pa = pa]
    have dir: "directory (current_directory s1) = directory (current_directory s)" by (simp add: s1)
    have "map_page va pa fl s = (do { s \<leftarrow> Some s2;
        s \<leftarrow> store (pages (current_directory s) + 4 * PG_NUM_FROM_ADDR va) ((pa AND PAGE_ADDR_MASK) OR PAGE_PRESENT OR fl) s;
        if KERNEL_ADDRESS_SPACE \<le> va then do {
          _ \<leftarrow> load (pages (current_directory s) + 4 * PG_NUM_FROM_ADDR va) s;
          _ \<leftarrow> load (pages (kernel_directory s) + 4 * PG_NUM_FROM_ADDR va) s;
          Some s
        } else Some s })"
      unfolding map_page_def st [symmetric] dir using ld cm True a by (simp add: Let_def bind_assoc)
    then show ?thesis using M(1) M(2,3) w2 by auto
  qed
qed

lemma get_mapping_walk_all:
  assumes ok: "paged s" and va: "va < KERNEL_TABLES_VIRTUAL"
  shows "get_mapping va s = Some (walk (pmem s) (vcr3 s) va)"
proof -
  let ?i = "PGDIR_IDX_FROM_ADDR va" and ?j = "PGTAB_IDX_FROM_ADDR va"
  have T: "tables_ok (pmem s) (vcr3 s)" "cr0_pg s" using ok by (simp_all add: paged_def)
  have ld: "load (directory (current_directory s) + 4 * ?i) s = Some (pde (pmem s) (vcr3 s) ?i)" by (rule load_dir [OF ok idx_bounds(1)])
  show ?thesis
  proof (cases "pde (pmem s) (vcr3 s) ?i = 0")
    case True
    then show ?thesis using ld walk_entries [OF tables_okD(2) [OF T(1)], of "pmem s" va] by (simp add: get_mapping_def Let_def)
  next
    case False
    have lt: "load (pages (current_directory s) + 4 * PG_NUM_FROM_ADDR va) s = Some (pte (pmem s) (vcr3 s) ?i ?j)"
      using xlate_table [OF T(2,1) False] ok by (simp add: load_def paged_def pte_def)
    show ?thesis using ld lt False walk_entries [OF tables_okD(2) [OF T(1)], of "pmem s" va]
        tables_okD(3) [OF T(1) idx_bounds(1) False] tables_wfD(5) [OF tables_okD(4) [OF T(1)] below_tables [OF va] idx_bounds(2) False]
      by (auto simp: get_mapping_def Let_def)
  qed
qed

lemma unmap_all:
  assumes ok: "vm_ok s" and va: "va < KERNEL_DIR_VIRTUAL" and d: "pde (pmem s) (vcr3 s) (PGDIR_IDX_FROM_ADDR va) \<noteq> 0"
  shows "\<exists>s'. unmap va s = Some s' \<and> vm_ok s' \<and> (\<forall>va'. va' < KERNEL_TABLES_VIRTUAL \<longrightarrow> walk (pmem s') (vcr3 s') va' =
    (if PG_NUM_FROM_ADDR va' = PG_NUM_FROM_ADDR va then None else walk (pmem s) (vcr3 s) va'))"
proof -
  define D m i j where "D = vcr3 s" and "m = pmem s" and "i = PGDIR_IDX_FROM_ADDR va" and "j = PGTAB_IDX_FROM_ADDR va"
  have T: "tables_ok m D" using ok by (simp add: vm_ok_def paged_def m_def D_def)
  note W = tables_okD(4) [OF T]
  have i: "unat i < 1023" "unat j < 1024" "\<not> (i = 1022 \<and> j = 1023)" using below_dir [OF va] idx_bounds by (simp_all add: i_def j_def)
  have d': "pde m D i \<noteq> 0" using d by (simp add: m_def D_def i_def)
  define s' where "s' = s\<lparr>pmem := wr32 m (base (pde m D i) + 4 * j) 0\<rparr>"
  have "unmap va s = Some s'"
    using xlate_table [of s va] ok T d by (simp add: unmap_def store_def vm_ok_def paged_def s'_def m_def D_def i_def j_def)
  moreover have "vm_ok s'" using set_pte_ok [OF T i(1,2) d' i(3), of 0] ok by (simp add: vm_ok_def paged_def s'_def D_def)
  moreover have "walk (pmem s') (vcr3 s') va' = (if PG_NUM_FROM_ADDR va' = PG_NUM_FROM_ADDR va then None else walk (pmem s) (vcr3 s) va')"
    if v: "va' < KERNEL_TABLES_VIRTUAL" for va'
  proof -
    note S = set_pte [OF W i(1,2) d', where v = 0]
    have q: "PG_NUM_FROM_ADDR va' = PG_NUM_FROM_ADDR va \<longleftrightarrow> PGDIR_IDX_FROM_ADDR va' = i \<and> PGTAB_IDX_FROM_ADDR va' = j"
      unfolding i_def j_def by (rule page_num_eq)
    have "walk (pmem s') D va' = (if PGDIR_IDX_FROM_ADDR va' = i \<and> PGTAB_IDX_FROM_ADDR va' = j then None else walk m D va')"
      using S(1) [OF idx_bounds(1)] S(2) [OF below_tables [OF v] idx_bounds(2)] d'
      unfolding walk_entries [OF tables_wfD(1) [OF W]] s'_def by (cases "pde m D (PGDIR_IDX_FROM_ADDR va') = 0") (auto simp: Let_def)
    then show ?thesis unfolding q by (simp add: D_def m_def s'_def)
  qed
  ultimately show ?thesis by blast
qed

subsection \<open>The stack of free pages\<close>

text \<open>Writing to a page that holds no table leaves every translation alone.\<close>

lemma walk_data:
  assumes T: "tables_wf m D" and a: "fresh_page m D (base a)" "a mod 4 = 0" and va: "va < KERNEL_TABLES_VIRTUAL"
  shows "walk (wr32 m a v) D va = walk m D va"
proof -
  note W = tables_wfD [OF T]
  have nb: "rd32 (wr32 m a v) (b + 4 * x) = rd32 m (b + 4 * x)" if "paligned b" "unat x < 1024" "b \<noteq> base a" for b x
    using rd32_wr32_aligned [OF a(2) entry_aligned [OF that(1,2)]] entry_page [OF that(1,2)] that(3) by auto
  have p: "pde (wr32 m a v) D x = pde m D x" if "unat x < 1024" for x
    unfolding pde_def by (rule nb [OF W(1) that]) (use a(1) in \<open>auto simp: fresh_page_def\<close>)
  show ?thesis
  proof (cases "pde m D (PGDIR_IDX_FROM_ADDR va) = 0")
    case True
    then show ?thesis using p [OF idx_bounds(1)] unfolding walk_entries [OF W(1)] by (simp add: Let_def)
  next
    case False
    then have "base (pde m D (PGDIR_IDX_FROM_ADDR va)) \<noteq> base a" using a(1) below_tables [OF va] by (auto simp: fresh_page_def)
    then have "pte (wr32 m a v) D (PGDIR_IDX_FROM_ADDR va) (PGTAB_IDX_FROM_ADDR va) = pte m D (PGDIR_IDX_FROM_ADDR va) (PGTAB_IDX_FROM_ADDR va)"
      unfolding pte_def p [OF idx_bounds(1)] by (rule nb [OF paligned_mask idx_bounds(2)])
    then show ?thesis using p [OF idx_bounds(1)] unfolding walk_entries [OF W(1)] by (simp add: Let_def)
  qed
qed

lemma free_alloc_page:
  assumes ok: "paged s" and act: "pmm_paging_active s" and room: "pmm_stack_loc s < pmm_stack_max s" and loc: "pmm_stack_loc s < KERNEL_TABLES_VIRTUAL"
    and pg: "base p \<ge> pmm_location s"
    and x: "walk (pmem s) (vcr3 s) (pmm_stack_loc s) = Some a" "fresh_page (pmem s) (vcr3 s) (base a)" "a mod 4 = 0"
  shows "\<exists>s1. pmm_free_page p s = Some s1 \<and> pmm_stack_loc s1 = pmm_stack_loc s + 4
    \<and> (\<forall>va. va < KERNEL_TABLES_VIRTUAL \<longrightarrow> walk (pmem s1) (vcr3 s1) va = walk (pmem s) (vcr3 s) va)
    \<and> pmm_alloc_page s1 = Some (base p, s1\<lparr>pmm_stack_loc := pmm_stack_loc s\<rparr>)"
proof -
  define m1 where "m1 = wr32 (pmem s) a (base p)"
  define s1 where "s1 = s\<lparr>pmem := m1, pmm_stack_loc := pmm_stack_loc s + 4\<rparr>"
  have W: "tables_wf (pmem s) (vcr3 s)" "cr0_pg s" using ok tables_okD(4) by (auto simp: paged_def)
  have "\<not> pmm_stack_max s \<le> pmm_stack_loc s" "\<not> base p < pmm_location s" using room pg by (simp_all add: not_le not_less)
  then have "pmm_free_page p s = Some s1" using x(1) W(2) by (simp add: pmm_free_page_def Let_def store_def xlate_def s1_def m1_def)
  moreover have w: "walk m1 (vcr3 s) va = walk (pmem s) (vcr3 s) va" if "va < KERNEL_TABLES_VIRTUAL" for va
    unfolding m1_def by (rule walk_data [OF W(1) x(2,3) that])
  moreover have "pmm_alloc_page s1 = Some (base p, s1\<lparr>pmm_stack_loc := pmm_stack_loc s\<rparr>)"
    using w [OF loc] act W(2) x(1) by (simp add: pmm_alloc_page_def Let_def load_def xlate_def s1_def m1_def)
  ultimately show ?thesis by (auto simp: s1_def)
qed

end
