(* ===== verification/PagingInit.thy ===== *)
theory PagingInit
  imports PagingMap
begin

text \<open>
  \<open>init_vmm\<close> builds a directory that satisfies the invariant: the tables are taken from consecutive fresh
  pages, low memory is mapped to itself, and the directory is mapped into itself before paging is switched on.
\<close>

subsection \<open>Building the kernel directory\<close>

definition built :: "mem \<Rightarrow> addr \<Rightarrow> addr \<Rightarrow> bool" where
  "built m D L \<longleftrightarrow> tables_wf m D \<and> D < L \<and> paligned L \<and> (\<forall>k. unat k < 1023 \<longrightarrow> pde m D k \<noteq> 0 \<longrightarrow> base (pde m D k) < L)"

definition same_config :: "vm \<Rightarrow> vm \<Rightarrow> bool" where
  "same_config s s' \<longleftrightarrow> cr0_pg s' = cr0_pg s \<and> pmm_paging_active s' = pmm_paging_active s \<and> kernel_directory s' = kernel_directory s
     \<and> current_directory s' = current_directory s \<and> vcr3 s' = vcr3 s \<and> can_map s' = can_map s
     \<and> pmm_stack_loc s' = pmm_stack_loc s \<and> pmm_stack_max s' = pmm_stack_max s"

lemma same_config_trans: "same_config s s1 \<Longrightarrow> same_config s1 s2 \<Longrightarrow> same_config s s2"
  by (simp add: same_config_def)

lemma same_configI: "same_config s (s\<lparr>pmem := m, pmm_location := L\<rparr>)" "same_config s (s\<lparr>pmem := m\<rparr>)" "same_config s s"
  by (simp_all add: same_config_def)

lemma same_configD:
  assumes "same_config s s'"
  shows "cr0_pg s' = cr0_pg s" "pmm_paging_active s' = pmm_paging_active s" "kernel_directory s' = kernel_directory s"
    "current_directory s' = current_directory s" "vcr3 s' = vcr3 s" "can_map s' = can_map s"
    "pmm_stack_loc s' = pmm_stack_loc s" "pmm_stack_max s' = pmm_stack_max s"
  using assms by (auto simp: same_config_def)

lemma built_fresh: "built m D L \<Longrightarrow> fresh_page m D L"
  by (auto simp: built_def fresh_page_def)

lemma built_grow:
  assumes "built m D L" "unat L + 4096 < 2 ^ 32"
  shows "paligned (L + 4096)" "L < L + 4096" "unat (L + 4096) = unat L + 4096"
proof -
  show u: "unat (L + 4096) = unat L + 4096" using assms(2) by (subst unat_add_lem [THEN iffD1]) simp_all
  then show "L < L + 4096" by (simp add: word_less_nat_alt)
  show "paligned (L + 4096)" using assms(1) u by (simp add: built_def paligned_def)
qed

lemma off_simps:
  assumes "\<not> cr0_pg s"
  shows "load a s = Some (rd32 (pmem s) a)" "store a v s = Some (s\<lparr>pmem := wr32 (pmem s) a v\<rparr>)"
    "memzero a n s = Some (s\<lparr>pmem := zeroed a n (pmem s)\<rparr>)"
proof -
  show "load a s = Some (rd32 (pmem s) a)" "store a v s = Some (s\<lparr>pmem := wr32 (pmem s) a v\<rparr>)"
    using assms by (simp_all add: load_def store_def xlate_def)
  show "memzero a n s = Some (s\<lparr>pmem := zeroed a n (pmem s)\<rparr>)"
  proof (induction n)
    case 0
    then show ?case by (simp add: memzero_def zeroed_def)
  next
    case (Suc n)
    have "(zeroed a n (pmem s))(a + of_nat n := 0) = zeroed a (Suc n) (pmem s)" by (auto simp: zeroed_def region_Suc_last)
    then show ?case using Suc assms by (simp add: memzero_def foldM_append store8_def xlate_def)
  qed
qed

lemma wr32_zeroed:
  assumes "paligned D" "paligned p" "p \<noteq> D" "unat i < 1024"
  shows "wr32 (zeroed p 4096 m) (D + 4 * i) e = zeroed p 4096 (wr32 m (D + 4 * i) e)"
proof
  fix x
  show "wr32 (zeroed p 4096 m) (D + 4 * i) e x = zeroed p 4096 (wr32 m (D + 4 * i) e) x"
  proof (cases "x \<in> region (D + 4 * i) 4")
    case True
    then have "x \<notin> region p 4096" using entry_region_page [OF assms(1,4) True] region_page [OF assms(2)] assms(3) by auto
    then show ?thesis using True by (auto simp: zeroed_def wr32_def region_4)
  next
    case False
    then show ?thesis by (simp add: wr32_other zeroed_def)
  qed
qed

lemma new_table_built:
  assumes off: "\<not> cr0_pg s" "\<not> pmm_paging_active s" and b: "built (pmem s) D (pmm_location s)"
    and i: "unat i < 1023" "pde (pmem s) D i = 0" and L: "unat (pmm_location s) + 4096 < 2 ^ 32"
  shows "\<exists>s'. new_table D i s = Some (pmm_location s, s') \<and> same_config s s' \<and> pmm_location s' = pmm_location s + 4096
    \<and> built (pmem s') D (pmm_location s')
    \<and> (\<forall>k. unat k < 1024 \<longrightarrow> pde (pmem s') D k = (if k = i then pmm_location s OR PAGE_PRESENT OR PAGE_WRITE else pde (pmem s) D k))
    \<and> (\<forall>k j. unat k < 1023 \<longrightarrow> unat j < 1024 \<longrightarrow> pde (pmem s) D k \<noteq> 0 \<longrightarrow> pte (pmem s') D k j = pte (pmem s) D k j)"
proof -
  define p e where "p = pmm_location s" and "e = p OR PAGE_PRESENT OR PAGE_WRITE"
  define m' where "m' = zeroed p 4096 (wr32 (pmem s) (D + 4 * i) e)"
  define s' where "s' = s\<lparr>pmem := m', pmm_location := p + 4096\<rparr>"
  have fp: "fresh_page (pmem s) D p" using built_fresh [OF b] by (simp add: p_def)
  have W: "tables_wf (pmem s) D" using b by (simp add: built_def)
  have pp: "paligned p" "p \<noteq> D" using fp by (auto simp: fresh_page_def)
  have e: "base e = p" "present e" using page_entry [of PAGE_WRITE p] pp by (simp_all add: e_def PAGE_WRITE_def)
  have i': "unat i < 1024" using i(1) by simp
  note S = set_pde [OF W i fp e, folded m'_def] and G = built_grow [OF b L, folded p_def]
  have "new_table D i s = Some (p, s')"
    using off wr32_zeroed [OF tables_wfD(1) [OF W] pp i', of "pmem s" e]
    by (simp add: new_table_def pmm_alloc_page_def off_simps e_def p_def m'_def s'_def PAGE_SIZE_def)
  moreover have "base (pde m' D k) < p + 4096" if k: "unat k < 1023" "pde m' D k \<noteq> 0" for k
  proof (cases "k = i")
    case True
    then show ?thesis using S(2) [of k] k(1) e(1) G(2) by simp
  next
    case False
    then have "base (pde m' D k) < p" using S(2) [of k] k b by (simp add: built_def p_def)
    then show ?thesis using G(2) by (rule less_trans)
  qed
  moreover have "D < p" using b by (simp add: built_def p_def)
  ultimately have "built m' D (p + 4096)" using S(1) G(1,2) by (auto simp: built_def)
  then show ?thesis using \<open>new_table D i s = Some (p, s')\<close> S(2,4)
    by (auto simp: s'_def p_def e_def same_config_def)
qed

lemma fill_tables_built:
  assumes "\<not> cr0_pg s" "\<not> pmm_paging_active s" "built (pmem s) D (pmm_location s)" "\<forall>i \<in> set xs. unat i < 1023"
    "unat (pmm_location s) + 4096 * length xs < 2 ^ 32"
  shows "\<exists>s'. foldM (fill_table D) xs s = Some s' \<and> same_config s s' \<and> built (pmem s') D (pmm_location s')
    \<and> unat (pmm_location s') \<le> unat (pmm_location s) + 4096 * length xs
    \<and> (\<forall>k. unat k < 1024 \<longrightarrow> pde (pmem s) D k \<noteq> 0 \<or> k \<notin> set xs \<longrightarrow> pde (pmem s') D k = pde (pmem s) D k)
    \<and> (\<forall>k j. unat k < 1023 \<longrightarrow> unat j < 1024 \<longrightarrow> pde (pmem s) D k \<noteq> 0 \<longrightarrow> pte (pmem s') D k j = pte (pmem s) D k j)"
  using assms
proof (induction xs arbitrary: s)
  case Nil
  then show ?case by (auto intro: same_configI)
next
  case (Cons i xs)
  have i: "unat i < 1023" "unat (pmm_location s) + 4096 < 2 ^ 32" using Cons.prems(4,5) by simp_all
  show ?case
  proof (cases "pde (pmem s) D i = 0")
    case False
    then have "fill_table D i s = Some s" using Cons.prems(1) by (simp add: fill_table_def off_simps pde_def)
    moreover have "\<exists>s'. foldM (fill_table D) xs s = Some s' \<and> same_config s s' \<and> built (pmem s') D (pmm_location s')
      \<and> unat (pmm_location s') \<le> unat (pmm_location s) + 4096 * length xs
      \<and> (\<forall>k. unat k < 1024 \<longrightarrow> pde (pmem s) D k \<noteq> 0 \<or> k \<notin> set xs \<longrightarrow> pde (pmem s') D k = pde (pmem s) D k)
      \<and> (\<forall>k j. unat k < 1023 \<longrightarrow> unat j < 1024 \<longrightarrow> pde (pmem s) D k \<noteq> 0 \<longrightarrow> pte (pmem s') D k j = pte (pmem s) D k j)"
      by (rule Cons.IH) (use Cons.prems in auto)
    ultimately show ?thesis by force
  next
    case True
    obtain s1 where s1: "new_table D i s = Some (pmm_location s, s1)" "same_config s s1" "pmm_location s1 = pmm_location s + 4096"
        "built (pmem s1) D (pmm_location s1)"
        "\<forall>k. unat k < 1024 \<longrightarrow> pde (pmem s1) D k = (if k = i then pmm_location s OR PAGE_PRESENT OR PAGE_WRITE else pde (pmem s) D k)"
        "\<forall>k j. unat k < 1023 \<longrightarrow> unat j < 1024 \<longrightarrow> pde (pmem s) D k \<noteq> 0 \<longrightarrow> pte (pmem s1) D k j = pte (pmem s) D k j"
      using new_table_built [OF Cons.prems(1-3) i(1) True i(2)] by blast
    have "fill_table D i s = Some s1" using True s1(1) Cons.prems(1) by (simp add: fill_table_def off_simps pde_def)
    moreover have u: "unat (pmm_location s1) = unat (pmm_location s) + 4096" using built_grow(3) [OF Cons.prems(3) i(2)] s1(3) by simp
    moreover have "\<exists>s'. foldM (fill_table D) xs s1 = Some s' \<and> same_config s1 s' \<and> built (pmem s') D (pmm_location s')
      \<and> unat (pmm_location s') \<le> unat (pmm_location s1) + 4096 * length xs
      \<and> (\<forall>k. unat k < 1024 \<longrightarrow> pde (pmem s1) D k \<noteq> 0 \<or> k \<notin> set xs \<longrightarrow> pde (pmem s') D k = pde (pmem s1) D k)
      \<and> (\<forall>k j. unat k < 1023 \<longrightarrow> unat j < 1024 \<longrightarrow> pde (pmem s1) D k \<noteq> 0 \<longrightarrow> pte (pmem s') D k j = pte (pmem s1) D k j)"
      by (rule Cons.IH) (use Cons.prems s1(4) same_configD [OF s1(2)] u in auto)
    then obtain s' where s': "foldM (fill_table D) xs s1 = Some s'" "same_config s1 s'" "built (pmem s') D (pmm_location s')"
      "unat (pmm_location s') \<le> unat (pmm_location s1) + 4096 * length xs"
      "\<forall>k. unat k < 1024 \<longrightarrow> pde (pmem s1) D k \<noteq> 0 \<or> k \<notin> set xs \<longrightarrow> pde (pmem s') D k = pde (pmem s1) D k"
      "\<forall>k j. unat k < 1023 \<longrightarrow> unat j < 1024 \<longrightarrow> pde (pmem s1) D k \<noteq> 0 \<longrightarrow> pte (pmem s') D k j = pte (pmem s1) D k j" by blast
    have p1: "pde (pmem s1) D k = pde (pmem s) D k" if "unat k < 1024" "k \<noteq> i" for k using s1(5) that by simp
    have "\<forall>k. unat k < 1024 \<longrightarrow> pde (pmem s) D k \<noteq> 0 \<or> k \<notin> set (i # xs) \<longrightarrow> pde (pmem s') D k = pde (pmem s) D k"
      using s'(5) p1 True by (metis list.set_intros(1) list.set_intros(2))
    moreover have "\<forall>k j. unat k < 1023 \<longrightarrow> unat j < 1024 \<longrightarrow> pde (pmem s) D k \<noteq> 0 \<longrightarrow> pte (pmem s') D k j = pte (pmem s) D k j"
    proof (intro allI impI)
      fix k j :: u32 assume k: "unat k < 1023" "unat j < 1024" "pde (pmem s) D k \<noteq> 0"
      then have "k \<noteq> i" "unat k < 1024" using True by auto
      then have "pde (pmem s1) D k \<noteq> 0" using p1 [of k] k(3) by simp
      then show "pte (pmem s') D k j = pte (pmem s) D k j" using s'(6) s1(6) k by simp
    qed
    ultimately show ?thesis using s' same_config_trans [OF s1(2) s'(2)] \<open>fill_table D i s = Some s1\<close> u by auto
  qed
qed

lemma unat_page_index: "unat (j :: u32) < 1024 \<Longrightarrow> unat (j * 0x1000) = unat j * 4096"
  by (subst unat_mult_lem [THEN iffD1]) simp_all

lemma ident_entry:
  assumes "unat j < 1024"
  shows "base ((j * 0x1000) OR PAGE_PRESENT OR PAGE_WRITE) = j * 0x1000" "present ((j * 0x1000) OR PAGE_PRESENT OR PAGE_WRITE)"
proof -
  have "paligned (j * 0x1000)" using unat_page_index [OF assms] by (simp add: paligned_def)
  then show "base ((j * 0x1000) OR PAGE_PRESENT OR PAGE_WRITE) = j * 0x1000" "present ((j * 0x1000) OR PAGE_PRESENT OR PAGE_WRITE)"
    using page_entry [of PAGE_WRITE "j * 0x1000"] by (simp_all add: PAGE_WRITE_def)
qed

lemma ident_loop:
  assumes off: "\<not> cr0_pg s" and W: "tables_wf (pmem s) D" and d: "pde (pmem s) D 0 \<noteq> 0" "base (pde (pmem s) D 0) = tab" and n: "n \<le> 1024"
  shows "\<exists>s'. foldM (\<lambda>i. store (tab + 4 * of_nat i) ((of_nat i * 0x1000) OR PAGE_PRESENT OR PAGE_WRITE)) [0..<n] s = Some s'
    \<and> same_config s s' \<and> pmm_location s' = pmm_location s \<and> tables_wf (pmem s') D
    \<and> (\<forall>k. unat k < 1024 \<longrightarrow> pde (pmem s') D k = pde (pmem s) D k)
    \<and> (\<forall>k j. unat k < 1023 \<longrightarrow> unat j < 1024 \<longrightarrow> pde (pmem s) D k \<noteq> 0 \<longrightarrow> pte (pmem s') D k j =
         (if k = 0 \<and> unat j < n then (j * 0x1000) OR PAGE_PRESENT OR PAGE_WRITE else pte (pmem s) D k j))"
  using n
proof (induction n)
  case 0
  then show ?case using W by (auto intro: same_configI)
next
  case (Suc n)
  then obtain s1 where s1: "foldM (\<lambda>i. store (tab + 4 * of_nat i) ((of_nat i * 0x1000) OR PAGE_PRESENT OR PAGE_WRITE)) [0..<n] s = Some s1"
    "same_config s s1" "pmm_location s1 = pmm_location s" "tables_wf (pmem s1) D" "\<forall>k. unat k < 1024 \<longrightarrow> pde (pmem s1) D k = pde (pmem s) D k"
    "\<forall>k j. unat k < 1023 \<longrightarrow> unat j < 1024 \<longrightarrow> pde (pmem s) D k \<noteq> 0 \<longrightarrow> pte (pmem s1) D k j =
         (if k = 0 \<and> unat j < n then (j * 0x1000) OR PAGE_PRESENT OR PAGE_WRITE else pte (pmem s) D k j)" by auto
  define v :: u32 where "v = (of_nat n * 0x1000) OR PAGE_PRESENT OR PAGE_WRITE"
  define m2 where "m2 = wr32 (pmem s1) (tab + 4 * of_nat n) v"
  have un: "unat (of_nat n :: u32) = n" using Suc.prems by (simp add: unat_of_nat_u32)
  have nn: "unat (0 :: u32) < 1023" "unat (of_nat n :: u32) < 1024" using Suc.prems un by simp_all
  have d1: "pde (pmem s1) D 0 \<noteq> 0" "pde (pmem s1) D 0 = pde (pmem s) D 0" using s1(5) d(1) by simp_all
  note S = set_pte [OF s1(4) nn d1(1), where v = v, unfolded d1(2) d(2), folded m2_def]
  have "present v" unfolding v_def by (rule ident_entry(2)) (rule nn(2))
  then have W2: "tables_wf m2 D" using set_pte_wf [OF s1(4) nn d1(1), of v, unfolded d1(2) d(2)] by (simp add: m2_def)
  have st: "store (tab + 4 * of_nat n) v s1 = Some (s1\<lparr>pmem := m2\<rparr>)" using off same_configD(1) [OF s1(2)] by (simp add: off_simps m2_def)
  have eq: "(j = of_nat n) = (unat j = n)" for j :: u32 unfolding word_unat_eq_iff un by (rule refl)
  have "pte m2 D k j = (if k = 0 \<and> unat j < Suc n then (j * 0x1000) OR PAGE_PRESENT OR PAGE_WRITE else pte (pmem s) D k j)"
    if k: "unat k < 1023" "unat j < 1024" "pde (pmem s) D k \<noteq> 0" for k j
  proof -
    have "pte m2 D k j = (if k = 0 \<and> j = of_nat n then v else pte (pmem s1) D k j)" using S(2) [OF k(1,2)] s1(5) k by simp
    then show ?thesis using s1(6) k by (auto simp: eq v_def)
  qed
  moreover have "foldM (\<lambda>i. store (tab + 4 * of_nat i) ((of_nat i * 0x1000) OR PAGE_PRESENT OR PAGE_WRITE)) [0..<Suc n] s = Some (s1\<lparr>pmem := m2\<rparr>)"
    using s1(1) st by (simp add: foldM_append v_def)
  moreover have "\<forall>k. unat k < 1024 \<longrightarrow> pde m2 D k = pde (pmem s) D k" using S(1) s1(5) by simp
  ultimately show ?case using W2 s1(3) same_config_trans [OF s1(2) same_configI(2)]
    by (intro exI [of _ "s1\<lparr>pmem := m2\<rparr>"]) simp
qed

lemma set_self:
  assumes W: "tables_wf m D" and e: "present e"
  defines "m' \<equiv> wr32 m (D + 4 * 1023) e"
  shows "tables_wf m' D" "\<And>k. unat k < 1024 \<Longrightarrow> pde m' D k = (if k = 1023 then e else pde m D k)"
    "\<And>k j. unat k < 1023 \<Longrightarrow> unat j < 1024 \<Longrightarrow> pde m D k \<noteq> 0 \<Longrightarrow> pte m' D k j = pte m D k j"
proof -
  note T = tables_wfD [OF W]
  have u: "unat (1023 :: u32) < 1024" by simp
  show P: "pde m' D k = (if k = 1023 then e else pde m D k)" if "unat k < 1024" for k
    using rd32_wr32_entry [OF T(1) T(1) u that, of m e] by (auto simp: pde_def m'_def)
  have Q: "pde m' D k = pde m D k" if "unat k < 1023" for k using P [of k] that by auto
  show S: "pte m' D k j = pte m D k j" if k: "unat k < 1023" "unat j < 1024" "pde m D k \<noteq> 0" for k j
    using rd32_wr32_entry [OF T(1) paligned_mask [of "pde m D k"] u k(2), of m e] T(3) [OF k(1,3)] Q [OF k(1)] by (auto simp: pte_def m'_def)
  have "\<forall>k j. unat k < 1023 \<longrightarrow> unat j < 1024 \<longrightarrow> pde m' D k \<noteq> 0 \<longrightarrow> pte m' D k j = 0 \<or> present (pte m' D k j)"
    using S T(5) Q by metis
  moreover have "\<forall>k. unat k < 1024 \<longrightarrow> pde m' D k = 0 \<or> present (pde m' D k)" using P T(2) e by auto
  ultimately show "tables_wf m' D" unfolding tables_wf_def using T(1,3,4) Q by auto
qed

lemma built_cong:
  assumes "built m D L" "tables_wf m' D" "\<And>k. unat k < 1023 \<Longrightarrow> pde m' D k = pde m D k"
  shows "built m' D L"
  using assms by (simp add: built_def)

lemma built_empty:
  assumes "paligned D" "unat D + 4096 < 2 ^ 32"
  shows "built (zeroed D 4096 m) D (D + 4096)" "\<And>k. unat k < 1024 \<Longrightarrow> pde (zeroed D 4096 m) D k = 0"
proof -
  show z: "pde (zeroed D 4096 m) D k = 0" if "unat k < 1024" for k using rd32_zeroed [OF assms(1) that] by (simp add: pde_def)
  have "tables_wf (zeroed D 4096 m) D" using z assms(1) by (simp add: tables_wf_def)
  moreover have u: "unat (D + 4096) = unat D + 4096" using assms(2) by (subst unat_add_lem [THEN iffD1]) simp_all
  moreover have "D < D + 4096" using u by (simp add: word_less_nat_alt)
  moreover have "paligned (D + 4096)" using assms(1) u by (simp add: paligned_def)
  ultimately show "built (zeroed D 4096 m) D (D + 4096)" using z by (simp add: built_def)
qed

lemma layout_index:
  "PGDIR_IDX_FROM_ADDR KERNEL_DIR_VIRTUAL = 1022" "PGTAB_IDX_FROM_ADDR KERNEL_DIR_VIRTUAL = 1023"
  "PGDIR_IDX_FROM_ADDR KERNEL_TABLES_VIRTUAL = 1023" "PGDIR_IDX_FROM_ADDR PMM_STACK_START = 1021"
  "PG_FIRST_DIR_FROM_ADDR PMM_STACK_START = 1021 * 1024" "PG_NUM_FROM_ADDR LOWMEM_ID_MAP_END = 1024"
  "PGDIR_IDX_FROM_ADDR KERNEL_ADDRESS_SPACE = 960" "PGDIR_IDX_FROM_ADDR MOUNT_TABS_START = 1012"
  by (simp_all add: PGDIR_IDX_FROM_ADDR_def PGTAB_IDX_FROM_ADDR_def PG_FIRST_DIR_FROM_ADDR_def PG_NUM_FROM_ADDR_def
      KERNEL_DIR_VIRTUAL_def KERNEL_TABLES_VIRTUAL_def PMM_STACK_START_def LOWMEM_ID_MAP_END_def KERNEL_ADDRESS_SPACE_def MOUNT_TABS_START_def)

lemma own_entry:
  assumes "paligned p"
  shows "base (p OR PAGE_PRESENT OR PAGE_WRITE) = p" "present (p OR PAGE_PRESENT OR PAGE_WRITE)" "p OR PAGE_PRESENT OR PAGE_WRITE \<noteq> 0"
  using page_entry [of PAGE_WRITE p] assms present_nonzero by (auto simp: PAGE_WRITE_def)

text \<open>The table for low memory and its identity mapping.\<close>

lemma low_memory:
  assumes off: "\<not> cr0_pg s" "\<not> pmm_paging_active s" and b: "built (pmem s) D (pmm_location s)" and z: "\<And>k. unat k < 1024 \<Longrightarrow> pde (pmem s) D k = 0"
    and L: "unat (pmm_location s) + 4096 < 2 ^ 32"
  shows "\<exists>s2 s3. new_table D 0 s = Some (pmm_location s, s2)
    \<and> foldM (\<lambda>i. store (pmm_location s + 4 * of_nat i) ((of_nat i * 0x1000) OR PAGE_PRESENT OR PAGE_WRITE)) [0..<1024] s2 = Some s3
    \<and> same_config s s3 \<and> unat (pmm_location s3) = unat (pmm_location s) + 4096 \<and> built (pmem s3) D (pmm_location s3)
    \<and> (\<forall>k. unat k < 1024 \<longrightarrow> k \<noteq> 0 \<longrightarrow> pde (pmem s3) D k = 0) \<and> pde (pmem s3) D 0 \<noteq> 0
    \<and> (\<forall>j. unat j < 1024 \<longrightarrow> pte (pmem s3) D 0 j = (j * 0x1000) OR PAGE_PRESENT OR PAGE_WRITE)"
proof -
  obtain s2 where 2: "new_table D 0 s = Some (pmm_location s, s2)" "same_config s s2" "pmm_location s2 = pmm_location s + 4096" "built (pmem s2) D (pmm_location s2)"
    "\<forall>k. unat k < 1024 \<longrightarrow> pde (pmem s2) D k = (if k = 0 then pmm_location s OR PAGE_PRESENT OR PAGE_WRITE else pde (pmem s) D k)"
    using new_table_built [OF off b, of 0] z [of 0] L by auto
  have "paligned (pmm_location s)" using b by (simp add: built_def)
  then have d: "pde (pmem s2) D 0 \<noteq> 0" "base (pde (pmem s2) D 0) = pmm_location s" using 2(5) own_entry by simp_all
  have W: "tables_wf (pmem s2) D" "\<not> cr0_pg s2" using 2(4) off(1) same_configD [OF 2(2)] by (simp_all add: built_def)
  obtain s3 where 3: "foldM (\<lambda>i. store (pmm_location s + 4 * of_nat i) ((of_nat i * 0x1000) OR PAGE_PRESENT OR PAGE_WRITE)) [0..<1024] s2 = Some s3"
    "same_config s2 s3" "pmm_location s3 = pmm_location s2" "tables_wf (pmem s3) D" "\<forall>k. unat k < 1024 \<longrightarrow> pde (pmem s3) D k = pde (pmem s2) D k"
    "\<forall>k j. unat k < 1023 \<longrightarrow> unat j < 1024 \<longrightarrow> pde (pmem s2) D k \<noteq> 0 \<longrightarrow> pte (pmem s3) D k j =
         (if k = 0 \<and> unat j < 1024 then (j * 0x1000) OR PAGE_PRESENT OR PAGE_WRITE else pte (pmem s2) D k j)"
    using ident_loop [OF W(2,1) d order_refl] by blast
  have "built (pmem s3) D (pmm_location s3)" using built_cong [OF 2(4) 3(4)] 3(3,5) by simp
  moreover have "unat (pmm_location s3) = unat (pmm_location s) + 4096" using built_grow(3) [OF b L] 2(3) 3(3) by simp
  moreover have "\<forall>k. unat k < 1024 \<longrightarrow> k \<noteq> 0 \<longrightarrow> pde (pmem s3) D k = 0" "pde (pmem s3) D 0 \<noteq> 0" using 3(5) 2(5) z d(1) by simp_all
  moreover have "\<forall>j. unat j < 1024 \<longrightarrow> pte (pmem s3) D 0 j = (j * 0x1000) OR PAGE_PRESENT OR PAGE_WRITE" using 3(6) d(1) by simp
  ultimately show ?thesis using 2(1) 3(1) same_config_trans [OF 2(2) 3(2)] by blast
qed

text \<open>The table for the mount point of the directory, and the two entries of the recursive mapping.\<close>

lemma mount_self:
  assumes off: "\<not> cr0_pg s" "\<not> pmm_paging_active s" and b: "built (pmem s) D (pmm_location s)" and L: "unat (pmm_location s) + 4096 < 2 ^ 32"
    and z: "\<And>k. unat k < 1024 \<Longrightarrow> k \<noteq> 0 \<Longrightarrow> pde (pmem s) D k = 0" "pde (pmem s) D 0 \<noteq> 0" and e: "base e = D" "present e"
  defines "m' s4 \<equiv> wr32 (wr32 (pmem s4) (pmm_location s + 4 * 1023) e) (D + 4 * 1023) e"
  shows "\<exists>s4. new_table D 1022 s = Some (pmm_location s, s4) \<and> same_config s s4 \<and> unat (pmm_location s4) = unat (pmm_location s) + 4096
    \<and> built (m' s4) D (pmm_location s4) \<and> mounted (m' s4) D \<and> pde (m' s4) D 1021 = 0 \<and> pde (m' s4) D 0 \<noteq> 0
    \<and> (\<forall>j. unat j < 1024 \<longrightarrow> pte (m' s4) D 0 j = pte (pmem s) D 0 j)"
proof -
  obtain s4 where 4: "new_table D 1022 s = Some (pmm_location s, s4)" "same_config s s4" "pmm_location s4 = pmm_location s + 4096" "built (pmem s4) D (pmm_location s4)"
    "\<forall>k. unat k < 1024 \<longrightarrow> pde (pmem s4) D k = (if k = 1022 then pmm_location s OR PAGE_PRESENT OR PAGE_WRITE else pde (pmem s) D k)"
    "\<forall>k j. unat k < 1023 \<longrightarrow> unat j < 1024 \<longrightarrow> pde (pmem s) D k \<noteq> 0 \<longrightarrow> pte (pmem s4) D k j = pte (pmem s) D k j"
    using new_table_built [OF off b, of 1022] z(1) [of 1022] L by auto
  have "paligned (pmm_location s)" using b by (simp add: built_def)
  then have d: "pde (pmem s4) D 1022 \<noteq> 0" "base (pde (pmem s4) D 1022) = pmm_location s" "pde (pmem s4) D 1021 = 0" "pde (pmem s4) D 0 \<noteq> 0"
    using 4(5) own_entry z(2) z(1) [of 1021] by simp_all
  define m5 where "m5 = wr32 (pmem s4) (pmm_location s + 4 * 1023) e"
  have m': "m' s4 = wr32 m5 (D + 4 * 1023) e" by (simp add: m'_def m5_def)
  have W: "tables_wf (pmem s4) D" using 4(4) by (simp add: built_def)
  have iu: "unat (1022 :: u32) < 1023" "unat (1023 :: u32) < 1024" by simp_all
  note S5 = set_pte [OF W iu d(1), where v = e, unfolded d(2), folded m5_def]
  have W5: "tables_wf m5 D" using set_pte_wf [OF W iu d(1), of e, unfolded d(2)] e(2) by (simp add: m5_def)
  note S6 = set_self [OF W5 e(2), folded m']
  have p: "pde (m' s4) D k = (if k = 1023 then e else pde (pmem s4) D k)" if "unat k < 1024" for k using S6(2) [OF that] S5(1) [OF that] by simp
  have t: "pte (m' s4) D k j = (if k = 1022 \<and> j = 1023 then e else pte (pmem s4) D k j)" if "unat k < 1023" "unat j < 1024" "pde (pmem s4) D k \<noteq> 0" for k j
    using S6(3) [OF that(1,2)] S5(1) [of k] S5(2) [OF that] that by simp
  have "pde (m' s4) D k = pde (pmem s4) D k" if "unat k < 1023" for k using p [of k] that by auto
  then have "built (m' s4) D (pmm_location s4)" by (rule built_cong [OF 4(4) S6(1)])
  moreover have "mounted (m' s4) D" using p [of 1023] p [of 1022] t [of 1022 1023] d e tables_wfD(1,2) [OF W] by (simp add: mounted_def)
  moreover have "\<forall>j. unat j < 1024 \<longrightarrow> pte (m' s4) D 0 j = pte (pmem s) D 0 j" using t [of 0] d(4) 4(6) z(2) by simp
  moreover have "unat (pmm_location s4) = unat (pmm_location s) + 4096" using built_grow(3) [OF b L] 4(3) by simp
  ultimately show ?thesis using 4(1,2) p [of 1021] p [of 0] d by (intro exI [of _ s4]) simp
qed

lemma mount_kernel_built:
  assumes off: "\<not> cr0_pg s" "\<not> pmm_paging_active s" and L: "paligned (pmm_location s)" "unat (pmm_location s) + 4096 * 4 < 2 ^ 32"
  shows "\<exists>s'. mount_kernel s = Some (pmm_location s, s') \<and> \<not> cr0_pg s' \<and> \<not> pmm_paging_active s'
    \<and> pmm_stack_loc s' = pmm_stack_loc s \<and> pmm_stack_max s' = pmm_stack_max s
    \<and> kernel_directory s' = \<lparr>physical = pmm_location s, directory = KERNEL_DIR_VIRTUAL, pages = KERNEL_TABLES_VIRTUAL\<rparr>
    \<and> built (pmem s') (pmm_location s) (pmm_location s') \<and> unat (pmm_location s') = unat (pmm_location s) + 4096 * 3
    \<and> mounted (pmem s') (pmm_location s) \<and> pde (pmem s') (pmm_location s) 1021 = 0 \<and> pde (pmem s') (pmm_location s) 0 \<noteq> 0
    \<and> (\<forall>j. unat j < 1024 \<longrightarrow> pte (pmem s') (pmm_location s) 0 j = (j * 0x1000) OR PAGE_PRESENT OR PAGE_WRITE)"
proof -
  define D e where "D = pmm_location s" and "e = D OR PAGE_PRESENT OR PAGE_WRITE"
  have e: "base e = D" "present e" using own_entry [of D] L by (simp_all add: e_def D_def)
  define s1 where "s1 = s\<lparr>pmm_location := D + 4096, pmem := zeroed D 4096 (pmem s), kernel_directory := (kernel_directory s)\<lparr>physical := D\<rparr>\<rparr>"
  have 1: "\<not> cr0_pg s1" "\<not> pmm_paging_active s1" "built (pmem s1) D (pmm_location s1)" "\<And>k. unat k < 1024 \<Longrightarrow> pde (pmem s1) D k = 0"
    using off built_empty [of D, where m = "pmem s"] L by (simp_all add: s1_def D_def)
  have u1: "unat (pmm_location s1) = unat D + 4096" using L by (simp add: s1_def D_def unat_add_lem [THEN iffD1])
  have l1: "unat (pmm_location s1) + 4096 < 2 ^ 32" using u1 L by (simp add: D_def)
  obtain s2 s3 where 3: "new_table D 0 s1 = Some (pmm_location s1, s2)"
    "foldM (\<lambda>i. store (pmm_location s1 + 4 * of_nat i) ((of_nat i * 0x1000) OR PAGE_PRESENT OR PAGE_WRITE)) [0..<1024] s2 = Some s3"
    "same_config s1 s3" "unat (pmm_location s3) = unat (pmm_location s1) + 4096" "built (pmem s3) D (pmm_location s3)"
    "\<forall>k. unat k < 1024 \<longrightarrow> k \<noteq> 0 \<longrightarrow> pde (pmem s3) D k = 0" "pde (pmem s3) D 0 \<noteq> 0"
    "\<forall>j. unat j < 1024 \<longrightarrow> pte (pmem s3) D 0 j = (j * 0x1000) OR PAGE_PRESENT OR PAGE_WRITE"
    using low_memory [OF 1 l1] by blast
  have c3: "\<not> cr0_pg s3" "\<not> pmm_paging_active s3" "unat (pmm_location s3) + 4096 < 2 ^ 32"
    using 1(1,2) same_configD [OF 3(3)] 3(4) u1 L by (simp_all add: D_def)
  obtain s4 where 4: "new_table D 1022 s3 = Some (pmm_location s3, s4)" "same_config s3 s4" "unat (pmm_location s4) = unat (pmm_location s3) + 4096"
    and m: "built (wr32 (wr32 (pmem s4) (pmm_location s3 + 4 * 1023) e) (D + 4 * 1023) e) D (pmm_location s4)"
      "mounted (wr32 (wr32 (pmem s4) (pmm_location s3 + 4 * 1023) e) (D + 4 * 1023) e) D"
      "pde (wr32 (wr32 (pmem s4) (pmm_location s3 + 4 * 1023) e) (D + 4 * 1023) e) D 1021 = 0"
      "pde (wr32 (wr32 (pmem s4) (pmm_location s3 + 4 * 1023) e) (D + 4 * 1023) e) D 0 \<noteq> 0"
      "\<forall>j. unat j < 1024 \<longrightarrow> pte (wr32 (wr32 (pmem s4) (pmm_location s3 + 4 * 1023) e) (D + 4 * 1023) e) D 0 j = pte (pmem s3) D 0 j"
    using mount_self [OF c3(1,2) 3(5) c3(3) _ 3(7) e] 3(6) by blast
  define s6 where "s6 = s4\<lparr>pmem := wr32 (wr32 (pmem s4) (pmm_location s3 + 4 * 1023) e) (D + 4 * 1023) e,
    kernel_directory := \<lparr>physical = D, directory = KERNEL_DIR_VIRTUAL, pages = KERNEL_TABLES_VIRTUAL\<rparr>\<rparr>"
  have c4: "\<not> cr0_pg s4" "\<not> pmm_paging_active s4" "kernel_directory s4 = (kernel_directory s)\<lparr>physical := D\<rparr>"
     "pmm_stack_loc s4 = pmm_stack_loc s" "pmm_stack_max s4 = pmm_stack_max s"
    using c3 same_configD [OF 3(3)] same_configD [OF 4(2)] by (simp_all add: s1_def)
  have "mount_kernel s = Some (D, s6)"
    unfolding mount_kernel_def using off 3(1,2) 4(1) c4
    by (simp add: pmm_alloc_page_def off_simps layout_index s1_def [symmetric] D_def [symmetric] PAGE_SIZE_def e_def [symmetric])
      (simp add: s6_def s1_def off_simps)
  then show ?thesis using c4 4(3) 3(4,8) u1 m by (intro exI [of _ s6]) (simp add: s6_def D_def)
qed

lemma ident_walk:
  assumes W: "tables_wf m D" and d: "pde m D 0 \<noteq> 0" and i: "\<And>j. unat j < 1024 \<Longrightarrow> pte m D 0 j = (j * 0x1000) OR PAGE_PRESENT OR PAGE_WRITE"
    and va: "va < LOWMEM_ID_MAP_END"
  shows "walk m D va = Some va"
proof -
  have v: "unat va < 4194304" using va by (simp add: word_less_nat_alt LOWMEM_ID_MAP_END_def)
  then have 0: "PGDIR_IDX_FROM_ADDR va = 0" by (simp add: word_unat_eq_iff idx_dir)
  have "unat va div 4096 < 1024" using v by (simp add: div_less_iff_less_mult)
  then have "PGTAB_IDX_FROM_ADDR va * 0x1000 = base va"
    unfolding word_unat_eq_iff using unat_page_index [OF idx_bounds(2), of va] by (simp add: idx_tab mask_high)
  then have "base (pte m D 0 (PGTAB_IDX_FROM_ADDR va)) = base va" "present (pte m D 0 (PGTAB_IDX_FROM_ADDR va))"
    using i [OF idx_bounds(2)] ident_entry [OF idx_bounds(2), of va] by simp_all
  then show ?thesis using tables_wfD(2) [OF W, of 0] d page_split [of va] unfolding walk_entries [OF tables_wfD(1) [OF W]] by (simp add: Let_def 0)
qed

lemma unat_word_small: "unat (960 :: u32) = 960" "unat (1012 :: u32) = 1012"
  by simp_all

lemma kernel_tables_fold: "kernel_tables D = foldM (fill_table D) (map of_nat [960..<1012])"
  by (rule ext) (simp only: kernel_tables_def layout_index unat_word_small)

lemma directory_built:
  assumes off: "\<not> cr0_pg s" "\<not> pmm_paging_active s" and L: "paligned (pmm_location s)" "unat (pmm_location s) + 4096 * 110 < 2 ^ 32"
  defines "D \<equiv> pmm_location s"
  shows "\<exists>s1 s2. mount_kernel s = Some (D, s1) \<and> kernel_tables D s1 \<bind> kernel_tables D = Some s2 \<and> \<not> pmm_paging_active s2
    \<and> pmm_stack_loc s2 = pmm_stack_loc s \<and> pmm_stack_max s2 = pmm_stack_max s
    \<and> kernel_directory s2 = \<lparr>physical = D, directory = KERNEL_DIR_VIRTUAL, pages = KERNEL_TABLES_VIRTUAL\<rparr>
    \<and> built (pmem s2) D (pmm_location s2) \<and> mounted (pmem s2) D \<and> pde (pmem s2) D 1021 = 0 \<and> pde (pmem s2) D 0 \<noteq> 0
    \<and> (\<forall>j. unat j < 1024 \<longrightarrow> pte (pmem s2) D 0 j = (j * 0x1000) OR PAGE_PRESENT OR PAGE_WRITE)
    \<and> unat (pmm_location s2) \<le> unat D + 4096 * 107"
proof -
  define xs :: "u32 list" where "xs = map of_nat [960..<1012]"
  have xs: "\<forall>i \<in> set (xs @ xs). unat i < 1023" "length (xs @ xs) = 104" "1021 \<notin> set (xs @ xs)"
    by (auto simp: xs_def unat_of_nat_u32 word_unat_eq_iff)
  have l4: "unat (pmm_location s) + 4096 * 4 < 2 ^ 32" using L(2) by simp
  obtain s1 where 1: "mount_kernel s = Some (D, s1)" "\<not> cr0_pg s1" "\<not> pmm_paging_active s1"
     and k1: "pmm_stack_loc s1 = pmm_stack_loc s" "pmm_stack_max s1 = pmm_stack_max s"
     and 3: "kernel_directory s1 = \<lparr>physical = D, directory = KERNEL_DIR_VIRTUAL, pages = KERNEL_TABLES_VIRTUAL\<rparr>"
     "built (pmem s1) D (pmm_location s1)" "unat (pmm_location s1) = unat D + 4096 * 3"
     "mounted (pmem s1) D" "pde (pmem s1) D 1021 = 0" "pde (pmem s1) D 0 \<noteq> 0"
     "\<forall>j. unat j < 1024 \<longrightarrow> pte (pmem s1) D 0 j = (j * 0x1000) OR PAGE_PRESENT OR PAGE_WRITE"
    using mount_kernel_built [OF off L(1) l4, folded D_def] by blast
  have "unat (pmm_location s1) + 4096 * length (xs @ xs) < 2 ^ 32" using 3(3) L(2) xs(2) by (simp add: D_def)
  from fill_tables_built [OF 1(2,3) 3(2) xs(1) this] obtain s2 where 2: "foldM (fill_table D) (xs @ xs) s1 = Some s2" "same_config s1 s2" "built (pmem s2) D (pmm_location s2)"
     "unat (pmm_location s2) \<le> unat (pmm_location s1) + 4096 * length (xs @ xs)"
     "\<forall>k. unat k < 1024 \<longrightarrow> pde (pmem s1) D k \<noteq> 0 \<or> k \<notin> set (xs @ xs) \<longrightarrow> pde (pmem s2) D k = pde (pmem s1) D k"
     "\<forall>k j. unat k < 1023 \<longrightarrow> unat j < 1024 \<longrightarrow> pde (pmem s1) D k \<noteq> 0 \<longrightarrow> pte (pmem s2) D k j = pte (pmem s1) D k j" by blast
  have "kernel_tables D s1 \<bind> kernel_tables D = Some s2"
    using 2(1) unfolding foldM_append kernel_tables_fold xs_def .
  moreover have n: "pde (pmem s1) D 1023 \<noteq> 0" "pde (pmem s1) D 1022 \<noteq> 0" using 3(4) by (auto simp: mounted_def)
  then have "mounted (pmem s2) D" using 3(4) 2(5,6) by (simp add: mounted_def)
  moreover have "pde (pmem s2) D 1021 = 0" using 2(5) xs(3) 3(5) by simp
  moreover have "unat (pmm_location s2) \<le> unat D + 4096 * 107" using 2(4) 3(3) xs(2) by simp
  ultimately show ?thesis using 1 3 k1 2 same_configD [OF 2(2)] by (intro exI [of _ s1] exI [of _ s2]) simp
qed

lemma init_vmm_all:
  assumes off: "\<not> cr0_pg s" "\<not> pmm_paging_active s" and L: "paligned (pmm_location s)" "unat (pmm_location s) + 4096 * 110 < 2 ^ 32"
  shows "\<exists>s'. init_vmm s = Some s' \<and> vm_ok s' \<and> pmm_paging_active s' \<and> vcr3 s' = pmm_location s
    \<and> pmm_stack_loc s' = pmm_stack_loc s \<and> pmm_stack_max s' = pmm_stack_max s
    \<and> (\<forall>va. va < LOWMEM_ID_MAP_END \<longrightarrow> walk (pmem s') (vcr3 s') va = Some va)
    \<and> (\<forall>q. paligned q \<longrightarrow> pmm_location s' \<le> q \<longrightarrow> fresh_page (pmem s') (vcr3 s') q) \<and> pde (pmem s') (vcr3 s') 1021 \<noteq> 0
    \<and> unat (pmm_location s') \<le> unat (pmm_location s) + 4096 * 108"
proof -
  define D where "D = pmm_location s"
  obtain s1 s2 where 1: "mount_kernel s = Some (D, s1)" "kernel_tables D s1 \<bind> kernel_tables D = Some s2" "\<not> pmm_paging_active s2"
    and stk: "pmm_stack_loc s2 = pmm_stack_loc s" "pmm_stack_max s2 = pmm_stack_max s"
    and k2: "kernel_directory s2 = \<lparr>physical = D, directory = KERNEL_DIR_VIRTUAL, pages = KERNEL_TABLES_VIRTUAL\<rparr>"
    and b: "built (pmem s2) D (pmm_location s2)" "mounted (pmem s2) D" "pde (pmem s2) D 1021 = 0" "pde (pmem s2) D 0 \<noteq> 0"
      "\<forall>j. unat j < 1024 \<longrightarrow> pte (pmem s2) D 0 j = (j * 0x1000) OR PAGE_PRESENT OR PAGE_WRITE"
    and lb: "unat (pmm_location s2) \<le> unat D + 4096 * 107"
    using directory_built [OF off L, folded D_def] by blast
  define p where "p = pmm_location s2"
  define s4 where "s4 = s2\<lparr>current_directory := kernel_directory s2, vcr3 := D, cr0_pg := True, pmm_location := p + 4096\<rparr>"
  have m4: "pmem s4 = pmem s2" "vcr3 s4 = D" by (simp_all add: s4_def)
  have pg: "paged s4" using b k2 by (simp add: paged_def s4_def tables_ok_def built_def)
  have fp: "fresh_page (pmem s2) D p" using built_fresh [OF b(1)] by (simp add: p_def)
  define e where "e = p OR PAGE_PRESENT OR PAGE_WRITE"
  define m5 where "m5 = zeroed p 4096 (wr32 (pmem s2) (D + 4 * 1021) e)"
  define s5 where "s5 = s4\<lparr>pmem := m5, pmm_paging_active := True, can_map := True\<rparr>"
  have iu: "unat (1021 :: u32) < 1023" by simp
  have E: "base e = p" "present e" using own_entry [of p] fp by (simp_all add: fresh_page_def e_def)
  have T: "tables_wf (pmem s2) D" using b(1) by (simp add: built_def)
  note S = set_pde [OF T iu b(3) fp E, folded m5_def]
  have "vm_ok s5"
    using S(1) set_pde_mounted [OF T b(2) iu b(3) fp E] pg by (simp add: vm_ok_def paged_def s5_def m5_def m4 tables_ok_def)
  moreover have "init_vmm s = Some s5"
  proof -
    obtain s0 where k: "kernel_tables D s1 = Some s0" "kernel_tables D s0 = Some s2" using 1(2) by (auto simp: bind_eq_Some_conv)
    obtain s6 where 6: "store (KERNEL_DIR_VIRTUAL + 4 * 1021) e s4 = Some s6"
       "memzero (pages (current_directory s6) + 4 * (1021 * 1024)) 4096 s6 = Some (s4\<lparr>pmem := m5\<rparr>)"
      using add_table [OF pg iu, of p] b(3) fp k2 by (auto simp: m5_def m4 e_def bind_eq_Some_conv s4_def)
    have "current_directory s6 = kernel_directory s6" using 6(1) by (auto simp: store_def s4_def)
    then show ?thesis using 1(1,3) k 6 k2
      by (simp add: init_vmm_def switch_page_directory_def pmm_alloc_page_def layout_index PAGE_SIZE_def s5_def p_def e_def s4_def)
  qed
  moreover have "walk m5 D va = Some va" if "va < LOWMEM_ID_MAP_END" for va
    by (rule ident_walk [OF S(1) _ _ that]) (use S(2) [of 0] S(4) [of 0] b(4,5) in simp_all)
  moreover have "unat p + 4096 < 2 ^ 32" using lb L(2) by (simp add: p_def D_def)
  note G = built_grow [OF b(1) this [unfolded p_def], folded p_def]
  have "fresh_page m5 D q" if q: "paligned q" "p + 4096 \<le> q" for q
  proof -
    have "p < q" using G(2) q(2) by (rule less_le_trans)
    moreover have "D < p" using b(1) by (simp add: built_def p_def)
    moreover have "base (pde m5 D k) \<noteq> q" if k: "unat k < 1023" "pde m5 D k \<noteq> 0" for k
      using S(2) [of k] k E(1) b(1) \<open>p < q\<close> by (auto simp: built_def p_def split: if_splits)
    ultimately show ?thesis using q(1) by (auto simp: fresh_page_def)
  qed
  moreover have "pde m5 D 1021 \<noteq> 0" using S(2) [of 1021] E(2) by auto
  moreover have "unat (p + 4096) \<le> unat D + 4096 * 108" using G(3) lb by (simp add: p_def)
  ultimately show ?thesis by (intro exI [of _ s5]) (simp add: s5_def s4_def m4 D_def stk)
qed

end
