(* ===== verification/PagingProps.thy ===== *)
theory PagingProps
  imports PagingInit
begin

text \<open>
  The properties of physical and virtual memory.
\<close>

subsection \<open>The copy of a page\<close>

lemma copy_page_fold:
  fixes m :: mem
  assumes d: "region a 4096 \<inter> region b 4096 = {}" and n: "n \<le> 1024"
  defines "M k \<equiv> fold (\<lambda>i m. wr32 m (b + 4 * of_nat i) (rd32 m (a + 4 * of_nat i))) [0..<k] m"
  shows "(\<forall>x. x \<notin> region b (4 * n) \<longrightarrow> M n x = m x) \<and> (\<forall>i < n. rd32 (M n) (b + of_nat (4 * i)) = rd32 m (a + of_nat (4 * i)))"
  using n
proof (induction n)
  case 0
  then show ?case by (simp add: M_def)
next
  case (Suc n)
  then have IH: "\<And>x. x \<notin> region b (4 * n) \<Longrightarrow> M n x = m x" "\<And>i. i < n \<Longrightarrow> rd32 (M n) (b + of_nat (4 * i)) = rd32 m (a + of_nat (4 * i))" by auto
  have e: "M (Suc n) = wr32 (M n) (b + of_nat (4 * n)) (rd32 (M n) (a + of_nat (4 * n)))" by (simp add: M_def)
  have sub: "region (a + of_nat (4 * n)) 4 \<subseteq> region a 4096" "region (b + of_nat (4 * n)) 4 \<subseteq> region b (4 * Suc n)"
    by (rule region_offset_sub, use Suc.prems in simp)+
  have sub3: "region b (4 * n) \<subseteq> region b 4096" by (rule region_mono) (use Suc.prems in simp)
  have r: "rd32 (M n) (a + of_nat (4 * n)) = rd32 m (a + of_nat (4 * n))"
    by (rule rd32_cong) (use sub(1) sub3 d IH(1) in blast)
  have "M (Suc n) x = m x" if "x \<notin> region b (4 * Suc n)" for x
  proof -
    have "region b (4 * n) \<subseteq> region b (4 * Suc n)" by (rule region_mono) simp
    then show ?thesis using that sub(2) IH(1) unfolding e by (subst wr32_other) blast+
  qed
  moreover have "rd32 (M (Suc n)) (b + of_nat (4 * i)) = rd32 m (a + of_nat (4 * i))" if i: "i < Suc n" for i
  proof (cases "i = n")
    case True
    then show ?thesis using r by (simp add: e)
  next
    case False
    have "region (b + of_nat (4 * n)) 4 \<inter> region b (4 * n) = {}" by (rule region_offset_disj) (use Suc.prems in simp)
    moreover have "region (b + of_nat (4 * i)) 4 \<subseteq> region b (4 * n)" by (rule region_offset_sub) (use i False in simp)
    ultimately have "region (b + of_nat (4 * n)) 4 \<inter> region (b + of_nat (4 * i)) 4 = {}" by blast
    then show ?thesis using IH(2) [of i] i False unfolding e by (simp add: rd32_wr32_other)
  qed
  ultimately show ?case by blast
qed

subsection \<open>Properties\<close>

text \<open>
  C3: \<open>map\<close> does what the processor sees: after \<open>map(va, pa, flags)\<close> every address of that page translates to
  the page at \<open>pa\<close>, every other address below the table window translates as before, and the directory stays
  well-formed.  When the page table is missing, the page that \<open>pmm_alloc_page\<close> hands out must not be in use
  as a table.
\<close>
theorem map_page_translates:
  assumes "vm_ok s" "va < KERNEL_DIR_VIRTUAL" "unat fl < 4096"
    and "pde (pmem s) (vcr3 s) (PGDIR_IDX_FROM_ADDR va) = 0 \<Longrightarrow> \<exists>p s1. pmm_alloc_page s = Some (p, s1) \<and> fresh_page (pmem s) (vcr3 s) p"
  shows "\<exists>s'. map_page va pa fl s = Some s' \<and> vm_ok s' \<and> (\<forall>va'. va' < KERNEL_TABLES_VIRTUAL \<longrightarrow> walk (pmem s') (vcr3 s') va' =
    (if PG_NUM_FROM_ADDR va' = PG_NUM_FROM_ADDR va then Some (base pa + (va' AND PAGE_FLAGS_MASK)) else walk (pmem s) (vcr3 s) va'))"
  by (rule map_page_all [OF assms])

text \<open>A machine before paging, with the free memory from 5 MB on.\<close>

definition boot_vm :: vm where
  "boot_vm = \<lparr>pmem = (\<lambda>_. 0), vcr3 = 0, cr0_pg = False, kernel_directory = \<lparr>physical = 0, directory = 0, pages = 0\<rparr>,
     current_directory = \<lparr>physical = 0, directory = 0, pages = 0\<rparr>, can_map = False, pmm_paging_active = False,
     pmm_stack_loc = PMM_STACK_START, pmm_stack_max = PMM_STACK_START, pmm_location = 0x500000\<rparr>"

lemma boot_vm_start:
  "\<not> cr0_pg boot_vm" "\<not> pmm_paging_active boot_vm" "paligned (pmm_location boot_vm)" "unat (pmm_location boot_vm) + 4096 * 110 < 2 ^ 32"
  by (simp_all add: boot_vm_def paligned_def)

lemma walk_pde: "paligned D \<Longrightarrow> walk m D va = Some pa \<Longrightarrow> pde m D (PGDIR_IDX_FROM_ADDR va) \<noteq> 0"
  by (auto simp: walk_entries Let_def split: if_splits)

lemma boot_low:
  "\<exists>s. init_vmm boot_vm = Some s \<and> vm_ok s \<and> walk (pmem s) (vcr3 s) 0x2008 = Some 0x2008
     \<and> pde (pmem s) (vcr3 s) (PGDIR_IDX_FROM_ADDR 0x1000) \<noteq> 0"
proof -
  obtain s where s: "init_vmm boot_vm = Some s" "vm_ok s" "\<forall>va. va < LOWMEM_ID_MAP_END \<longrightarrow> walk (pmem s) (vcr3 s) va = Some va"
    using init_vmm_all [OF boot_vm_start] by blast
  have w: "walk (pmem s) (vcr3 s) 0x1000 = Some 0x1000" "walk (pmem s) (vcr3 s) 0x2008 = Some 0x2008"
    using s(3) by (simp_all add: LOWMEM_ID_MAP_END_def)
  have "paligned (vcr3 s)" using s(2) by (auto simp: vm_ok_def paged_def dest: tables_okD(2))
  then show ?thesis using s(1,2) w walk_pde by blast
qed

theorem map_page_translates_witness:
  "\<exists>s s'. init_vmm boot_vm = Some s \<and> map_page 0x1000 0x9000 3 s = Some s' \<and> walk (pmem s') (vcr3 s') 0x1004 = Some 0x9004
     \<and> walk (pmem s') (vcr3 s') 0x2008 = Some 0x2008"
proof -
  obtain s where s: "init_vmm boot_vm = Some s" "vm_ok s" "walk (pmem s) (vcr3 s) 0x2008 = Some 0x2008"
     "pde (pmem s) (vcr3 s) (PGDIR_IDX_FROM_ADDR 0x1000) \<noteq> 0" using boot_low by blast
  have "(0x1000 :: addr) < KERNEL_DIR_VIRTUAL" "unat (3 :: u32) < 4096" by (simp_all add: KERNEL_DIR_VIRTUAL_def)
  from map_page_translates [OF s(2) this, of "0x9000"] s(4) obtain s' where s': "map_page 0x1000 0x9000 3 s = Some s'"
    "\<forall>va'. va' < KERNEL_TABLES_VIRTUAL \<longrightarrow> walk (pmem s') (vcr3 s') va' =
    (if PG_NUM_FROM_ADDR va' = PG_NUM_FROM_ADDR 0x1000 then Some (base 0x9000 + (va' AND PAGE_FLAGS_MASK)) else walk (pmem s) (vcr3 s) va')" by blast
  have "walk (pmem s') (vcr3 s') 0x1004 = Some 0x9004" "walk (pmem s') (vcr3 s') 0x2008 = Some 0x2008"
    using s'(2) [rule_format, of "0x1004"] s'(2) [rule_format, of "0x2008"] s(3)
    by (simp_all add: KERNEL_TABLES_VIRTUAL_def PG_NUM_FROM_ADDR_def PAGE_ADDR_MASK_def PAGE_FLAGS_MASK_def)
  then show ?thesis using s(1) s'(1) by blast
qed

text \<open>
  C22: \<open>get_mapping\<close>, which reads the tables through their own mapping, agrees with the translation of the
  processor for every address below the table window.
\<close>
theorem get_mapping_walk:
  assumes "vm_ok s" "va < KERNEL_TABLES_VIRTUAL"
  shows "get_mapping va s = Some (walk (pmem s) (vcr3 s) va)"
  using assms by (simp add: get_mapping_walk_all vm_ok_def)

theorem get_mapping_walk_witness:
  "\<exists>s. init_vmm boot_vm = Some s \<and> get_mapping 0x2008 s = Some (Some 0x2008)"
proof -
  obtain s where s: "init_vmm boot_vm = Some s" "vm_ok s" "walk (pmem s) (vcr3 s) 0x2008 = Some 0x2008" using boot_low by blast
  have "(0x2008 :: addr) < KERNEL_TABLES_VIRTUAL" by (simp add: KERNEL_TABLES_VIRTUAL_def)
  then show ?thesis using get_mapping_walk [OF s(2), of "0x2008"] s(1,3) by auto
qed

text \<open>
  C23: \<open>unmap\<close> takes exactly the page of its argument out of the address space, provided its page table exists
  (otherwise the store faults).
\<close>
theorem unmap_removes:
  assumes "vm_ok s" "va < KERNEL_DIR_VIRTUAL" "pde (pmem s) (vcr3 s) (PGDIR_IDX_FROM_ADDR va) \<noteq> 0"
  shows "\<exists>s'. unmap va s = Some s' \<and> vm_ok s' \<and> (\<forall>va'. va' < KERNEL_TABLES_VIRTUAL \<longrightarrow> walk (pmem s') (vcr3 s') va' =
    (if PG_NUM_FROM_ADDR va' = PG_NUM_FROM_ADDR va then None else walk (pmem s) (vcr3 s) va'))"
  by (rule unmap_all [OF assms])

theorem unmap_removes_witness:
  "\<exists>s s'. init_vmm boot_vm = Some s \<and> unmap 0x1000 s = Some s' \<and> walk (pmem s') (vcr3 s') 0x1004 = None
     \<and> walk (pmem s') (vcr3 s') 0x2008 = Some 0x2008"
proof -
  obtain s where s: "init_vmm boot_vm = Some s" "vm_ok s" "walk (pmem s) (vcr3 s) 0x2008 = Some 0x2008"
     "pde (pmem s) (vcr3 s) (PGDIR_IDX_FROM_ADDR 0x1000) \<noteq> 0" using boot_low by blast
  have "(0x1000 :: addr) < KERNEL_DIR_VIRTUAL" by (simp add: KERNEL_DIR_VIRTUAL_def)
  from unmap_removes [OF s(2) this s(4)] obtain s' where s': "unmap 0x1000 s = Some s'"
    "\<forall>va'. va' < KERNEL_TABLES_VIRTUAL \<longrightarrow> walk (pmem s') (vcr3 s') va' =
    (if PG_NUM_FROM_ADDR va' = PG_NUM_FROM_ADDR 0x1000 then None else walk (pmem s) (vcr3 s) va')" by blast
  have "walk (pmem s') (vcr3 s') 0x1004 = None" "walk (pmem s') (vcr3 s') 0x2008 = Some 0x2008"
    using s'(2) [rule_format, of "0x1004"] s'(2) [rule_format, of "0x2008"] s(3)
    by (simp_all add: KERNEL_TABLES_VIRTUAL_def PG_NUM_FROM_ADDR_def)
  then show ?thesis using s(1) s'(1) by blast
qed

text \<open>
  C24: The stack of free pages: with room on the stack, \<open>pmm_free_page\<close> pushes the page, changes no
  translation, and the next \<open>pmm_alloc_page\<close> returns it and takes the stack back to where it was.
\<close>
theorem pmm_free_alloc:
  assumes "vm_ok s" "pmm_paging_active s" "pmm_stack_loc s < pmm_stack_max s" "pmm_stack_loc s < KERNEL_TABLES_VIRTUAL"
    "base p \<ge> pmm_location s"
    "walk (pmem s) (vcr3 s) (pmm_stack_loc s) = Some a" "fresh_page (pmem s) (vcr3 s) (base a)" "a mod 4 = 0"
  shows "\<exists>s1. pmm_free_page p s = Some s1 \<and> pmm_stack_loc s1 = pmm_stack_loc s + 4
    \<and> (\<forall>va. va < KERNEL_TABLES_VIRTUAL \<longrightarrow> walk (pmem s1) (vcr3 s1) va = walk (pmem s) (vcr3 s) va)
    \<and> pmm_alloc_page s1 = Some (base p, s1\<lparr>pmm_stack_loc := pmm_stack_loc s\<rparr>)"
  using assms by (intro free_alloc_page) (simp_all add: vm_ok_def)

text \<open>The first page freed becomes the first page of the stack itself.\<close>

lemma boot_stack:
  "\<exists>s1 s2. init_vmm boot_vm = Some s1 \<and> pmm_free_page 0x800000 s1 = Some s2 \<and> vm_ok s2 \<and> pmm_paging_active s2 \<and> pmm_stack_loc s2 = PMM_STACK_START
     \<and> pmm_stack_max s2 = PMM_STACK_START + 4096 \<and> pmm_location s2 \<le> 0x800000
     \<and> walk (pmem s2) (vcr3 s2) PMM_STACK_START = Some 0x800000 \<and> fresh_page (pmem s2) (vcr3 s2) 0x800000"
proof -
  obtain s1 where s1: "init_vmm boot_vm = Some s1" "vm_ok s1" "pmm_paging_active s1" "pmm_stack_loc s1 = PMM_STACK_START" "pmm_stack_max s1 = PMM_STACK_START"
     "\<forall>q. paligned q \<longrightarrow> pmm_location s1 \<le> q \<longrightarrow> fresh_page (pmem s1) (vcr3 s1) q" "pde (pmem s1) (vcr3 s1) 1021 \<noteq> 0"
     "unat (pmm_location s1) \<le> unat (pmm_location boot_vm) + 4096 * 108"
    using init_vmm_all [OF boot_vm_start] by (auto simp: boot_vm_def)
  have l: "pmm_location s1 \<le> 0x800000" using s1(8) by (simp add: word_le_nat_alt boot_vm_def)
  have fp: "fresh_page (pmem s1) (vcr3 s1) 0x800000" using s1(6) l by (simp add: paligned_def)
  have st: "PMM_STACK_START < KERNEL_DIR_VIRTUAL" "unat (PAGE_PRESENT OR PAGE_WRITE) < 4096" "base 0x800000 = 0x800000"
    by (simp_all add: PMM_STACK_START_def KERNEL_DIR_VIRTUAL_def PAGE_PRESENT_def PAGE_WRITE_def PAGE_ADDR_MASK_def)
  have d: "pde (pmem s1) (vcr3 s1) (PGDIR_IDX_FROM_ADDR PMM_STACK_START) \<noteq> 0" using s1(7) by (simp add: layout_index)
  define m' where "m' = wr32 (pmem s1) (base (pde (pmem s1) (vcr3 s1) 1021) + 4 * PGTAB_IDX_FROM_ADDR PMM_STACK_START)
      (base 0x800000 OR PAGE_PRESENT OR (PAGE_PRESENT OR PAGE_WRITE))"
  define s2 where "s2 = s1\<lparr>pmem := m'\<rparr>"
  note M = map_existing [OF s1(2) st(1,2) d, where pa = "0x800000", unfolded layout_index, folded m'_def, folded s2_def]
  have "load (directory (current_directory s1) + 4 * PGDIR_IDX_FROM_ADDR PMM_STACK_START) s1 = Some (pde (pmem s1) (vcr3 s1) 1021)"
    using load_dir [of s1 1021] s1(2) by (simp add: vm_ok_def layout_index)
  then have "map_page PMM_STACK_START 0x800000 (PAGE_PRESENT OR PAGE_WRITE) s1 = Some s2"
    using M(1) s1(2,7) unfolding map_page_def by (simp add: vm_ok_def Let_def)
  then have fr: "pmm_free_page 0x800000 s1 = Some (s2\<lparr>pmm_stack_max := PMM_STACK_START + 4096\<rparr>)"
    using l s1(4,5) st(3) by (simp add: pmm_free_page_def Let_def not_less [symmetric] PAGE_SIZE_def s2_def)
  have W: "tables_wf (pmem s1) (vcr3 s1)" using s1(2) tables_okD(4) by (simp add: vm_ok_def paged_def)
  have "pde (pmem s2) (vcr3 s2) k = pde (pmem s1) (vcr3 s1) k" if "unat k < 1024" for k
    using set_pte(1) [OF W, of 1021 "PGTAB_IDX_FROM_ADDR PMM_STACK_START" k] idx_bounds(2) s1(7) that by (simp add: s2_def m'_def)
  then have "fresh_page (pmem s2) (vcr3 s2) 0x800000" using fp by (simp add: fresh_page_def s2_def)
  moreover have "walk (pmem s2) (vcr3 s2) PMM_STACK_START = Some 0x800000"
    using M(3) [of PMM_STACK_START] st(3) by (simp add: PMM_STACK_START_def KERNEL_TABLES_VIRTUAL_def PAGE_FLAGS_MASK_def)
  ultimately show ?thesis using fr s1(1,3,4) l M(2)
    by (intro exI [of _ s1] exI [of _ "s2\<lparr>pmm_stack_max := PMM_STACK_START + 4096\<rparr>"]) (simp add: s2_def vm_ok_def paged_def)
qed

theorem pmm_free_alloc_witness:
  "\<exists>s1 s2 s3 s4. init_vmm boot_vm = Some s1 \<and> pmm_free_page 0x800000 s1 = Some s2 \<and> pmm_free_page 0x801000 s2 = Some s3
     \<and> pmm_alloc_page s3 = Some (0x801000, s4)"
proof -
  obtain s1 s2 where s: "init_vmm boot_vm = Some s1" "pmm_free_page 0x800000 s1 = Some s2" "vm_ok s2" "pmm_paging_active s2" "pmm_stack_loc s2 = PMM_STACK_START"
     "pmm_stack_max s2 = PMM_STACK_START + 4096" "pmm_location s2 \<le> 0x800000"
     "walk (pmem s2) (vcr3 s2) PMM_STACK_START = Some 0x800000" "fresh_page (pmem s2) (vcr3 s2) 0x800000" using boot_stack by blast
  have b: "base 0x801000 = 0x801000" "base 0x800000 = 0x800000" by (simp_all add: PAGE_ADDR_MASK_def)
  have "pmm_location s2 \<le> base 0x801000" unfolding b using s(7) by (rule order_trans) simp
  from pmm_free_alloc [OF s(3,4), of "0x801000" "0x800000"] this s b show ?thesis
    by (fastforce simp: PMM_STACK_START_def KERNEL_TABLES_VIRTUAL_def)
qed

text \<open>
  C11: \<open>init_vmm\<close>, started before paging on page-aligned free memory, comes back with paging on and a
  well-formed directory that is mapped into itself, and the first 4 MB are mapped to themselves.
\<close>
theorem init_vmm_ok:
  assumes "\<not> cr0_pg s" "\<not> pmm_paging_active s" "paligned (pmm_location s)" "unat (pmm_location s) + 4096 * 110 < 2 ^ 32"
  shows "\<exists>s'. init_vmm s = Some s' \<and> vm_ok s' \<and> pmm_paging_active s' \<and> vcr3 s' = pmm_location s
    \<and> (\<forall>va. va < LOWMEM_ID_MAP_END \<longrightarrow> walk (pmem s') (vcr3 s') va = Some va)"
  using init_vmm_all [OF assms] by blast

theorem init_vmm_ok_witness:
  "\<exists>s'. init_vmm boot_vm = Some s' \<and> vm_ok s' \<and> vcr3 s' = 0x500000 \<and> walk (pmem s') (vcr3 s') 0x3FFFFF = Some 0x3FFFFF"
proof -
  obtain s' where "init_vmm boot_vm = Some s'" "vm_ok s'" "vcr3 s' = 0x500000" "\<forall>va. va < LOWMEM_ID_MAP_END \<longrightarrow> walk (pmem s') (vcr3 s') va = Some va"
    using init_vmm_ok [OF boot_vm_start] by (auto simp: boot_vm_def)
  then show ?thesis by (simp add: LOWMEM_ID_MAP_END_def)
qed

text \<open>
  C40: \<open>copy_page_physical(dest, src)\<close>, as \<open>clone_directory\<close> calls it, copies in the wrong direction: the bytes
  at its first argument stay as they are, and the page at the second one is overwritten with them.
\<close>
theorem copy_page_physical_backwards:
  assumes "region dest 4096 \<inter> region src 4096 = {}"
  shows "(\<forall>k < 4096. pmem (copy_page_physical dest src s) (dest + of_nat k) = pmem s (dest + of_nat k))
    \<and> (\<forall>i < 1024. rd32 (pmem (copy_page_physical dest src s)) (src + of_nat (4 * i)) = rd32 (pmem s) (dest + of_nat (4 * i)))"
proof -
  note C = copy_page_fold [OF assms order_refl, of "pmem s", simplified]
  have "dest + of_nat k \<notin> region src 4096" if "k < 4096" for k using region_memI [OF that, of dest] assms by blast
  then show ?thesis using C by (simp add: copy_page_physical_def)
qed

definition two_pages :: vm where
  "two_pages = boot_vm\<lparr>pmem := (\<lambda>a. if a < 0x4000 then 1 else 2)\<rparr>"

lemma two_pages_apart: "region (0x1007 :: addr) 4096 \<inter> region 0x4000 4096 = {}"
proof (rule ccontr)
  assume "region (0x1007 :: addr) 4096 \<inter> region 0x4000 4096 \<noteq> {}"
  then obtain x where x: "x \<in> region (0x1007 :: addr) 4096" "x \<in> region 0x4000 4096" by blast
  obtain i where i: "i < 4096" "x = 0x1007 + of_nat i" using x(1) unfolding region_mem by blast
  obtain j where j: "j < 4096" "x = 0x4000 + of_nat j" using x(2) unfolding region_mem by blast
  have u: "unat ((0x1007 :: addr) + of_nat i) = 0x1007 + i" using i(1) by (subst unat_add_lem [THEN iffD1]) (simp_all add: unat_of_nat_u32)
  have v: "unat ((0x4000 :: addr) + of_nat j) = 0x4000 + j" using j(1) by (subst unat_add_lem [THEN iffD1]) (simp_all add: unat_of_nat_u32)
  have "0x1007 + i = 0x4000 + j" using u [folded i(2)] v [folded j(2)] by simp
  then show False using i(1) by simp
qed

theorem copy_page_physical_backwards_witness:
  "pmem (copy_page_physical 0x1007 0x4000 two_pages) 0x1007 = 1 \<and> rd32 (pmem (copy_page_physical 0x1007 0x4000 two_pages)) 0x4000 = 0x01010101"
proof -
  note C = copy_page_physical_backwards [OF two_pages_apart, of two_pages]
  have "pmem (copy_page_physical 0x1007 0x4000 two_pages) (0x1007 + of_nat 0) = pmem two_pages (0x1007 + of_nat 0)"
    by (rule C [THEN conjunct1, rule_format]) simp
  moreover have "rd32 (pmem (copy_page_physical 0x1007 0x4000 two_pages)) (0x4000 + of_nat (4 * 0)) = rd32 (pmem two_pages) (0x1007 + of_nat (4 * 0))"
    by (rule C [THEN conjunct2, rule_format]) simp
  ultimately show ?thesis by (simp add: two_pages_def rd32_def le32_def)
qed

end
