(* ===== verification/AddressSpaces.thy ===== *)
theory AddressSpaces
  imports Paging KHeap
begin

text \<open>
  The address spaces of processes: \<open>clone_directory\<close> and \<open>destroy_directory\<close> of \<open>kernel/vmm/vmm.c\<close>, which work
  on directories mounted into the current one and take the structure of a directory from the kernel heap.
  The comparison that \<open>diff_directories\<close> prints is not modelled.
\<close>

definition clone_page :: "addr \<Rightarrow> addr \<Rightarrow> u32 \<Rightarrow> vm \<Rightarrow> vm option" where
  "clone_page src_pages dest_pages j s = do {
     e \<leftarrow> load (src_pages + 4 * j) s;
     if e = 0 then Some s
     else do {
       (p, s) \<leftarrow> pmm_alloc_page s;
       s \<leftarrow> store (dest_pages + 4 * j) (p OR PAGE_PRESENT OR PAGE_WRITE OR PAGE_USER) s;
       d \<leftarrow> load (dest_pages + 4 * j) s;
       e \<leftarrow> load (src_pages + 4 * j) s;
       let s = copy_page_physical d (PAGE_ADDR_MASK AND e) s;
       d \<leftarrow> load (dest_pages + 4 * j) s;
       e \<leftarrow> load (src_pages + 4 * j) s;
       store (dest_pages + 4 * j) (d OR (PAGE_FLAGS_MASK AND e)) s
     }
   }"

definition clone_entry :: "page_directory_mount \<Rightarrow> page_directory_mount \<Rightarrow> u32 \<Rightarrow> vm \<Rightarrow> vm option" where
  "clone_entry src dest i s = do {
     e \<leftarrow> load (m_directory src + 4 * i) s;
     if e = 0 then Some s
     else do {
       k \<leftarrow> load (directory (kernel_directory s) + 4 * i) s;
       if e = k then store (m_directory dest + 4 * i) e s
       else do {
         (p, s) \<leftarrow> pmm_alloc_page s;
         s \<leftarrow> store (m_directory dest + 4 * i) (p OR PAGE_PRESENT OR PAGE_WRITE OR PAGE_USER) s;
         s \<leftarrow> memzero (m_pages dest + 4 * (i * 1024)) 4096 s;
         foldM (\<lambda>j. clone_page (m_pages src) (m_pages dest) (1024 * i + of_nat j)) [0..<1024] s
       }
     }
   }"

text \<open>
  A \<open>page_directory_t *\<close> is the address of a structure on the kernel heap together with what the structure
  holds.  The fields are written after the copy and not read before it; a NULL result of \<open>kmalloc\<close> is not checked.
\<close>

definition clone_directory ::
  "page_directory \<Rightarrow> (sched \<times> kheap) \<times> vm \<Rightarrow> ((addr \<times> page_directory) \<times> (sched \<times> kheap) \<times> vm) option" where
  "clone_directory src_dir = (\<lambda>(h, s). do {
     (ptr, h) \<leftarrow> kmalloc 12 h;
     (phys, s) \<leftarrow> pmm_alloc_page s;
     let dest_dir = \<lparr>physical = phys, directory = USER_DIR_VIRTUAL, pages = USER_TABLES_VIRTUAL\<rparr>;
     (src, s) \<leftarrow> mount_directory src_dir s;
     (dest, s) \<leftarrow> mount_directory dest_dir s;
     s \<leftarrow> memzero (m_directory dest) 4096 s;
     s \<leftarrow> foldM (\<lambda>i. clone_entry src dest (of_nat i)) [0..<1024] s;
     (p, s) \<leftarrow> pmm_alloc_page s;
     s \<leftarrow> store (m_directory dest + 4 * PGDIR_IDX_FROM_ADDR USER_DIR_VIRTUAL) (p OR PAGE_PRESENT OR PAGE_WRITE) s;
     s \<leftarrow> store (m_pages dest + 4 * PG_NUM_FROM_ADDR USER_DIR_VIRTUAL) (phys OR PAGE_PRESENT OR PAGE_WRITE) s;
     s \<leftarrow> store (m_directory dest + 4 * PGDIR_IDX_FROM_ADDR USER_TABLES_VIRTUAL) (phys OR PAGE_PRESENT OR PAGE_WRITE) s;
     s \<leftarrow> umount_directory src s;
     s \<leftarrow> umount_directory dest s;
     Some ((ptr, dest_dir), h, s)
   })"

definition destroy_page :: "addr \<Rightarrow> u32 \<Rightarrow> u32 \<Rightarrow> vm \<Rightarrow> vm option" where
  "destroy_page mp_pages page_num j s = do {
     e \<leftarrow> load (mp_pages + 4 * j) s;
     if e = 0 \<or> j = page_num then Some s else pmm_free_page (e AND PAGE_ADDR_MASK) s
   }"

definition destroy_entry :: "page_directory_mount \<Rightarrow> u32 \<Rightarrow> u32 \<Rightarrow> u32 \<Rightarrow> vm \<Rightarrow> vm option" where
  "destroy_entry mp dir_entry page_num i s = do {
     e \<leftarrow> load (m_directory mp + 4 * i) s;
     if e = 0 then Some s
     else do {
       k \<leftarrow> load (directory (kernel_directory s) + 4 * i) s;
       if e = k \<or> i = dir_entry then Some s
       else do {
         s \<leftarrow> foldM (\<lambda>j. destroy_page (m_pages mp) page_num (1024 * i + of_nat j)) [0..<1024] s;
         e \<leftarrow> load (m_directory mp + 4 * i) s;
         pmm_free_page (e AND PAGE_ADDR_MASK) s
       }
     }
   }"

definition destroy_directory :: "addr \<times> page_directory \<Rightarrow> (sched \<times> kheap) \<times> vm \<Rightarrow> ((sched \<times> kheap) \<times> vm) option" where
  "destroy_directory = (\<lambda>(ptr, dir) ((sc, h), s). do {
     (mp, s) \<leftarrow> mount_directory dir s;
     s \<leftarrow> foldM (\<lambda>i. destroy_entry mp (PGDIR_IDX_FROM_ADDR (pages dir)) (PG_NUM_FROM_ADDR (directory dir)) (of_nat i))
            [0..<unat (PGDIR_IDX_FROM_ADDR KERNEL_ADDRESS_SPACE)] s;
     s \<leftarrow> pmm_free_page (physical dir) s;
     s \<leftarrow> umount_directory mp s;
     h \<leftarrow> kfree ptr h;
     Some ((sc, h), s)
   })"

end
