(* ===== verification/FatDefs.thy ===== *)
theory FatDefs
  imports Bytes
begin

text \<open>
  The structures, constants and access macros that the FAT library shares: \<open>include/fat_defs.h\<close>,
  \<open>include/fat_opts.h\<close>, \<open>include/fat_access.h\<close> and \<open>include/fat_misc.h\<close>.

  The medium stays abstract. A volume carries the state \<open>media\<close> of its disk, of any type
  \<open>'d\<close>, and the two function pointers of \<open>struct disk_if\<close> act on it; what the library relies
  on about them is the hypothesis \<open>media_ok\<close>. A disk function gets the previous content of the
  buffer it fills, so that a failing read may leave anything there.

  A call that faults (through a null pointer, division by zero) or does not end is \<^const>\<open>None\<close>.
\<close>

definition FAT_SECTOR_SIZE :: u32 where "FAT_SECTOR_SIZE = 512"
definition FAT_BUFFER_SECTORS :: u32 where "FAT_BUFFER_SECTORS = 1"
definition FAT_BUFFERS :: nat where "FAT_BUFFERS = 1"
definition FAT32_LAST_CLUSTER :: u32 where "FAT32_LAST_CLUSTER = 0xFFFFFFFF"
definition FAT32_INVALID_CLUSTER :: u32 where "FAT32_INVALID_CLUSTER = 0xFFFFFFFF"
definition FAT_DIR_ENTRY_SIZE :: nat where "FAT_DIR_ENTRY_SIZE = 32"
definition FAT_DIR_ENTRIES_PER_SECTOR :: nat where "FAT_DIR_ENTRIES_PER_SECTOR = 16"

type_synonym bytes = "u8 list"

record 'd disk_if =
  read_media :: "('d \<Rightarrow> u32 \<Rightarrow> bytes \<Rightarrow> u32 \<Rightarrow> int \<times> bytes \<times> 'd) option"
  write_media :: "('d \<Rightarrow> u32 \<Rightarrow> bytes \<Rightarrow> u32 \<Rightarrow> int \<times> 'd) option"

text \<open>
  \<open>bptr\<close> is the offset of the field \<open>ptr\<close> inside the buffer's own sector; every use of it
  follows a read that sets it.
\<close>

record fat_buffer =
  bsector :: bytes
  baddress :: u32
  dirty :: bool
  bptr :: nat

datatype tFatType = FAT_TYPE_16 | FAT_TYPE_32

text \<open>\<open>fat_buffers\<close> is the chain of FAT buffers from \<open>fat_buffer_head\<close> on.\<close>

record 'd fatfs =
  sectors_per_cluster :: u8
  cluster_begin_lba :: u32
  rootdir_first_cluster :: u32
  rootdir_first_sector :: u32
  rootdir_sectors :: u32
  fat_begin_lba :: u32
  fs_info_sector :: u16
  lba_begin :: u32
  fat_sectors :: u32
  next_free_cluster :: u32
  root_entry_count :: u16
  reserved_sectors :: u16
  num_of_fats :: u8
  fat_type :: tFatType
  disk_io :: "'d disk_if"
  media :: 'd
  currentsector :: fat_buffer
  fat_buffers :: "fat_buffer list"

definition GET_32BIT_WORD :: "bytes \<Rightarrow> nat \<Rightarrow> u32" where
  "GET_32BIT_WORD buffer location =
     push_bit 24 (ucast (buffer ! (location + 3))) + push_bit 16 (ucast (buffer ! (location + 2)))
     + push_bit 8 (ucast (buffer ! (location + 1))) + ucast (buffer ! location)"

definition GET_16BIT_WORD :: "bytes \<Rightarrow> nat \<Rightarrow> u32" where
  "GET_16BIT_WORD buffer location =
     push_bit 8 (ucast (buffer ! (location + 1))) + ucast (buffer ! location)"

definition SET_32BIT_WORD :: "bytes \<Rightarrow> nat \<Rightarrow> u32 \<Rightarrow> bytes" where
  "SET_32BIT_WORD buffer location v =
     buffer[location := byte 0 v, location + 1 := byte 1 v, location + 2 := byte 2 v, location + 3 := byte 3 v]"

definition SET_16BIT_WORD :: "bytes \<Rightarrow> nat \<Rightarrow> u16 \<Rightarrow> bytes" where
  "SET_16BIT_WORD buffer location v =
     buffer[location := ucast v, location + 1 := ucast (drop_bit 8 v)]"

subsection \<open>What the library relies on about the medium\<close>

text \<open>
  \<open>content d l\<close> is the sector \<open>l\<close> of the disk \<open>d\<close>. A successful transfer moves whole sectors; a
  failed read keeps the disk, a failed write keeps every sector it was not aimed at.
\<close>

definition media_ok :: "'d disk_if \<Rightarrow> ('d \<Rightarrow> u32 \<Rightarrow> bytes) \<Rightarrow> bool" where
  "media_ok io content \<longleftrightarrow>
     (\<forall>d l. length (content d l) = 512) \<and>
     (\<exists>rd. read_media io = Some rd \<and>
       (\<forall>d l buf n r buf' d'. rd d l buf n = (r, buf', d') \<longrightarrow>
          content d' = content d \<and> length buf' = length buf \<and>
          (r \<noteq> 0 \<and> length buf = 512 * unat n \<longrightarrow>
             buf' = concat (map (\<lambda>i. content d (l + of_nat i)) [0..<unat n])))) \<and>
     (\<exists>wr. write_media io = Some wr \<and>
       (\<forall>d l buf n r d'. wr d l buf n = (r, d') \<longrightarrow>
          (\<forall>k. k \<notin> (\<lambda>i. l + of_nat i) ` {..<unat n} \<longrightarrow> content d' k = content d k) \<and>
          (r \<noteq> 0 \<and> length buf = 512 * unat n \<longrightarrow>
             (\<forall>i < unat n. content d' (l + of_nat i) = take 512 (drop (512 * i) buf)))))"

text \<open>A medium whose transfers never fail.\<close>

definition media_reliable :: "'d disk_if \<Rightarrow> bool" where
  "media_reliable io \<longleftrightarrow>
     (\<forall>rd d l buf n. read_media io = Some rd \<longrightarrow> fst (rd d l buf n) \<noteq> 0) \<and>
     (\<forall>wr d l buf n. write_media io = Some wr \<longrightarrow> fst (wr d l buf n) \<noteq> 0)"

lemma media_ptrs: "media_ok io content \<Longrightarrow> (\<exists>rd. read_media io = Some rd) \<and> (\<exists>wr. write_media io = Some wr)"
  by (auto simp: media_ok_def)

lemma media_content: "media_ok io content \<Longrightarrow> length (content d l) = 512"
  by (simp add: media_ok_def)

lemma media_rd_keep:
  "media_ok io content \<Longrightarrow> read_media io = Some rd \<Longrightarrow> rd d l buf n = (r, buf', d') \<Longrightarrow>
     content d' = content d \<and> length buf' = length buf"
  by (auto simp: media_ok_def)

lemma media_rd_get:
  assumes "media_ok io content" "read_media io = Some rd" "rd d l buf 1 = (r, buf', d')" "r \<noteq> 0" "length buf = 512"
  shows "buf' = content d l"
proof -
  have "r \<noteq> 0 \<and> length buf = 512 * unat (1 :: u32) \<longrightarrow> buf' = concat (map (\<lambda>i. content d (l + of_nat i)) [0..<unat (1 :: u32)])"
    using assms(1-3) unfolding media_ok_def by (metis option.inject)
  then show ?thesis using assms by simp
qed

lemma media_wr_frame:
  assumes "media_ok io content" "write_media io = Some wr" "wr d l buf n = (r, d')" "k \<notin> (\<lambda>i. l + of_nat i) ` {..<unat n}"
  shows "content d' k = content d k"
  using assms unfolding media_ok_def by (metis option.inject)

lemma media_wr_keep:
  "media_ok io content \<Longrightarrow> write_media io = Some wr \<Longrightarrow> wr d l buf 1 = (r, d') \<Longrightarrow> k \<noteq> l \<Longrightarrow> content d' k = content d k"
  by (erule (2) media_wr_frame) auto

lemma media_wr_put:
  assumes "media_ok io content" "write_media io = Some wr" "wr d l buf 1 = (r, d')" "r \<noteq> 0" "length buf = 512"
  shows "content d' l = buf"
proof -
  have "r \<noteq> 0 \<and> length buf = 512 * unat (1 :: u32) \<longrightarrow>
      (\<forall>i < unat (1 :: u32). content d' (l + of_nat i) = take 512 (drop (512 * i) buf))"
    using assms(1-3) unfolding media_ok_def by (metis option.inject)
  then show ?thesis using assms(4,5) by simp
qed

lemma media_rd_status: "media_reliable io \<Longrightarrow> read_media io = Some rd \<Longrightarrow> rd d l buf n = (r, buf', d') \<Longrightarrow> r \<noteq> 0"
  unfolding media_reliable_def by (metis fst_conv)

lemma media_wr_status: "media_reliable io \<Longrightarrow> write_media io = Some wr \<Longrightarrow> wr d l buf n = (r, d') \<Longrightarrow> r \<noteq> 0"
  unfolding media_reliable_def by (metis fst_conv)

subsection \<open>The access macros\<close>

lemma push_bit_u8_disjoint:
  "(a AND b = 0) \<Longrightarrow> a + b = (a OR b :: 'a::len word)"
  by (rule disjunctive_add_eq_or)

lemma GET_32BIT_WORD_le32:
  "GET_32BIT_WORD b l = le32 (b ! l) (b ! (l + 1)) (b ! (l + 2)) (b ! (l + 3))"
proof -
  have b8: "bit (x :: u8) k \<Longrightarrow> k < 8" for x k using bit_imp_le_length [of x k] by simp
  have 1: "push_bit 24 (ucast x) + push_bit 16 (ucast y) = (push_bit 24 (ucast x) OR push_bit 16 (ucast y) :: u32)" for x y :: u8
    by (rule push_bit_u8_disjoint, rule bit_word_eqI) (auto simp: bit_simps dest!: b8)
  have 2: "(push_bit 24 (ucast x) OR push_bit 16 (ucast y)) + push_bit 8 (ucast z)
      = (push_bit 24 (ucast x) OR push_bit 16 (ucast y) OR push_bit 8 (ucast z) :: u32)" for x y z :: u8
    unfolding or.assoc [symmetric]
    by (rule push_bit_u8_disjoint, rule bit_word_eqI) (auto simp: bit_simps dest!: b8)
  have 3: "(push_bit 24 (ucast x) OR push_bit 16 (ucast y) OR push_bit 8 (ucast z)) + ucast w
      = (push_bit 24 (ucast x) OR push_bit 16 (ucast y) OR push_bit 8 (ucast z) OR ucast w :: u32)" for x y z w :: u8
    unfolding or.assoc [symmetric]
    by (rule push_bit_u8_disjoint, rule bit_word_eqI) (auto simp: bit_simps dest!: b8)
  show ?thesis
    unfolding GET_32BIT_WORD_def le32_def 1 2 3 by (simp add: or.commute or.left_commute or.assoc)
qed

lemma GET_16BIT_WORD_le16: "GET_16BIT_WORD b l = ucast (le16 (b ! l) (b ! (l + 1)))"
proof -
  have b8: "bit (x :: u8) k \<Longrightarrow> k < 8" for x k using bit_imp_le_length [of x k] by simp
  have "push_bit 8 (ucast x) + ucast y = (push_bit 8 (ucast x) OR ucast y :: u32)" for x y :: u8
    by (rule push_bit_u8_disjoint, rule bit_word_eqI) (auto simp: bit_simps dest!: b8)
  moreover have "push_bit 8 (ucast x) OR ucast y = (ucast (le16 y x) :: u32)" for x y :: u8
    by (rule bit_word_eqI) (auto simp: bit_simps bit_le16 dest: b8)
  ultimately show ?thesis by (simp add: GET_16BIT_WORD_def)
qed

lemma length_SET_32 [simp]: "length (SET_32BIT_WORD b l v) = length b"
  by (simp add: SET_32BIT_WORD_def)

lemma length_SET_16 [simp]: "length (SET_16BIT_WORD b l v) = length b"
  by (simp add: SET_16BIT_WORD_def)

lemma GET_SET_32: "l + 4 \<le> length b \<Longrightarrow> GET_32BIT_WORD (SET_32BIT_WORD b l v) l = v"
  using le32_bytes [of v] by (simp add: GET_32BIT_WORD_le32 SET_32BIT_WORD_def nth_list_update)

lemma GET_SET_32_other:
  "l + 4 \<le> k \<or> k + 4 \<le> l \<Longrightarrow> GET_32BIT_WORD (SET_32BIT_WORD b l v) k = GET_32BIT_WORD b k"
  by (auto simp: GET_32BIT_WORD_le32 SET_32BIT_WORD_def nth_list_update)

lemma le16_bytes: "le16 (ucast v) (ucast (drop_bit 8 v)) = v"
  by (rule bit_word_eqI) (auto simp: bit_le16 bit_simps)

lemma GET_SET_16: "l + 2 \<le> length b \<Longrightarrow> GET_16BIT_WORD (SET_16BIT_WORD b l v) l = ucast v"
  using le16_bytes [of v] by (simp add: GET_16BIT_WORD_le16 SET_16BIT_WORD_def nth_list_update)

lemma GET_SET_16_other:
  "l + 2 \<le> k \<or> k + 2 \<le> l \<Longrightarrow> GET_16BIT_WORD (SET_16BIT_WORD b l v) k = GET_16BIT_WORD b k"
  by (auto simp: GET_16BIT_WORD_le16 SET_16BIT_WORD_def nth_list_update)

end
