(* ===== verification/FatTable.thy ===== *)
theory FatTable
  imports FatDefs
begin

text \<open>
  The file allocation table: \<open>drivers/fs/fat32/fat_table.c\<close>. FAT sectors are read and written
  through a chain of write-back buffers; the operations on the cluster chains work on the
  buffered sectors.
\<close>

definition upd_buffer :: "nat \<Rightarrow> (fat_buffer \<Rightarrow> fat_buffer) \<Rightarrow> 'd fatfs \<Rightarrow> 'd fatfs" where
  "upd_buffer i f fs = fs\<lparr>fat_buffers := (fat_buffers fs)[i := f (fat_buffers fs ! i)]\<rparr>"

definition FAT32_GET_32BIT_WORD :: "fat_buffer \<Rightarrow> u16 \<Rightarrow> u32" where
  "FAT32_GET_32BIT_WORD pbuf location = GET_32BIT_WORD (drop (bptr pbuf) (bsector pbuf)) (unat location)"

definition FAT16_GET_16BIT_WORD :: "fat_buffer \<Rightarrow> u16 \<Rightarrow> u32" where
  "FAT16_GET_16BIT_WORD pbuf location = GET_16BIT_WORD (drop (bptr pbuf) (bsector pbuf)) (unat location)"

definition FAT32_SET_32BIT_WORD :: "u16 \<Rightarrow> u32 \<Rightarrow> fat_buffer \<Rightarrow> fat_buffer" where
  "FAT32_SET_32BIT_WORD location v pbuf =
     pbuf\<lparr>bsector := SET_32BIT_WORD (bsector pbuf) (bptr pbuf + unat location) v, dirty := True\<rparr>"

definition FAT16_SET_16BIT_WORD :: "u16 \<Rightarrow> u16 \<Rightarrow> fat_buffer \<Rightarrow> fat_buffer" where
  "FAT16_SET_16BIT_WORD location v pbuf =
     pbuf\<lparr>bsector := SET_16BIT_WORD (bsector pbuf) (bptr pbuf + unat location) v, dirty := True\<rparr>"

definition fatfs_fat_init :: "'d fatfs \<Rightarrow> 'd fatfs" where
  "fatfs_fat_init fs = fs\<lparr>fat_buffers := replicate FAT_BUFFERS
     \<lparr>bsector = replicate (unat (FAT_SECTOR_SIZE * FAT_BUFFER_SECTORS)) 0,
      baddress = FAT32_INVALID_CLUSTER, dirty = False, bptr = 0\<rparr>\<rparr>"

definition fatfs_fat_writeback :: "'d fatfs \<Rightarrow> nat option \<Rightarrow> int \<times> 'd fatfs" where
  "fatfs_fat_writeback fs pcur = (case pcur of
     None \<Rightarrow> (0, fs)
   | Some i \<Rightarrow>
       (let b = fat_buffers fs ! i in
        if dirty b then
          (case write_media (disk_io fs) of
             None \<Rightarrow> (1, upd_buffer i (\<lambda>b. b\<lparr>dirty := False\<rparr>) fs)
           | Some wr \<Rightarrow>
               (let offset = baddress b - fat_begin_lba fs;
                    sectors = (if offset + FAT_BUFFER_SECTORS \<le> fat_sectors fs then FAT_BUFFER_SECTORS
                               else fat_sectors fs - offset);
                    (r, d) = wr (media fs) (baddress b) (bsector b) sectors;
                    fs = fs\<lparr>media := d\<rparr>
                in if r = 0 then (0, fs) else (1, upd_buffer i (\<lambda>b. b\<lparr>dirty := False\<rparr>) fs)))
        else (1, fs)))"

text \<open>The walk of \<open>fatfs_fat_read_sector\<close> along the chain.\<close>

fun find_buffer :: "u32 \<Rightarrow> fat_buffer list \<Rightarrow> nat option" where
  "find_buffer sector [] = None"
| "find_buffer sector (pcur # rest) =
     (if baddress pcur \<le> sector \<and> sector < baddress pcur + FAT_BUFFER_SECTORS then Some 0
      else map_option Suc (find_buffer sector rest))"

definition fatfs_fat_read_sector :: "'d fatfs \<Rightarrow> u32 \<Rightarrow> (nat option \<times> 'd fatfs) option" where
  "fatfs_fat_read_sector fs sector = (case find_buffer sector (fat_buffers fs) of
     Some i \<Rightarrow>
       Some (Some i, upd_buffer i (\<lambda>b. b\<lparr>bptr := unat ((sector - baddress b) * FAT_SECTOR_SIZE)\<rparr>) fs)
   | None \<Rightarrow>
       (let fs = fs\<lparr>fat_buffers := last (fat_buffers fs) # butlast (fat_buffers fs)\<rparr>;
            (ok, fs) = (if dirty (fat_buffers fs ! 0) then fatfs_fat_writeback fs (Some 0) else (1, fs))
        in if ok = 0 then Some (None, fs)
           else do {
             rd \<leftarrow> read_media (disk_io fs);
             let (r, buf, d) = rd (media fs) sector (bsector (fat_buffers fs ! 0)) FAT_BUFFER_SECTORS;
             let fs = upd_buffer 0 (\<lambda>b. b\<lparr>bsector := buf, baddress := sector\<rparr>) (fs\<lparr>media := d\<rparr>);
             Some (if r = 0
                   then (None, upd_buffer 0 (\<lambda>b. b\<lparr>baddress := FAT32_INVALID_CLUSTER\<rparr>) fs)
                   else (Some 0, upd_buffer 0 (\<lambda>b. b\<lparr>bptr := 0\<rparr>) fs))
           }))"

fun purge_loop :: "'d fatfs \<Rightarrow> nat list \<Rightarrow> int \<times> 'd fatfs" where
  "purge_loop fs [] = (1, fs)"
| "purge_loop fs (i # is) =
     (if dirty (fat_buffers fs ! i)
      then (let (ok, fs) = fatfs_fat_writeback fs (Some i) in
            if ok = 0 then (0, fs) else purge_loop fs is)
      else purge_loop fs is)"

definition fatfs_fat_purge :: "'d fatfs \<Rightarrow> int \<times> 'd fatfs" where
  "fatfs_fat_purge fs = purge_loop fs [0..<length (fat_buffers fs)]"

text \<open>Where the entry of a cluster stands: the FAT sector and the byte in it.\<close>

definition fat_sector_offset :: "tFatType \<Rightarrow> u32 \<Rightarrow> u32" where
  "fat_sector_offset t cluster = (case t of FAT_TYPE_16 \<Rightarrow> cluster div 256 | FAT_TYPE_32 \<Rightarrow> cluster div 128)"

definition fat_position :: "tFatType \<Rightarrow> u32 \<Rightarrow> u16" where
  "fat_position t cluster = (case t of
     FAT_TYPE_16 \<Rightarrow> ucast ((cluster - fat_sector_offset t cluster * 256) * 2)
   | FAT_TYPE_32 \<Rightarrow> ucast ((cluster - fat_sector_offset t cluster * 128) * 4))"

definition fatfs_find_next_cluster :: "'d fatfs \<Rightarrow> u32 \<Rightarrow> (u32 \<times> 'd fatfs) option" where
  "fatfs_find_next_cluster fs current_cluster = do {
     let current_cluster = (if current_cluster = 0 then 2 else current_cluster);
     let offset = fat_sector_offset (fat_type fs) current_cluster;
     (pbuf, fs) \<leftarrow> fatfs_fat_read_sector fs (fat_begin_lba fs + offset);
     case pbuf of
       None \<Rightarrow> Some (FAT32_LAST_CLUSTER, fs)
     | Some i \<Rightarrow>
         (let position = fat_position (fat_type fs) current_cluster; b = fat_buffers fs ! i in
          case fat_type fs of
            FAT_TYPE_16 \<Rightarrow>
              (let nextcluster = FAT16_GET_16BIT_WORD b position in
               Some (if 0xFFF8 \<le> nextcluster \<and> nextcluster \<le> 0xFFFF then FAT32_LAST_CLUSTER
                     else nextcluster, fs))
          | FAT_TYPE_32 \<Rightarrow>
              (let nextcluster = FAT32_GET_32BIT_WORD b position AND 0x0FFFFFFF in
               Some (if 0x0FFFFFF8 \<le> nextcluster \<and> nextcluster \<le> 0x0FFFFFFF then FAT32_LAST_CLUSTER
                     else nextcluster, fs)))
   }"

definition fatfs_set_fs_info_next_free_cluster :: "'d fatfs \<Rightarrow> u32 \<Rightarrow> 'd fatfs option" where
  "fatfs_set_fs_info_next_free_cluster fs newValue = (case fat_type fs of
     FAT_TYPE_16 \<Rightarrow> Some fs
   | FAT_TYPE_32 \<Rightarrow> do {
       (pbuf, fs) \<leftarrow> fatfs_fat_read_sector fs (lba_begin fs + ucast (fs_info_sector fs));
       case pbuf of
         None \<Rightarrow> Some fs
       | Some i \<Rightarrow>
           (let fs = (upd_buffer i (FAT32_SET_32BIT_WORD 492 newValue) fs)\<lparr>next_free_cluster := newValue\<rparr>;
                fs = (case write_media (disk_io fs) of
                        None \<Rightarrow> fs
                      | Some wr \<Rightarrow>
                          fs\<lparr>media := snd (wr (media fs) (baddress (fat_buffers fs ! i)) (bsector (fat_buffers fs ! i)) 1)\<rparr>)
            in Some (upd_buffer i (\<lambda>b. b\<lparr>baddress := FAT32_INVALID_CLUSTER, dirty := False\<rparr>) fs))
     })"

text \<open>The free cluster found is the \<^const>\<open>Some\<close> of the first component; \<^const>\<open>None\<close> there is the result 0.\<close>

partial_function (option) fatfs_find_blank_cluster :: "'d fatfs \<Rightarrow> u32 \<Rightarrow> (u32 option \<times> 'd fatfs) option" where
  "fatfs_find_blank_cluster fs current_cluster =
     (let offset = fat_sector_offset (fat_type fs) current_cluster in
      if offset < fat_sectors fs then
        do {
          (pbuf, fs) \<leftarrow> fatfs_fat_read_sector fs (fat_begin_lba fs + offset);
          case pbuf of
            None \<Rightarrow> Some (None, fs)
          | Some i \<Rightarrow>
              (let position = fat_position (fat_type fs) current_cluster;
                   nextcluster = (case fat_type fs of
                     FAT_TYPE_16 \<Rightarrow> FAT16_GET_16BIT_WORD (fat_buffers fs ! i) position
                   | FAT_TYPE_32 \<Rightarrow> FAT32_GET_32BIT_WORD (fat_buffers fs ! i) position AND 0x0FFFFFFF)
               in if nextcluster \<noteq> 0 then fatfs_find_blank_cluster fs (current_cluster + 1)
                  else Some (Some current_cluster, fs))
        }
      else Some (None, fs))"

definition fatfs_fat_set_cluster :: "'d fatfs \<Rightarrow> u32 \<Rightarrow> u32 \<Rightarrow> (int \<times> 'd fatfs) option" where
  "fatfs_fat_set_cluster fs cluster next_cluster = do {
     let offset = fat_sector_offset (fat_type fs) cluster;
     (pbuf, fs) \<leftarrow> fatfs_fat_read_sector fs (fat_begin_lba fs + offset);
     case pbuf of
       None \<Rightarrow> Some (0, fs)
     | Some i \<Rightarrow>
         (let position = fat_position (fat_type fs) cluster in
          case fat_type fs of
            FAT_TYPE_16 \<Rightarrow> Some (1, upd_buffer i (FAT16_SET_16BIT_WORD position (ucast next_cluster)) fs)
          | FAT_TYPE_32 \<Rightarrow> Some (1, upd_buffer i (FAT32_SET_32BIT_WORD position next_cluster) fs))
   }"

partial_function (option) fatfs_free_cluster_chain :: "'d fatfs \<Rightarrow> u32 \<Rightarrow> (int \<times> 'd fatfs) option" where
  "fatfs_free_cluster_chain fs next_cluster =
     (if next_cluster \<noteq> FAT32_LAST_CLUSTER \<and> next_cluster \<noteq> 0 then
        do {
          (next, fs) \<leftarrow> fatfs_find_next_cluster fs next_cluster;
          (_, fs) \<leftarrow> fatfs_fat_set_cluster fs next_cluster 0;
          fatfs_free_cluster_chain fs next
        }
      else Some (1, fs))"

text \<open>The loop of \<open>fatfs_fat_add_cluster_to_chain\<close>: the last cluster of the chain, or 0 for the early return.\<close>

partial_function (option) find_tail :: "'d fatfs \<Rightarrow> u32 \<Rightarrow> u32 \<Rightarrow> (u32 option \<times> 'd fatfs) option" where
  "find_tail fs last_cluster next_cluster =
     (if next_cluster \<noteq> FAT32_LAST_CLUSTER then
        do {
          (next, fs) \<leftarrow> fatfs_find_next_cluster fs next_cluster;
          if next = 0 then Some (None, fs) else find_tail fs next_cluster next
        }
      else Some (Some last_cluster, fs))"

definition fatfs_fat_add_cluster_to_chain :: "'d fatfs \<Rightarrow> u32 \<Rightarrow> u32 \<Rightarrow> (int \<times> 'd fatfs) option" where
  "fatfs_fat_add_cluster_to_chain fs start_cluster newEntry =
     (if start_cluster = FAT32_LAST_CLUSTER then Some (0, fs)
      else do {
        (tail, fs) \<leftarrow> find_tail fs FAT32_LAST_CLUSTER start_cluster;
        case tail of
          None \<Rightarrow> Some (0, fs)
        | Some last_cluster \<Rightarrow> do {
            (_, fs) \<leftarrow> fatfs_fat_set_cluster fs last_cluster newEntry;
            (_, fs) \<leftarrow> fatfs_fat_set_cluster fs newEntry FAT32_LAST_CLUSTER;
            Some (1, fs)
          }
      })"

definition count_sector :: "tFatType \<Rightarrow> fat_buffer \<Rightarrow> nat" where
  "count_sector t pbuf = (case t of
     FAT_TYPE_16 \<Rightarrow> length (filter (\<lambda>j. FAT16_GET_16BIT_WORD pbuf (of_nat (2 * j)) = 0) [0..<256])
   | FAT_TYPE_32 \<Rightarrow> length (filter (\<lambda>j. FAT32_GET_32BIT_WORD pbuf (of_nat (4 * j)) = 0) [0..<128]))"

fun count_free_loop :: "'d fatfs \<Rightarrow> nat list \<Rightarrow> u32 \<Rightarrow> (u32 \<times> 'd fatfs) option" where
  "count_free_loop fs [] count = Some (count, fs)"
| "count_free_loop fs (i # is) count = do {
     (pbuf, fs) \<leftarrow> fatfs_fat_read_sector fs (fat_begin_lba fs + of_nat i);
     case pbuf of
       None \<Rightarrow> Some (count, fs)
     | Some k \<Rightarrow> count_free_loop fs is (count + of_nat (count_sector (fat_type fs) (fat_buffers fs ! k)))
   }"

definition fatfs_count_free_clusters :: "'d fatfs \<Rightarrow> (u32 \<times> 'd fatfs) option" where
  "fatfs_count_free_clusters fs = count_free_loop fs [0..<unat (fat_sectors fs)] 0"

end
