(* ===== verification/FatBuffers.thy ===== *)
theory FatBuffers
  imports FatTable
begin

text \<open>
  The FAT buffers are transparent. \<open>fat_view\<close> is the FAT as the library sees it: the buffered
  sector where there is one, the disk elsewhere. Under the invariant \<open>fat_inv\<close> (a clean buffer
  holds what the disk holds, a dirty one belongs to the FAT, no sector is buffered twice) no
  read, eviction or write-back changes the view, whether its transfers succeed or fail.
\<close>

definition fat_view :: "('d \<Rightarrow> u32 \<Rightarrow> bytes) \<Rightarrow> 'd fatfs \<Rightarrow> u32 \<Rightarrow> bytes" where
  "fat_view content fs l = (case find_buffer l (fat_buffers fs) of
     Some i \<Rightarrow> bsector (fat_buffers fs ! i) | None \<Rightarrow> content (media fs) l)"

definition in_fat :: "'d fatfs \<Rightarrow> u32 \<Rightarrow> bool" where
  "in_fat fs l \<longleftrightarrow> unat (fat_begin_lba fs) \<le> unat l \<and> unat l < unat (fat_begin_lba fs) + unat (fat_sectors fs)"

definition buffer_ok :: "('d \<Rightarrow> u32 \<Rightarrow> bytes) \<Rightarrow> 'd fatfs \<Rightarrow> fat_buffer \<Rightarrow> bool" where
  "buffer_ok content fs b \<longleftrightarrow> length (bsector b) = 512 \<and> (dirty b \<longrightarrow> in_fat fs (baddress b)) \<and>
     (\<not> dirty b \<and> baddress b \<noteq> FAT32_INVALID_CLUSTER \<longrightarrow> bsector b = content (media fs) (baddress b))"

definition separate :: "fat_buffer list \<Rightarrow> bool" where
  "separate bs \<longleftrightarrow> (\<forall>i < length bs. \<forall>j < length bs. i \<noteq> j \<longrightarrow>
     baddress (bs ! i) \<noteq> baddress (bs ! j) \<or> baddress (bs ! i) = FAT32_INVALID_CLUSTER)"

definition fat_inv :: "('d \<Rightarrow> u32 \<Rightarrow> bytes) \<Rightarrow> 'd fatfs \<Rightarrow> bool" where
  "fat_inv content fs \<longleftrightarrow> media_ok (disk_io fs) content \<and> fat_buffers fs \<noteq> [] \<and>
     (\<forall>i < length (fat_buffers fs). buffer_ok content fs (fat_buffers fs ! i)) \<and>
     separate (fat_buffers fs) \<and>
     unat (fat_begin_lba fs) + unat (fat_sectors fs) < 2 ^ 32"

text \<open>Everything of the volume but its medium and its FAT buffers is as before.\<close>

definition same_volume :: "'d fatfs \<Rightarrow> 'd fatfs \<Rightarrow> bool" where
  "same_volume fs fs' \<longleftrightarrow> fs' = fs\<lparr>media := media fs', fat_buffers := fat_buffers fs'\<rparr>"

lemma same_volume_refl [simp]: "same_volume fs fs"
  by (simp add: same_volume_def)

lemma same_volume_fields:
  assumes "same_volume fs fs'"
  shows "fat_begin_lba fs' = fat_begin_lba fs" "fat_sectors fs' = fat_sectors fs" "fat_type fs' = fat_type fs"
    "disk_io fs' = disk_io fs" "rootdir_first_cluster fs' = rootdir_first_cluster fs"
    "sectors_per_cluster fs' = sectors_per_cluster fs" "next_free_cluster fs' = next_free_cluster fs"
    "lba_begin fs' = lba_begin fs" "fs_info_sector fs' = fs_info_sector fs" "currentsector fs' = currentsector fs"
proof -
  from assms have "fs' = fs\<lparr>media := media fs', fat_buffers := fat_buffers fs'\<rparr>" by (simp only: same_volume_def)
  then obtain d bs where fs': "fs' = fs\<lparr>media := d, fat_buffers := bs\<rparr>" by blast
  show "fat_begin_lba fs' = fat_begin_lba fs" "fat_sectors fs' = fat_sectors fs" "fat_type fs' = fat_type fs"
    "disk_io fs' = disk_io fs" "rootdir_first_cluster fs' = rootdir_first_cluster fs"
    "sectors_per_cluster fs' = sectors_per_cluster fs" "next_free_cluster fs' = next_free_cluster fs"
    "lba_begin fs' = lba_begin fs" "fs_info_sector fs' = fs_info_sector fs" "currentsector fs' = currentsector fs"
    by (simp_all add: fs')
qed

lemma same_volume_trans: "same_volume a b \<Longrightarrow> same_volume b c \<Longrightarrow> same_volume a c"
  unfolding same_volume_def by (cases a; cases b; cases c) simp

lemma same_volume_upd [simp]: "same_volume fs (upd_buffer i f fs)"
  by (simp add: same_volume_def upd_buffer_def)

lemma in_fat_same: "same_volume fs fs' \<Longrightarrow> in_fat fs' = in_fat fs"
  by (simp add: in_fat_def same_volume_fields fun_eq_iff)

subsection \<open>The chain as a set\<close>

lemma hit_iff:
  "baddress b \<le> l \<and> l < baddress b + FAT_BUFFER_SECTORS \<longleftrightarrow> baddress b = l \<and> l \<noteq> FAT32_INVALID_CLUSTER"
proof -
  have "a \<le> l \<and> l < a + 1 \<longleftrightarrow> a = l \<and> l \<noteq> (0xFFFFFFFF :: u32)" for a
  proof (cases "a = 0xFFFFFFFF")
    case True
    then have "a + 1 = 0" by simp
    then have "\<not> l < a + 1" by (simp only: word_not_simps) simp
    then show ?thesis using True by metis
  next
    case False
    then have "unat a \<noteq> 4294967295" by (simp add: word_unat_eq_iff)
    then have "unat (a + 1) = unat a + 1" using u32_unat_less [of a] by (simp add: unat_word_ariths)
    then show ?thesis using False by (auto simp: word_le_nat_alt word_less_nat_alt word_unat_eq_iff)
  qed
  then show ?thesis by (simp add: FAT_BUFFER_SECTORS_def FAT32_INVALID_CLUSTER_def)
qed

lemma find_buffer_simps [simp]:
  "find_buffer l [] = None"
  "find_buffer l (b # bs) = (if baddress b = l \<and> l \<noteq> FAT32_INVALID_CLUSTER then Some 0 else map_option Suc (find_buffer l bs))"
  by (simp_all only: find_buffer.simps hit_iff)

declare find_buffer.simps [simp del]

lemma find_buffer_None: "find_buffer l bs = None \<longleftrightarrow> l = FAT32_INVALID_CLUSTER \<or> l \<notin> baddress ` set bs"
  by (induction bs) auto

lemma find_buffer_Some: "find_buffer l bs = Some i \<Longrightarrow> i < length bs \<and> baddress (bs ! i) = l \<and> l \<noteq> FAT32_INVALID_CLUSTER"
  by (induction bs arbitrary: i) (auto split: if_splits)

lemma view_in:
  assumes inv: "fat_inv content fs" and i: "i < length (fat_buffers fs)" "baddress (fat_buffers fs ! i) \<noteq> FAT32_INVALID_CLUSTER"
  shows "fat_view content fs (baddress (fat_buffers fs ! i)) = bsector (fat_buffers fs ! i)"
proof (cases "find_buffer (baddress (fat_buffers fs ! i)) (fat_buffers fs)")
  case None
  then show ?thesis using i by (auto simp: find_buffer_None)
next
  case (Some k)
  note f = find_buffer_Some [OF Some]
  have "k = i" using inv i f by (metis fat_inv_def separate_def)
  then show ?thesis by (simp add: fat_view_def Some)
qed

lemma view_out: "l \<notin> baddress ` set (fat_buffers fs) \<Longrightarrow> fat_view content fs l = content (media fs) l"
  by (simp add: fat_view_def find_buffer_None [THEN iffD2])

lemma view_invalid: "fat_view content fs FAT32_INVALID_CLUSTER = content (media fs) FAT32_INVALID_CLUSTER"
  by (simp add: fat_view_def find_buffer_None [THEN iffD2])

lemma length_view: "fat_inv content fs \<Longrightarrow> length (fat_view content fs l) = 512"
  using find_buffer_Some [of l "fat_buffers fs"]
  by (auto simp: fat_view_def fat_inv_def buffer_ok_def media_ok_def split: option.splits)

lemma view_eqI:
  assumes inv: "fat_inv content fs'" and l: "l \<noteq> FAT32_INVALID_CLUSTER"
    and out: "l \<notin> baddress ` set (fat_buffers fs') \<Longrightarrow> v = content (media fs') l"
    and hit: "\<And>i. i < length (fat_buffers fs') \<Longrightarrow> baddress (fat_buffers fs' ! i) = l \<Longrightarrow> v = bsector (fat_buffers fs' ! i)"
  shows "fat_view content fs' l = v"
proof (cases "l \<in> baddress ` set (fat_buffers fs')")
  case True
  then obtain i where "i < length (fat_buffers fs')" "l = baddress (fat_buffers fs' ! i)" by (auto simp: in_set_conv_nth)
  then show ?thesis using view_in [OF inv] hit l by simp
next
  case False
  then show ?thesis using view_out [OF False] out by simp
qed

subsection \<open>Write-back\<close>

lemma sectors_one:
  assumes "in_fat fs l"
  shows "l - fat_begin_lba fs + FAT_BUFFER_SECTORS \<le> fat_sectors fs"
proof -
  have "unat (l - fat_begin_lba fs) = unat l - unat (fat_begin_lba fs)"
    using assms by (simp add: in_fat_def unat_sub word_le_nat_alt)
  then have "unat (l - fat_begin_lba fs) < unat (fat_sectors fs)" using assms by (auto simp: in_fat_def)
  then have "unat (l - fat_begin_lba fs + 1) \<le> unat (fat_sectors fs)"
    using u32_unat_less [of "fat_sectors fs"] unat_Suc_u32 [of "l - fat_begin_lba fs"] by linarith
  then show ?thesis by (simp add: word_le_nat_alt FAT_BUFFER_SECTORS_def)
qed

lemma in_fat_valid: "fat_inv content fs \<Longrightarrow> in_fat fs l \<Longrightarrow> l \<noteq> FAT32_INVALID_CLUSTER"
  by (auto simp: in_fat_def fat_inv_def FAT32_INVALID_CLUSTER_def)

text \<open>
  Replacing one buffer by another keeps the invariant when the new one is in order, its address is
  not buffered elsewhere and the disk agrees with the other buffers.
\<close>

lemma inv_update:
  assumes inv: "fat_inv content fs" and same: "same_volume fs fs'" and i: "i < length (fat_buffers fs)"
    and bufs: "fat_buffers fs' = (fat_buffers fs)[i := b']" and ok: "buffer_ok content fs' b'"
    and addr: "baddress b' = baddress (fat_buffers fs ! i) \<or> baddress b' \<notin> baddress ` set (fat_buffers fs)
                 \<or> baddress b' = FAT32_INVALID_CLUSTER"
    and disk: "\<And>l. l \<noteq> baddress (fat_buffers fs ! i) \<or> l = FAT32_INVALID_CLUSTER \<Longrightarrow> content (media fs') l = content (media fs) l"
  shows "fat_inv content fs'"
proof -
  have "buffer_ok content fs' (fat_buffers fs ! k)" if k: "k < length (fat_buffers fs)" "k \<noteq> i" for k
    using inv k i disk [of "baddress (fat_buffers fs ! k)"] same
    unfolding fat_inv_def separate_def buffer_ok_def by (metis in_fat_same)
  then have "\<forall>k < length (fat_buffers fs'). buffer_ok content fs' (fat_buffers fs' ! k)"
    using ok i by (simp add: bufs nth_list_update)
  moreover have "separate (fat_buffers fs')"
    unfolding separate_def
  proof (intro allI impI)
    fix p q assume pq: "p < length (fat_buffers fs')" "q < length (fat_buffers fs')" "p \<noteq> q"
    have m: "k < length (fat_buffers fs) \<Longrightarrow> baddress (fat_buffers fs ! k) \<in> baddress ` set (fat_buffers fs)" for k by simp
    show "baddress (fat_buffers fs' ! p) \<noteq> baddress (fat_buffers fs' ! q) \<or> baddress (fat_buffers fs' ! p) = FAT32_INVALID_CLUSTER"
      using inv pq i addr m [of p] m [of q] unfolding fat_inv_def separate_def
      by (metis bufs length_list_update nth_list_update)
  qed
  ultimately show ?thesis
    using inv same i by (auto simp: fat_inv_def bufs same_volume_fields)
qed

lemma nth_rotate: "xs \<noteq> [] \<Longrightarrow> k < length xs \<Longrightarrow> (last xs # butlast xs) ! k = xs ! (if k = 0 then length xs - 1 else k - 1)"
  by (cases k) (auto simp: last_conv_nth nth_butlast)

lemma set_rotate: "xs \<noteq> [] \<Longrightarrow> set (last xs # butlast xs) = set xs"
  by (metis Un_commute append_butlast_last_id list.simps(15) set_append empty_set insert_is_Un)

lemma inv_rotate:
  assumes inv: "fat_inv content fs"
  defines "fs' \<equiv> fs\<lparr>fat_buffers := last (fat_buffers fs) # butlast (fat_buffers fs)\<rparr>"
  shows "fat_inv content fs'" and "same_volume fs fs'" and "media fs' = media fs"
    and "set (fat_buffers fs') = set (fat_buffers fs)" and "length (fat_buffers fs') = length (fat_buffers fs)"
    and "l \<noteq> FAT32_INVALID_CLUSTER \<Longrightarrow> fat_view content fs' l = fat_view content fs l"
proof -
  let ?bs = "fat_buffers fs" and ?r = "\<lambda>k. if k = 0 then length (fat_buffers fs) - 1 else k - 1"
  have ne: "?bs \<noteq> []" using inv by (simp add: fat_inv_def)
  show same: "same_volume fs fs'" and m: "media fs' = media fs" by (simp_all add: fs'_def same_volume_def)
  have bs': "fat_buffers fs' = last ?bs # butlast ?bs" by (simp add: fs'_def)
  show st: "set (fat_buffers fs') = set ?bs" by (simp only: bs' set_rotate [OF ne])
  show len: "length (fat_buffers fs') = length ?bs" using ne by (simp add: bs')
  have nth: "k < length ?bs \<Longrightarrow> fat_buffers fs' ! k = ?bs ! ?r k" for k by (simp only: bs' nth_rotate [OF ne])
  have r: "k < length ?bs \<Longrightarrow> ?r k < length ?bs" for k by auto
  have inj: "k < length ?bs \<Longrightarrow> j < length ?bs \<Longrightarrow> k \<noteq> j \<Longrightarrow> ?r k \<noteq> ?r j" for k j by auto
  have sep: "k < length ?bs \<Longrightarrow> j < length ?bs \<Longrightarrow> k \<noteq> j \<Longrightarrow>
      baddress (?bs ! k) \<noteq> baddress (?bs ! j) \<or> baddress (?bs ! k) = FAT32_INVALID_CLUSTER" for k j
    using inv unfolding fat_inv_def separate_def by blast
  have ok: "buffer_ok content fs' = buffer_ok content fs"
    by (rule ext) (simp add: buffer_ok_def in_fat_same [OF same] m)
  have "\<forall>i < length (fat_buffers fs'). buffer_ok content fs' (fat_buffers fs' ! i)"
    using inv r nth unfolding fat_inv_def len ok by presburger
  moreover have "separate (fat_buffers fs')"
    unfolding separate_def len
  proof (intro allI impI)
    fix p q assume "p < length ?bs" "q < length ?bs" "p \<noteq> q"
    then show "baddress (fat_buffers fs' ! p) \<noteq> baddress (fat_buffers fs' ! q) \<or> baddress (fat_buffers fs' ! p) = FAT32_INVALID_CLUSTER"
      unfolding nth [OF \<open>p < length ?bs\<close>] nth [OF \<open>q < length ?bs\<close>] by (intro sep r inj)
  qed
  ultimately show inv': "fat_inv content fs'"
    using inv ne same len by (auto simp: fat_inv_def same_volume_fields)
  show "fat_view content fs' l = fat_view content fs l" if l: "l \<noteq> FAT32_INVALID_CLUSTER"
  proof (rule view_eqI [OF inv' l])
    show "fat_view content fs l = content (media fs') l" if "l \<notin> baddress ` set (fat_buffers fs')"
      using view_out [of l fs content] that by (simp add: st m)
    show "fat_view content fs l = bsector (fat_buffers fs' ! i)"
      if i: "i < length (fat_buffers fs')" "baddress (fat_buffers fs' ! i) = l" for i
      using view_in [OF inv, of "?r i"] i l by (metis len nth r)
  qed
qed

lemma writeback_ok:
  assumes inv: "fat_inv content fs" and i: "i < length (fat_buffers fs)" and wb: "fatfs_fat_writeback fs (Some i) = (r, fs')"
  shows "fat_inv content fs'" and "same_volume fs fs'" and "length (fat_buffers fs') = length (fat_buffers fs)"
    and "map baddress (fat_buffers fs') = map baddress (fat_buffers fs)"
    and "r \<noteq> 0 \<Longrightarrow> \<not> dirty (fat_buffers fs' ! i)"
    and "l \<noteq> FAT32_INVALID_CLUSTER \<Longrightarrow> fat_view content fs' l = fat_view content fs l"
    and "media_reliable (disk_io fs) \<Longrightarrow> r = 1"
proof -
  let ?b = "fat_buffers fs ! i"
  have mo: "media_ok (disk_io fs) content" using inv by (simp add: fat_inv_def)
  obtain wr where wr: "write_media (disk_io fs) = Some wr" using media_ptrs [OF mo] by blast
  note keep = media_wr_keep [OF mo wr] and put = media_wr_put [OF mo wr]
  have bok: "buffer_ok content fs ?b" using inv i by (simp add: fat_inv_def)
  obtain ok d where w: "wr (media fs) (baddress ?b) (bsector ?b) 1 = (ok, d)" by fastforce
  have main: "fat_inv content fs' \<and> same_volume fs fs' \<and> map baddress (fat_buffers fs') = map baddress (fat_buffers fs)
      \<and> (r \<noteq> 0 \<longrightarrow> \<not> dirty (fat_buffers fs' ! i))
      \<and> (\<forall>l. l \<noteq> FAT32_INVALID_CLUSTER \<longrightarrow> fat_view content fs' l = fat_view content fs l) \<and> (media_reliable (disk_io fs) \<longrightarrow> r = 1)"
  proof (cases "dirty ?b")
    case False
    then show ?thesis using wb inv i by (auto simp: fatfs_fat_writeback_def)
  next
    case True
    let ?b' = "if ok = 0 then ?b else ?b\<lparr>dirty := False\<rparr>"
    have inf: "in_fat fs (baddress ?b)" using bok True by (simp add: buffer_ok_def)
    note valid = in_fat_valid [OF inv inf]
    have fs': "fs' = fs\<lparr>media := d, fat_buffers := (fat_buffers fs)[i := ?b']\<rparr>" and r: "r = (if ok = 0 then 0 else 1)"
      using wb True sectors_one [OF inf] i
      by (auto simp: fatfs_fat_writeback_def wr w Let_def upd_buffer_def FAT_BUFFER_SECTORS_def split: if_splits)
    have same: "same_volume fs fs'" by (simp add: fs' same_volume_def)
    have disk: "l \<noteq> baddress ?b \<Longrightarrow> content d l = content (media fs) l" for l using keep [OF w] by simp
    have ok': "buffer_ok content fs' ?b'"
      using bok True inf put [OF w] in_fat_same [OF same] by (auto simp: buffer_ok_def fs')
    have inv': "fat_inv content fs'"
    proof (rule inv_update [OF inv same i])
      show "fat_buffers fs' = (fat_buffers fs)[i := ?b']" by (simp add: fs')
      show "content (media fs') l = content (media fs) l" if "l \<noteq> baddress ?b \<or> l = FAT32_INVALID_CLUSTER" for l
        using that disk valid by (auto simp: fs')
    qed (use ok' in auto)
    have a: "map baddress (fat_buffers fs') = map baddress (fat_buffers fs)"
      using i by (simp add: fs' map_update list_update_same_conv)
    have "fat_view content fs' l = fat_view content fs l" if l: "l \<noteq> FAT32_INVALID_CLUSTER" for l
    proof (rule view_eqI [OF inv' l])
      have s: "baddress ` set (fat_buffers fs') = baddress ` set (fat_buffers fs)" using a by (metis list.set_map)
      show "fat_view content fs l = content (media fs') l" if out: "l \<notin> baddress ` set (fat_buffers fs')"
      proof -
        have "l \<noteq> baddress ?b" using out nth_mem [OF i] unfolding s by blast
        then show ?thesis using view_out [of l fs content] out disk [of l] unfolding s by (simp add: fs')
      qed
      show "fat_view content fs l = bsector (fat_buffers fs' ! k)"
        if k: "k < length (fat_buffers fs')" "baddress (fat_buffers fs' ! k) = l" for k
        using view_in [OF inv, of k] k l i by (auto simp: fs' nth_list_update split: if_splits)
    qed
    moreover have "media_reliable (disk_io fs) \<Longrightarrow> r = 1" using media_wr_status [OF _ wr w] r by auto
    ultimately show ?thesis using inv' same a r i by (simp add: fs')
  qed
  show "fat_inv content fs'" "same_volume fs fs'" "map baddress (fat_buffers fs') = map baddress (fat_buffers fs)"
    "r \<noteq> 0 \<Longrightarrow> \<not> dirty (fat_buffers fs' ! i)"
    "l \<noteq> FAT32_INVALID_CLUSTER \<Longrightarrow> fat_view content fs' l = fat_view content fs l"
    "media_reliable (disk_io fs) \<Longrightarrow> r = 1" using main by auto
  show "length (fat_buffers fs') = length (fat_buffers fs)" using main by (metis length_map)
qed

lemma purge_loop_ok:
  assumes "fat_inv content fs" "\<forall>i \<in> set is. i < length (fat_buffers fs)" "purge_loop fs is = (r, fs')"
  shows "fat_inv content fs' \<and> same_volume fs fs' \<and> length (fat_buffers fs') = length (fat_buffers fs)
    \<and> (\<forall>l. l \<noteq> FAT32_INVALID_CLUSTER \<longrightarrow> fat_view content fs' l = fat_view content fs l)"
  using assms
proof (induction "is" arbitrary: fs)
  case (Cons i "is")
  obtain ok fs1 where wb: "fatfs_fat_writeback fs (Some i) = (ok, fs1)" by fastforce
  have i: "i < length (fat_buffers fs)" using Cons.prems by simp
  note w = writeback_ok [OF Cons.prems(1) i wb]
  show ?case
  proof (cases "dirty (fat_buffers fs ! i) \<and> ok \<noteq> 0")
    case True
    then have "purge_loop fs1 is = (r, fs')" using Cons.prems(3) wb by simp
    then show ?thesis using Cons.IH [OF w(1)] Cons.prems(2) w by (auto intro: same_volume_trans)
  next
    case False
    then show ?thesis using Cons.prems Cons.IH [OF Cons.prems(1)] wb w by (auto split: if_splits)
  qed
qed simp

subsection \<open>Reading a FAT sector\<close>

text \<open>What a successful read gives: a buffer at the requested address that holds the sector.\<close>

definition fat_read :: "('d \<Rightarrow> u32 \<Rightarrow> bytes) \<Rightarrow> 'd fatfs \<Rightarrow> u32 \<Rightarrow> nat option \<Rightarrow> 'd fatfs \<Rightarrow> bool" where
  "fat_read content fs l res fs' \<longleftrightarrow> fat_inv content fs' \<and> same_volume fs fs' \<and>
     (\<forall>k. k \<noteq> FAT32_INVALID_CLUSTER \<longrightarrow> fat_view content fs' k = fat_view content fs k) \<and>
     (\<forall>i. res = Some i \<longrightarrow> i < length (fat_buffers fs') \<and> baddress (fat_buffers fs' ! i) = l \<and>
        bptr (fat_buffers fs' ! i) = 0 \<and> bsector (fat_buffers fs' ! i) = fat_view content fs l)"

lemma read_hit:
  assumes inv: "fat_inv content fs" and hit: "find_buffer l (fat_buffers fs) = Some i"
    and fs': "fs' = upd_buffer i (\<lambda>b. b\<lparr>bptr := unat ((l - baddress b) * FAT_SECTOR_SIZE)\<rparr>) fs"
  shows "fat_read content fs l (Some i) fs'"
proof -
  note f = find_buffer_Some [OF hit]
  let ?b = "(fat_buffers fs ! i)\<lparr>bptr := 0\<rparr>"
  have bufs: "fat_buffers fs' = (fat_buffers fs)[i := ?b]" and m: "media fs' = media fs"
    using f by (simp_all add: fs' upd_buffer_def)
  have same: "same_volume fs fs'" by (simp add: fs')
  have inv': "fat_inv content fs'"
    by (rule inv_update [OF inv same _ bufs])
      (use f inv in \<open>auto simp: fat_inv_def buffer_ok_def in_fat_same [OF same] m\<close>)
  have "fat_view content fs' k = fat_view content fs k" if k: "k \<noteq> FAT32_INVALID_CLUSTER" for k
  proof (rule view_eqI [OF inv' k])
    have "map baddress (fat_buffers fs') = map baddress (fat_buffers fs)"
      using f by (simp add: bufs map_update list_update_same_conv)
    then have "baddress ` set (fat_buffers fs') = baddress ` set (fat_buffers fs)" by (metis list.set_map)
    then show "fat_view content fs k = content (media fs') k" if "k \<notin> baddress ` set (fat_buffers fs')"
      using view_out [of k fs content] that by (simp add: m)
    show "fat_view content fs k = bsector (fat_buffers fs' ! j)"
      if "j < length (fat_buffers fs')" "baddress (fat_buffers fs' ! j) = k" for j
      using view_in [OF inv, of j] that k f by (auto simp: bufs nth_list_update split: if_splits)
  qed
  moreover have "bsector (fat_buffers fs ! i) = fat_view content fs l" using view_in [OF inv, of i] f by simp
  ultimately show ?thesis using inv' same f by (simp add: fat_read_def bufs)
qed

text \<open>Loading a sector into a buffer that holds nothing unwritten.\<close>

lemma read_load:
  assumes inv: "fat_inv content fs" and clean: "\<not> dirty (fat_buffers fs ! 0)" and l: "l \<noteq> FAT32_INVALID_CLUSTER"
    and new: "l \<notin> baddress ` set (fat_buffers fs)" and rd: "read_media (disk_io fs) = Some rd"
    and r: "rd (media fs) l (bsector (fat_buffers fs ! 0)) 1 = (r, buf, d)"
    and fs': "fs' = fs\<lparr>media := d, fat_buffers := (fat_buffers fs)[0 := (fat_buffers fs ! 0)
                 \<lparr>bsector := buf, baddress := (if r = 0 then FAT32_INVALID_CLUSTER else l), bptr := p\<rparr>]\<rparr>"
    and p: "r \<noteq> 0 \<Longrightarrow> p = 0"
  shows "fat_read content fs l (if r = 0 then None else Some 0) fs'"
proof -
  let ?b = "fat_buffers fs ! 0"
  let ?b' = "?b\<lparr>bsector := buf, baddress := (if r = 0 then FAT32_INVALID_CLUSTER else l), bptr := p\<rparr>"
  have mo: "media_ok (disk_io fs) content" and ne: "0 < length (fat_buffers fs)" using inv by (auto simp: fat_inv_def)
  have blen: "length (bsector ?b) = 512" using inv ne by (auto simp: fat_inv_def buffer_ok_def)
  note keep = media_rd_keep [OF mo rd r]
  have get: "r \<noteq> 0 \<Longrightarrow> buf = content (media fs) l" using media_rd_get [OF mo rd r] blen by simp
  have same: "same_volume fs fs'" by (simp add: fs' same_volume_def)
  have bufs: "fat_buffers fs' = (fat_buffers fs)[0 := ?b']" by (simp add: fs')
  have disk: "content (media fs') = content (media fs)" using keep by (simp add: fs')
  have inv': "fat_inv content fs'"
    by (rule inv_update [OF inv same ne bufs]) (use keep get clean new blen in \<open>auto simp: buffer_ok_def disk\<close>)
  have "fat_view content fs' k = fat_view content fs k" if k: "k \<noteq> FAT32_INVALID_CLUSTER" for k
  proof (rule view_eqI [OF inv' k])
    have gone: "fat_view content fs (baddress ?b) = content (media fs) (baddress ?b)" if "baddress ?b \<noteq> FAT32_INVALID_CLUSTER"
      using view_in [OF inv ne that] inv ne clean that by (simp add: fat_inv_def buffer_ok_def)
    show "fat_view content fs k = content (media fs') k" if out: "k \<notin> baddress ` set (fat_buffers fs')"
    proof (cases "k = baddress ?b")
      case True
      then show ?thesis using gone k by (simp add: disk)
    next
      case False
      have "k \<notin> baddress ` set (fat_buffers fs)"
      proof
        assume "k \<in> baddress ` set (fat_buffers fs)"
        then obtain j where "j < length (fat_buffers fs)" "k = baddress (fat_buffers fs ! j)" by (auto simp: in_set_conv_nth)
        moreover from this have "j \<noteq> 0" using False by metis
        ultimately have "j < length (fat_buffers fs')" "k = baddress (fat_buffers fs' ! j)" by (simp_all add: bufs)
        then show False using out nth_mem by blast
      qed
      then show ?thesis using view_out by (simp add: disk)
    qed
    show "fat_view content fs k = bsector (fat_buffers fs' ! j)"
      if "j < length (fat_buffers fs')" "baddress (fat_buffers fs' ! j) = k" for j
    proof (cases "j = 0")
      case True
      then show ?thesis using that k ne get view_out [OF new] by (auto simp: bufs split: if_splits)
    next
      case False
      then show ?thesis using that view_in [OF inv, of j] k by (simp add: bufs)
    qed
  qed
  then show ?thesis using inv' same ne get p view_out [OF new] by (simp add: fat_read_def bufs)
qed

lemma fat_read_trans:
  assumes "fat_inv content fs1" "same_volume fs fs1" "\<And>k. k \<noteq> FAT32_INVALID_CLUSTER \<Longrightarrow> fat_view content fs1 k = fat_view content fs k"
    and "fat_read content fs1 l res fs'" "l \<noteq> FAT32_INVALID_CLUSTER"
  shows "fat_read content fs l res fs'"
  using assms by (auto simp: fat_read_def intro: same_volume_trans)

theorem read_sector_ok:
  assumes inv: "fat_inv content fs" and l: "l \<noteq> FAT32_INVALID_CLUSTER"
  obtains res fs' where "fatfs_fat_read_sector fs l = Some (res, fs')" and "fat_read content fs l res fs'"
    and "media_reliable (disk_io fs) \<Longrightarrow> res \<noteq> None"
proof (cases "find_buffer l (fat_buffers fs)")
  case (Some i)
  show ?thesis
    by (rule that [of "Some i", OF _ read_hit [OF inv Some refl]]) (simp_all add: fatfs_fat_read_sector_def Some)
next
  case None
  define fs1 where "fs1 = fs\<lparr>fat_buffers := last (fat_buffers fs) # butlast (fat_buffers fs)\<rparr>"
  note rot = inv_rotate [OF inv, folded fs1_def]
  have ne: "0 < length (fat_buffers fs1)" using rot(1) by (simp add: fat_inv_def)
  obtain ok fs2 where wb: "(if dirty (fat_buffers fs1 ! 0) then fatfs_fat_writeback fs1 (Some 0) else (1, fs1)) = (ok, fs2)" by fastforce
  have w: "fat_inv content fs2" "same_volume fs1 fs2" "map baddress (fat_buffers fs2) = map baddress (fat_buffers fs1)"
    "ok \<noteq> 0 \<Longrightarrow> \<not> dirty (fat_buffers fs2 ! 0)" "media_reliable (disk_io fs1) \<Longrightarrow> ok = 1"
    and wv: "k \<noteq> FAT32_INVALID_CLUSTER \<Longrightarrow> fat_view content fs2 k = fat_view content fs1 k" for k
    using writeback_ok [OF rot(1) ne, of ok fs2] wb rot(1) by (auto split: if_splits)
  have same: "same_volume fs fs2" using rot(2) w(2) by (rule same_volume_trans)
  have view: "k \<noteq> FAT32_INVALID_CLUSTER \<Longrightarrow> fat_view content fs2 k = fat_view content fs k" for k using wv rot(6) by simp
  have new: "l \<notin> baddress ` set (fat_buffers fs2)"
    using None l rot(4) w(3) by (metis find_buffer_None list.set_map)
  have mo: "media_ok (disk_io fs2) content" and ne2: "fat_buffers fs2 \<noteq> []" using w(1) by (simp_all add: fat_inv_def)
  obtain rd where rd: "read_media (disk_io fs2) = Some rd" using media_ptrs [OF mo] by blast
  obtain r buf d where r: "rd (media fs2) l (bsector (fat_buffers fs2 ! 0)) 1 = (r, buf, d)" by (metis surj_pair)
  show ?thesis
  proof (cases "ok = 0")
    case True
    have "fat_read content fs l None fs2" using w(1) same view by (simp add: fat_read_def)
    then show ?thesis
    proof (rule that [of None fs2, rotated])
      show "fatfs_fat_read_sector fs l = Some (None, fs2)"
        using True wb by (simp add: fatfs_fat_read_sector_def None Let_def fs1_def [symmetric])
      show "media_reliable (disk_io fs) \<Longrightarrow> None \<noteq> None" using True w(5) rot(2) by (simp add: same_volume_fields)
    qed
  next
    case False
    define p where "p = (if r = 0 then bptr (fat_buffers fs2 ! 0) else 0)"
    define fs3 where "fs3 = fs2\<lparr>media := d, fat_buffers := (fat_buffers fs2)[0 := (fat_buffers fs2 ! 0)
                 \<lparr>bsector := buf, baddress := (if r = 0 then FAT32_INVALID_CLUSTER else l), bptr := p\<rparr>]\<rparr>"
    have "fat_read content fs2 l (if r = 0 then None else Some 0) fs3"
      by (rule read_load [OF w(1) w(4) l new rd r fs3_def]) (use False p_def in auto)
    then have res: "fat_read content fs l (if r = 0 then None else Some 0) fs3"
      using fat_read_trans [OF w(1) same view] l by blast
    have "fatfs_fat_read_sector fs l = Some (if r = 0 then None else Some 0, fs3)"
      using False wb rd r ne2
      by (cases "fat_buffers fs2 ! 0")
        (auto simp: fatfs_fat_read_sector_def None Let_def fs1_def [symmetric] FAT_BUFFER_SECTORS_def upd_buffer_def fs3_def p_def)
    then show ?thesis using that res media_rd_status [OF _ rd r] same by (auto simp: same_volume_fields)
  qed
qed

end
