(* ===== verification/FatEntries.thy ===== *)
theory FatEntries
  imports FatBuffers
begin

text \<open>
  The FAT as a table of links. \<open>fat_link\<close> is the successor the table records for a cluster (with
  the end of a chain as \<^const>\<open>FAT32_LAST_CLUSTER\<close>, a free cluster as 0). Finding the next cluster
  reads it, setting a cluster updates exactly one entry, and the search for a blank cluster
  returns the first free one, for FAT16 and FAT32 alike.
\<close>

definition entries_per_sector :: "tFatType \<Rightarrow> nat" where
  "entries_per_sector t = (case t of FAT_TYPE_16 \<Rightarrow> 256 | FAT_TYPE_32 \<Rightarrow> 128)"

definition cluster_ok :: "'d fatfs \<Rightarrow> u32 \<Rightarrow> bool" where
  "cluster_ok fs c \<longleftrightarrow> unat c < unat (fat_sectors fs) * entries_per_sector (fat_type fs)"

definition raw_entry :: "('d \<Rightarrow> u32 \<Rightarrow> bytes) \<Rightarrow> 'd fatfs \<Rightarrow> u32 \<Rightarrow> u32" where
  "raw_entry content fs c =
     (let v = fat_view content fs (fat_begin_lba fs + fat_sector_offset (fat_type fs) c);
          p = unat (fat_position (fat_type fs) c)
      in case fat_type fs of FAT_TYPE_16 \<Rightarrow> GET_16BIT_WORD v p | FAT_TYPE_32 \<Rightarrow> GET_32BIT_WORD v p)"

definition link_of :: "tFatType \<Rightarrow> u32 \<Rightarrow> u32" where
  "link_of t raw = (case t of
     FAT_TYPE_16 \<Rightarrow> (if 0xFFF8 \<le> raw \<and> raw \<le> 0xFFFF then FAT32_LAST_CLUSTER else raw)
   | FAT_TYPE_32 \<Rightarrow> (let n = raw AND 0x0FFFFFFF in
                     if 0x0FFFFFF8 \<le> n \<and> n \<le> 0x0FFFFFFF then FAT32_LAST_CLUSTER else n))"

definition fat_link :: "('d \<Rightarrow> u32 \<Rightarrow> bytes) \<Rightarrow> 'd fatfs \<Rightarrow> u32 \<Rightarrow> u32" where
  "fat_link content fs c = link_of (fat_type fs) (raw_entry content fs c)"

text \<open>What the table keeps of a value written to it.\<close>

definition stored_link :: "tFatType \<Rightarrow> u32 \<Rightarrow> u32" where
  "stored_link t v = link_of t (case t of FAT_TYPE_16 \<Rightarrow> ucast (ucast v :: u16) | FAT_TYPE_32 \<Rightarrow> v)"

definition link_limit :: "tFatType \<Rightarrow> u32" where
  "link_limit t = (case t of FAT_TYPE_16 \<Rightarrow> 0xFFF8 | FAT_TYPE_32 \<Rightarrow> 0x0FFFFFF8)"

text \<open>
  A mounted volume on a reliable medium: the table has no entry whose number marks the end of a
  chain, and the FSINFO sector of a FAT32 volume lies outside the table.
\<close>

definition fat_ok :: "('d \<Rightarrow> u32 \<Rightarrow> bytes) \<Rightarrow> 'd fatfs \<Rightarrow> bool" where
  "fat_ok content fs \<longleftrightarrow> fat_inv content fs \<and> media_reliable (disk_io fs) \<and>
     unat (fat_sectors fs) * entries_per_sector (fat_type fs) \<le> unat (link_limit (fat_type fs)) \<and>
     \<not> in_fat fs (lba_begin fs + ucast (fs_info_sector fs)) \<and>
     lba_begin fs + ucast (fs_info_sector fs) \<noteq> FAT32_INVALID_CLUSTER"

lemma fat_ok_inv: "fat_ok content fs \<Longrightarrow> fat_inv content fs"
  by (simp add: fat_ok_def)

lemma fat_ok_same: "fat_ok content fs \<Longrightarrow> same_volume fs fs' \<Longrightarrow> fat_inv content fs' \<Longrightarrow> fat_ok content fs'"
  by (simp add: fat_ok_def same_volume_fields in_fat_same)

lemma cluster_limit: "fat_ok content fs \<Longrightarrow> cluster_ok fs c \<Longrightarrow> c < link_limit (fat_type fs)"
  by (simp add: fat_ok_def cluster_ok_def word_less_nat_alt)

lemma cluster_not_last: "fat_ok content fs \<Longrightarrow> cluster_ok fs c \<Longrightarrow> c \<noteq> FAT32_LAST_CLUSTER"
  using cluster_limit [of content fs c] by (auto simp: link_limit_def FAT32_LAST_CLUSTER_def split: tFatType.splits)

lemma cluster_ok_same: "same_volume fs fs' \<Longrightarrow> cluster_ok fs' = cluster_ok fs"
  by (simp add: cluster_ok_def same_volume_fields fun_eq_iff)

subsection \<open>Where the entries stand\<close>

lemma unat_offset: "unat (fat_sector_offset t c) = unat c div entries_per_sector t"
  by (cases t) (simp_all add: fat_sector_offset_def entries_per_sector_def unat_div)

lemma unat_position:
  "unat (fat_position t c) = unat c mod entries_per_sector t * (case t of FAT_TYPE_16 \<Rightarrow> 2 | FAT_TYPE_32 \<Rightarrow> 4)"
proof (cases t)
  case FAT_TYPE_16
  have m: "c - c div 256 * 256 = c mod 256" by (simp add: minus_div_mult_eq_mod)
  have "unat (c mod 256) = unat c mod 256" by (simp add: unat_mod)
  moreover have "unat (c mod 256 * 2) = unat (c mod 256) * 2" using calculation by (simp add: unat_word_ariths)
  ultimately show ?thesis using FAT_TYPE_16 m
    by (simp add: fat_position_def fat_sector_offset_def entries_per_sector_def unsigned_ucast_eq take_bit_nat_eq_self)
next
  case FAT_TYPE_32
  have m: "c - c div 128 * 128 = c mod 128" by (simp add: minus_div_mult_eq_mod)
  have "unat (c mod 128) = unat c mod 128" by (simp add: unat_mod)
  moreover have "unat (c mod 128 * 4) = unat (c mod 128) * 4" using calculation by (simp add: unat_word_ariths)
  ultimately show ?thesis using FAT_TYPE_32 m
    by (simp add: fat_position_def fat_sector_offset_def entries_per_sector_def unsigned_ucast_eq take_bit_nat_eq_self)
qed

lemma cluster_ok_iff: "fat_sector_offset (fat_type fs) c < fat_sectors fs \<longleftrightarrow> cluster_ok fs c"
proof -
  have "0 < entries_per_sector (fat_type fs)" by (cases "fat_type fs") (simp_all add: entries_per_sector_def)
  then show ?thesis by (simp add: word_less_nat_alt unat_offset cluster_ok_def div_less_iff_less_mult)
qed

lemma entry_lba:
  assumes inv: "fat_inv content fs" and c: "cluster_ok fs c"
  defines "l \<equiv> fat_begin_lba fs + fat_sector_offset (fat_type fs) c"
  shows "unat l = unat (fat_begin_lba fs) + unat (fat_sector_offset (fat_type fs) c)" and "in_fat fs l" and "l \<noteq> FAT32_INVALID_CLUSTER"
proof -
  let ?o = "fat_sector_offset (fat_type fs) c"
  have o: "unat ?o < unat (fat_sectors fs)" using c cluster_ok_iff [of fs c] by (simp add: word_less_nat_alt)
  then have "unat (fat_begin_lba fs) + unat ?o < 2 ^ LENGTH(32)" using inv by (simp add: fat_inv_def)
  then show u: "unat l = unat (fat_begin_lba fs) + unat ?o" unfolding l_def using unat_add_lem [THEN iffD1] by blast
  show inf: "in_fat fs l" using u o by (simp add: in_fat_def)
  show "l \<noteq> FAT32_INVALID_CLUSTER" by (rule in_fat_valid [OF inv inf])
qed

lemma entry_apart:
  assumes "c \<noteq> c'"
  shows "fat_sector_offset t c \<noteq> fat_sector_offset t c' \<or>
    unat (fat_position t c) + (case t of FAT_TYPE_16 \<Rightarrow> 2 | FAT_TYPE_32 \<Rightarrow> 4) \<le> unat (fat_position t c') \<or>
    unat (fat_position t c') + (case t of FAT_TYPE_16 \<Rightarrow> 2 | FAT_TYPE_32 \<Rightarrow> 4) \<le> unat (fat_position t c)"
proof (rule disjCI)
  let ?w = "case t of FAT_TYPE_16 \<Rightarrow> 2 :: nat | FAT_TYPE_32 \<Rightarrow> 4"
  let ?n = "entries_per_sector t"
  assume far: "\<not> (unat (fat_position t c) + ?w \<le> unat (fat_position t c') \<or> unat (fat_position t c') + ?w \<le> unat (fat_position t c))"
  have w: "0 < ?w" by (cases t) simp_all
  have eq: "unat c mod ?n = unat c' mod ?n"
  proof (rule ccontr)
    assume "unat c mod ?n \<noteq> unat c' mod ?n"
    then have "unat c mod ?n + 1 \<le> unat c' mod ?n \<or> unat c' mod ?n + 1 \<le> unat c mod ?n" by linarith
    then have "(unat c mod ?n + 1) * ?w \<le> unat c' mod ?n * ?w \<or> (unat c' mod ?n + 1) * ?w \<le> unat c mod ?n * ?w"
      using mult_le_mono1 by blast
    then show False using far unfolding unat_position by (simp add: add_mult_distrib)
  qed
  show "fat_sector_offset t c \<noteq> fat_sector_offset t c'"
  proof
    assume "fat_sector_offset t c = fat_sector_offset t c'"
    then have "unat c div ?n = unat c' div ?n" by (metis unat_offset)
    with eq have "unat c = unat c'" by (metis div_mult_mod_eq)
    with assms show False by (simp add: word_unat_eq_iff)
  qed
qed

lemma entry_same_sector:
  assumes "fat_inv content fs" "cluster_ok fs c" "cluster_ok fs k"
    and "fat_begin_lba fs + fat_sector_offset (fat_type fs) c = fat_begin_lba fs + fat_sector_offset (fat_type fs) k"
  shows "fat_sector_offset (fat_type fs) c = fat_sector_offset (fat_type fs) k"
  using assms by simp

lemma position_bound: "unat (fat_position t c) + (case t of FAT_TYPE_16 \<Rightarrow> 2 | FAT_TYPE_32 \<Rightarrow> 4) \<le> 512"
proof (cases t)
  case FAT_TYPE_16
  have "unat c mod 256 < 256" by simp
  then show ?thesis unfolding unat_position using FAT_TYPE_16 by (simp add: entries_per_sector_def)
next
  case FAT_TYPE_32
  have "unat c mod 128 < 128" by simp
  then show ?thesis unfolding unat_position using FAT_TYPE_32 by (simp add: entries_per_sector_def)
qed

subsection \<open>Reading and writing an entry\<close>

lemma read_ok:
  assumes "fat_ok content fs" "l \<noteq> FAT32_INVALID_CLUSTER"
  shows "\<exists>i fs'. fatfs_fat_read_sector fs l = Some (Some i, fs') \<and> fat_read content fs l (Some i) fs'"
  by (rule read_sector_ok [OF fat_ok_inv [OF assms(1)] assms(2)]) (use assms(1) in \<open>auto simp: fat_ok_def\<close>)

lemma find_next_ok:
  assumes ok: "fat_ok content fs" and c: "cluster_ok fs c" "c \<noteq> 0"
  shows "\<exists>fs'. fatfs_find_next_cluster fs c = Some (fat_link content fs c, fs') \<and> fat_ok content fs' \<and>
     same_volume fs fs' \<and> (\<forall>l. l \<noteq> FAT32_INVALID_CLUSTER \<longrightarrow> fat_view content fs' l = fat_view content fs l)"
proof -
  note inv = fat_ok_inv [OF ok]
  let ?l = "fat_begin_lba fs + fat_sector_offset (fat_type fs) c"
  obtain i fs' where rs: "fatfs_fat_read_sector fs ?l = Some (Some i, fs')" "fat_read content fs ?l (Some i) fs'"
    using read_ok [OF ok entry_lba(3) [OF inv c(1)]] by blast
  have b: "bptr (fat_buffers fs' ! i) = 0" "bsector (fat_buffers fs' ! i) = fat_view content fs ?l" and same: "same_volume fs fs'"
    using rs(2) by (auto simp: fat_read_def)
  have "fatfs_find_next_cluster fs c = Some (fat_link content fs c, fs')"
    using c(2) rs(1) b same_volume_fields(3) [OF same]
    by (simp add: fatfs_find_next_cluster_def fat_link_def link_of_def raw_entry_def Let_def
        FAT16_GET_16BIT_WORD_def FAT32_GET_32BIT_WORD_def split: tFatType.splits)
  then show ?thesis using rs(2) fat_ok_same [OF ok same] same by (auto simp: fat_read_def)
qed

lemma view_upd_buffer:
  assumes inv: "fat_inv content fs" and i: "i < length (fat_buffers fs)" and inf: "in_fat fs (baddress (fat_buffers fs ! i))"
    and b': "b' = (fat_buffers fs ! i)\<lparr>bsector := v, dirty := True\<rparr>" "length v = 512"
    and fs': "fs' = upd_buffer i (\<lambda>_. b') fs"
  shows "fat_inv content fs'"
    and "l \<noteq> FAT32_INVALID_CLUSTER \<Longrightarrow>
      fat_view content fs' l = (if l = baddress (fat_buffers fs ! i) then v else fat_view content fs l)"
proof -
  have same: "same_volume fs fs'" and bufs: "fat_buffers fs' = (fat_buffers fs)[i := b']" and m: "media fs' = media fs"
    by (simp_all add: fs' upd_buffer_def same_volume_def)
  show inv': "fat_inv content fs'"
    by (rule inv_update [OF inv same i bufs]) (use b' inf in \<open>auto simp: buffer_ok_def in_fat_same [OF same] m\<close>)
  show "fat_view content fs' l = (if l = baddress (fat_buffers fs ! i) then v else fat_view content fs l)"
    if l: "l \<noteq> FAT32_INVALID_CLUSTER"
  proof (rule view_eqI [OF inv' l])
    have a: "map baddress (fat_buffers fs') = map baddress (fat_buffers fs)"
      using i b' by (simp add: bufs map_update list_update_same_conv)
    then have s: "baddress ` set (fat_buffers fs') = baddress ` set (fat_buffers fs)" by (metis list.set_map)
    show "(if l = baddress (fat_buffers fs ! i) then v else fat_view content fs l) = content (media fs') l"
      if "l \<notin> baddress ` set (fat_buffers fs')"
      using that view_out [of l fs content] nth_mem [OF i] unfolding s m by auto
    show "(if l = baddress (fat_buffers fs ! i) then v else fat_view content fs l) = bsector (fat_buffers fs' ! k)"
      if k: "k < length (fat_buffers fs')" "baddress (fat_buffers fs' ! k) = l" for k
    proof (cases "k = i")
      case True
      then show ?thesis using k b' i by (simp add: bufs)
    next
      case False
      then have "l \<noteq> baddress (fat_buffers fs ! i)"
        using inv i k l unfolding fat_inv_def separate_def bufs by (metis length_list_update nth_list_update_neq)
      then show ?thesis using False k view_in [OF inv, of k] l by (simp add: bufs)
    qed
  qed
qed

lemma set_cluster_ok:
  assumes ok: "fat_ok content fs" and c: "cluster_ok fs c"
  shows "\<exists>fs'. fatfs_fat_set_cluster fs c v = Some (1, fs') \<and> fat_ok content fs' \<and> same_volume fs fs' \<and>
     (\<forall>k. cluster_ok fs k \<longrightarrow> fat_link content fs' k = (if k = c then stored_link (fat_type fs) v else fat_link content fs k))"
proof -
  note inv = fat_ok_inv [OF ok]
  let ?t = "fat_type fs"
  let ?l = "\<lambda>c. fat_begin_lba fs + fat_sector_offset ?t c"
  let ?p = "unat (fat_position ?t c)"
  let ?V = "fat_view content fs (?l c)"
  obtain i fs1 where rs: "fatfs_fat_read_sector fs (?l c) = Some (Some i, fs1)" "fat_read content fs (?l c) (Some i) fs1"
    using read_ok [OF ok entry_lba(3) [OF inv c]] by blast
  let ?b = "fat_buffers fs1 ! i"
  have b: "bptr ?b = 0" "bsector ?b = ?V" "baddress ?b = ?l c" "i < length (fat_buffers fs1)"
    and same1: "same_volume fs fs1" and inv1: "fat_inv content fs1"
    and view1: "\<And>l. l \<noteq> FAT32_INVALID_CLUSTER \<Longrightarrow> fat_view content fs1 l = fat_view content fs l"
    using rs(2) by (auto simp: fat_read_def)
  define V' where "V' = (case ?t of FAT_TYPE_16 \<Rightarrow> SET_16BIT_WORD ?V ?p (ucast v) | FAT_TYPE_32 \<Rightarrow> SET_32BIT_WORD ?V ?p v)"
  have lv: "length V' = 512" using length_view [OF inv] by (simp add: V'_def split: tFatType.splits)
  define fs' where "fs' = upd_buffer i (\<lambda>_. ?b\<lparr>bsector := V', dirty := True\<rparr>) fs1"
  have t1: "fat_type fs1 = ?t" by (rule same_volume_fields(3) [OF same1])
  have run: "fatfs_fat_set_cluster fs c v = Some (1, fs')"
    using rs(1) b t1
    by (simp add: fatfs_fat_set_cluster_def Let_def fs'_def V'_def upd_buffer_def
        FAT16_SET_16BIT_WORD_def FAT32_SET_32BIT_WORD_def split: tFatType.splits)
  have same: "same_volume fs fs'" using same1 same_volume_upd [of fs1] unfolding fs'_def by (rule same_volume_trans)
  have inf: "in_fat fs1 (baddress ?b)" using entry_lba(2) [OF inv c] b(3) in_fat_same [OF same1] by simp
  note upd = view_upd_buffer [OF inv1 b(4) inf refl lv fs'_def]
  have view': "fat_view content fs' l = (if l = ?l c then V' else fat_view content fs l)" if "l \<noteq> FAT32_INVALID_CLUSTER" for l
    using upd(2) [OF that] view1 [OF that] b(3) by simp
  have "fat_link content fs' k = (if k = c then stored_link ?t v else fat_link content fs k)" if k: "cluster_ok fs k" for k
  proof -
    have t': "fat_type fs' = ?t" "fat_begin_lba fs' = fat_begin_lba fs" using same by (simp_all add: same_volume_fields)
    note vk = view' [OF entry_lba(3) [OF inv k]]
    note vlen = length_view [OF inv, of "?l c"] and pb = position_bound [of ?t c]
    show ?thesis
    proof (cases "k = c")
      case True
      then show ?thesis using vk vlen pb
        by (cases ?t) (simp_all add: fat_link_def raw_entry_def t' Let_def V'_def stored_link_def GET_SET_16 GET_SET_32)
    next
      case False
      then show ?thesis using vk entry_apart [OF False, of ?t]
        by (cases ?t) (auto simp: fat_link_def raw_entry_def t' Let_def V'_def GET_SET_16_other GET_SET_32_other)
    qed
  qed
  then show ?thesis using run same fat_ok_same [OF ok same upd(1)] by blast
qed

lemma stored_link_simps [simp]: "stored_link t 0 = 0" "stored_link t FAT32_LAST_CLUSTER = FAT32_LAST_CLUSTER"
  by (cases t; simp add: stored_link_def link_of_def FAT32_LAST_CLUSTER_def)+

lemma mask28: "v < 0x0FFFFFF8 \<Longrightarrow> v AND 0x0FFFFFFF = (v :: u32)"
proof -
  assume v: "v < 0x0FFFFFF8"
  then have "unat v < 2 ^ 28" by (simp add: word_less_nat_alt)
  then have "take_bit 28 v = v" by (simp add: word_unat_eq_iff unsigned_take_bit_eq take_bit_nat_eq_self)
  moreover have "take_bit 28 v = v AND 0x0FFFFFFF" by (simp add: take_bit_eq_mask mask_eq_exp_minus_1)
  ultimately show ?thesis by simp
qed

lemma stored_link_id: "v < link_limit t \<Longrightarrow> stored_link t v = v"
proof (cases t)
  case FAT_TYPE_16
  assume "v < link_limit t"
  then have v: "unat v < 65528" using FAT_TYPE_16 by (simp add: link_limit_def word_less_nat_alt)
  then have "(ucast (ucast v :: u16) :: u32) = v" by (simp add: word_unat_eq_iff unsigned_ucast_eq unsigned_take_bit_eq take_bit_nat_eq_self)
  then show ?thesis using v FAT_TYPE_16 by (simp add: stored_link_def link_of_def word_le_nat_alt)
next
  case FAT_TYPE_32
  assume "v < link_limit t"
  then have v: "v < 0x0FFFFFF8" using FAT_TYPE_32 by (simp add: link_limit_def)
  then have "\<not> 0x0FFFFFF8 \<le> v" by simp
  then show ?thesis using FAT_TYPE_32 mask28 [OF v] by (simp add: stored_link_def link_of_def)
qed

lemma link_of_zero: "link_of t raw = 0 \<longleftrightarrow> (case t of FAT_TYPE_16 \<Rightarrow> raw | FAT_TYPE_32 \<Rightarrow> raw AND 0x0FFFFFFF) = 0"
  by (cases t) (auto simp: link_of_def FAT32_LAST_CLUSTER_def Let_def)

lemma link_view:
  assumes "fat_inv content fs" "same_volume fs fs'" "cluster_ok fs k"
    and "\<And>l. l \<noteq> FAT32_INVALID_CLUSTER \<Longrightarrow> fat_view content fs' l = fat_view content fs l"
  shows "fat_link content fs' k = fat_link content fs k"
  using assms(4) [OF entry_lba(3) [OF assms(1,3)]] assms(2)
  by (simp add: fat_link_def raw_entry_def same_volume_fields)

subsection \<open>The search for a free cluster\<close>

definition blank_result :: "('d \<Rightarrow> u32 \<Rightarrow> bytes) \<Rightarrow> 'd fatfs \<Rightarrow> u32 \<Rightarrow> u32 option \<Rightarrow> bool" where
  "blank_result content fs c res \<longleftrightarrow> (case res of
     Some k \<Rightarrow> c \<le> k \<and> cluster_ok fs k \<and> fat_link content fs k = 0 \<and>
       (\<forall>j. c \<le> j \<and> j < k \<longrightarrow> fat_link content fs j \<noteq> 0)
   | None \<Rightarrow> \<forall>j. c \<le> j \<and> cluster_ok fs j \<longrightarrow> fat_link content fs j \<noteq> 0)"

lemma blank_step:
  assumes c: "c + 1 \<noteq> 0" "fat_link content fs c \<noteq> 0" and r: "blank_result content fs (c + 1) res"
  shows "blank_result content fs c res"
proof -
  have u: "unat (c + 1) = unat c + 1" using c(1) by (metis unatSuc add.commute Suc_eq_plus1_left)
  have "c \<le> j \<longleftrightarrow> j = c \<or> c + 1 \<le> j" for j
    using u by (auto simp: word_le_nat_alt word_unat_eq_iff)
  then show ?thesis using r c(2) by (auto simp: blank_result_def split: option.splits)
qed

lemma find_blank_ok:
  assumes "fat_ok content fs"
  shows "\<exists>res fs'. fatfs_find_blank_cluster fs c = Some (res, fs') \<and> fat_ok content fs' \<and> same_volume fs fs' \<and>
     (\<forall>l. l \<noteq> FAT32_INVALID_CLUSTER \<longrightarrow> fat_view content fs' l = fat_view content fs l) \<and> blank_result content fs c res"
  using assms
proof (induction "unat (fat_sectors fs) * entries_per_sector (fat_type fs) - unat c" arbitrary: fs c rule: less_induct)
  case less
  note ok = less.prems and inv = fat_ok_inv [OF less.prems]
  let ?t = "fat_type fs" and ?l = "fat_begin_lba fs + fat_sector_offset (fat_type fs) c"
  show ?case
  proof (cases "cluster_ok fs c")
    case False
    then have "fatfs_find_blank_cluster fs c = Some (None, fs)"
      by (subst fatfs_find_blank_cluster.simps) (simp add: cluster_ok_iff)
    moreover have "blank_result content fs c None"
      using False by (auto simp: blank_result_def cluster_ok_def word_le_nat_alt)
    ultimately show ?thesis using ok by auto
  next
    case True
    obtain i fs1 where rs: "fatfs_fat_read_sector fs ?l = Some (Some i, fs1)" "fat_read content fs ?l (Some i) fs1"
      using read_ok [OF ok entry_lba(3) [OF inv True]] by blast
    have b: "bptr (fat_buffers fs1 ! i) = 0" "bsector (fat_buffers fs1 ! i) = fat_view content fs ?l"
      and same: "same_volume fs fs1" and ok1: "fat_ok content fs1"
      and view: "\<And>l. l \<noteq> FAT32_INVALID_CLUSTER \<Longrightarrow> fat_view content fs1 l = fat_view content fs l"
      using rs(2) fat_ok_same [OF ok] by (auto simp: fat_read_def)
    have run: "fatfs_find_blank_cluster fs c =
        (if fat_link content fs c \<noteq> 0 then fatfs_find_blank_cluster fs1 (c + 1) else Some (Some c, fs1))"
      using rs(1) b True same_volume_fields(3) [OF same]
      by (subst fatfs_find_blank_cluster.simps)
        (simp add: cluster_ok_iff Let_def fat_link_def link_of_zero raw_entry_def
          FAT16_GET_16BIT_WORD_def FAT32_GET_32BIT_WORD_def split: tFatType.splits)
    show ?thesis
    proof (cases "fat_link content fs c = 0")
      case z: True
      then have "blank_result content fs c (Some c)" using True by (auto simp: blank_result_def)
      then show ?thesis using run z ok1 same view by auto
    next
      case nz: False
      have "unat c < unat (link_limit ?t)" using True ok by (simp add: cluster_ok_def fat_ok_def)
      then have lim: "unat c + 1 < 2 ^ 32" by (simp add: link_limit_def split: tFatType.splits)
      then have u: "unat (c + 1) = unat c + 1" using unat_Suc_u32 [of c] by simp
      have lt: "unat (fat_sectors fs1) * entries_per_sector (fat_type fs1) - unat (c + 1)
          < unat (fat_sectors fs) * entries_per_sector ?t - unat c"
        using True u same by (simp add: cluster_ok_def same_volume_fields)
      from less.hyps [OF lt ok1] obtain res fs2 where r: "fatfs_find_blank_cluster fs1 (c + 1) = Some (res, fs2)" "fat_ok content fs2"
        "same_volume fs1 fs2" "\<And>l. l \<noteq> FAT32_INVALID_CLUSTER \<Longrightarrow> fat_view content fs2 l = fat_view content fs1 l"
        "blank_result content fs1 (c + 1) res"
        by blast
      have "c + 1 \<noteq> 0" using u by auto
      moreover have "blank_result content fs (c + 1) res"
      proof -
        have "cluster_ok fs j \<Longrightarrow> fat_link content fs1 j = fat_link content fs j" for j
          by (rule link_view [OF inv same _ view])
        moreover have "cluster_ok fs k \<Longrightarrow> j < k \<Longrightarrow> cluster_ok fs j" for j k
          by (simp add: cluster_ok_def word_less_nat_alt)
        ultimately show ?thesis
          using r(5) cluster_ok_same [OF same] by (auto simp: blank_result_def split: option.splits)
      qed
      ultimately have "blank_result content fs c res" by (rule blank_step [OF _ nz])
      then show ?thesis using run nz r same view same_volume_trans [OF same r(3)] by auto
    qed
  qed
qed

subsection \<open>The free-cluster hint\<close>

lemma fs_info_ok:
  assumes ok: "fat_ok content fs"
  shows "\<exists>fs'. fatfs_set_fs_info_next_free_cluster fs v = Some fs' \<and> fat_ok content fs' \<and>
     cluster_ok fs' = cluster_ok fs \<and> rootdir_first_cluster fs' = rootdir_first_cluster fs \<and> fat_type fs' = fat_type fs \<and>
     (\<forall>k. cluster_ok fs k \<longrightarrow> fat_link content fs' k = fat_link content fs k)"
proof (cases "fat_type fs")
  case FAT_TYPE_16
  then show ?thesis using ok by (simp add: fatfs_set_fs_info_next_free_cluster_def)
next
  case FAT_TYPE_32
  note inv = fat_ok_inv [OF ok]
  let ?l = "lba_begin fs + ucast (fs_info_sector fs) :: u32"
  have l: "?l \<noteq> FAT32_INVALID_CLUSTER" "\<not> in_fat fs ?l" using ok by (simp_all add: fat_ok_def)
  obtain i fs1 where rs: "fatfs_fat_read_sector fs ?l = Some (Some i, fs1)" "fat_read content fs ?l (Some i) fs1"
    using read_ok [OF ok l(1)] by blast
  let ?b = "fat_buffers fs1 ! i"
  have b: "baddress ?b = ?l" "i < length (fat_buffers fs1)" and same: "same_volume fs fs1" and inv1: "fat_inv content fs1"
    and view: "\<And>k. k \<noteq> FAT32_INVALID_CLUSTER \<Longrightarrow> fat_view content fs1 k = fat_view content fs k"
    using rs(2) by (auto simp: fat_read_def)
  have mo: "media_ok (disk_io fs1) content" using inv1 by (simp add: fat_inv_def)
  obtain wr where wr: "write_media (disk_io fs1) = Some wr" using media_ptrs [OF mo] by blast
  define b1 where "b1 = FAT32_SET_32BIT_WORD 492 v ?b"
  obtain r d where w: "wr (media fs1) ?l (bsector b1) 1 = (r, d)" by fastforce
  define b2 where "b2 = b1\<lparr>baddress := FAT32_INVALID_CLUSTER, dirty := False\<rparr>"
  define fs2 where "fs2 = fs1\<lparr>media := d, fat_buffers := (fat_buffers fs1)[i := b2]\<rparr>"
  have b1a: "baddress b1 = ?l" using b by (simp add: b1_def FAT32_SET_32BIT_WORD_def)
  have run: "fatfs_set_fs_info_next_free_cluster fs v = Some (fs2\<lparr>next_free_cluster := v\<rparr>)"
    using FAT_TYPE_32 rs(1) wr w b(2) b1a
    by (simp add: fatfs_set_fs_info_next_free_cluster_def Let_def upd_buffer_def fs2_def b2_def b1_def [symmetric])
  have same2: "same_volume fs1 fs2" by (simp add: fs2_def same_volume_def)
  have disk: "k \<noteq> ?l \<Longrightarrow> content d k = content (media fs1) k" for k using media_wr_keep [OF mo wr w] by simp
  have blen: "length (bsector b2) = 512"
    using inv1 b(2) by (simp add: fat_inv_def buffer_ok_def b2_def b1_def FAT32_SET_32BIT_WORD_def)
  have inv2: "fat_inv content fs2"
    by (rule inv_update [OF inv1 same2 b(2), of b2])
      (use blen b l(1) disk in \<open>auto simp: fs2_def buffer_ok_def b2_def\<close>)
  have view2: "fat_view content fs2 k = fat_view content fs k" if k: "k \<noteq> FAT32_INVALID_CLUSTER" "in_fat fs k" for k
  proof -
    have kl: "k \<noteq> ?l" using k l by auto
    have "fat_view content fs2 k = fat_view content fs1 k"
    proof (rule view_eqI [OF inv2 k(1)])
      show "fat_view content fs1 k = content (media fs2) k" if out: "k \<notin> baddress ` set (fat_buffers fs2)"
      proof -
        have "k \<notin> baddress ` set (fat_buffers fs1)"
        proof
          assume "k \<in> baddress ` set (fat_buffers fs1)"
          then obtain j where "j < length (fat_buffers fs1)" "k = baddress (fat_buffers fs1 ! j)" by (auto simp: in_set_conv_nth)
          moreover from this have "j \<noteq> i" using kl b by metis
          ultimately have "j < length (fat_buffers fs2)" "k = baddress (fat_buffers fs2 ! j)" by (simp_all add: fs2_def)
          then show False using out nth_mem by blast
        qed
        then show ?thesis using view_out [of k fs1 content] disk [OF kl] by (simp add: fs2_def)
      qed
      show "fat_view content fs1 k = bsector (fat_buffers fs2 ! j)"
        if j: "j < length (fat_buffers fs2)" "baddress (fat_buffers fs2 ! j) = k" for j
      proof -
        have "j \<noteq> i" using j k(1) b(2) by (auto simp: fs2_def b2_def)
        then show ?thesis using j view_in [OF inv1, of j] k(1) by (simp add: fs2_def)
      qed
    qed
    then show ?thesis using view k(1) by simp
  qed
  let ?fs' = "fs2\<lparr>next_free_cluster := v\<rparr>"
  note same3 = same_volume_trans [OF same same2]
  have fields: "fat_type ?fs' = fat_type fs" "fat_sectors ?fs' = fat_sectors fs" "fat_begin_lba ?fs' = fat_begin_lba fs"
    using same3 by (simp_all add: same_volume_fields)
  have v': "fat_view content ?fs' = fat_view content fs2" by (rule ext) (simp add: fat_view_def split: option.split)
  have "fat_ok content fs2" by (rule fat_ok_same [OF ok same3 inv2])
  then have "fat_ok content ?fs'" by (simp add: fat_ok_def fat_inv_def buffer_ok_def in_fat_def)
  moreover have "cluster_ok ?fs' = cluster_ok fs" by (simp add: cluster_ok_def fields fun_eq_iff)
  moreover have "fat_link content ?fs' k = fat_link content fs k" if "cluster_ok fs k" for k
    using view2 [OF entry_lba(3) [OF inv that] entry_lba(2) [OF inv that]] by (simp add: fat_link_def raw_entry_def fields v')
  ultimately show ?thesis using run same3 by (auto simp: same_volume_fields)
qed

end
