(* ===== verification/FatAlloc.thy ===== *)
theory FatAlloc
  imports FatTable
begin

text \<open>
  Allocation of clusters: the first half of \<open>drivers/fs/fat32/fat_write.c\<close>. The pointer argument
  \<open>startCluster\<close> is passed by value and its final content returned next to the result.
\<close>

text \<open>The loop of \<open>fatfs_add_free_space\<close>, with the number of clusters still to add.\<close>

primrec add_space_loop :: "nat \<Rightarrow> 'd fatfs \<Rightarrow> bool \<Rightarrow> u32 \<Rightarrow> u32 \<Rightarrow> (int \<times> u32 \<times> 'd fatfs) option" where
  "add_space_loop 0 fs first startCluster start = Some (1, startCluster, fs)"
| "add_space_loop (Suc n) fs first startCluster start = do {
     (blank, fs) \<leftarrow> fatfs_find_blank_cluster fs (rootdir_first_cluster fs);
     case blank of
       None \<Rightarrow> Some (0, startCluster, fs)
     | Some nextcluster \<Rightarrow> do {
         (_, fs) \<leftarrow> fatfs_fat_set_cluster fs start nextcluster;
         (_, fs) \<leftarrow> fatfs_fat_set_cluster fs nextcluster FAT32_LAST_CLUSTER;
         add_space_loop n fs False (if first then nextcluster else startCluster) nextcluster
       }
   }"

definition forget_hint :: "'d fatfs \<Rightarrow> 'd fatfs option" where
  "forget_hint fs = (if next_free_cluster fs \<noteq> FAT32_LAST_CLUSTER
                     then fatfs_set_fs_info_next_free_cluster fs FAT32_LAST_CLUSTER else Some fs)"

definition fatfs_add_free_space :: "'d fatfs \<Rightarrow> u32 \<Rightarrow> u32 \<Rightarrow> (int \<times> u32 \<times> 'd fatfs) option" where
  "fatfs_add_free_space fs startCluster clusters = do {
     fs \<leftarrow> forget_hint fs;
     add_space_loop (unat clusters) fs True startCluster startCluster
   }"

definition fatfs_allocate_free_space :: "'d fatfs \<Rightarrow> bool \<Rightarrow> u32 \<Rightarrow> u32 \<Rightarrow> (int \<times> u32 \<times> 'd fatfs) option" where
  "fatfs_allocate_free_space fs newFile startCluster sz =
     (if sz = 0 then Some (0, startCluster, fs)
      else do {
        fs \<leftarrow> forget_hint fs;
        let clusterSize = ucast (sectors_per_cluster fs) * FAT_SECTOR_SIZE;
        if clusterSize = 0 then None
        else do {
          let clusterCount = sz div clusterSize;
          let clusterCount = (if sz - clusterSize * clusterCount \<noteq> 0 then clusterCount + 1 else clusterCount);
          if newFile then do {
            (blank, fs) \<leftarrow> fatfs_find_blank_cluster fs (rootdir_first_cluster fs);
            case blank of
              None \<Rightarrow> Some (0, startCluster, fs)
            | Some nextcluster \<Rightarrow>
                if clusterCount = 1 then do {
                  (_, fs) \<leftarrow> fatfs_fat_set_cluster fs nextcluster FAT32_LAST_CLUSTER;
                  Some (1, nextcluster, fs)
                }
                else do {
                  (r, _, fs) \<leftarrow> fatfs_add_free_space fs nextcluster clusterCount;
                  Some (if r = 0 then 0 else 1, startCluster, fs)
                }
          }
          else do {
            (r, _, fs) \<leftarrow> fatfs_add_free_space fs startCluster clusterCount;
            Some (if r = 0 then 0 else 1, startCluster, fs)
          }
        }
      })"

end
