(* ===== verification/FatChains.thy ===== *)
theory FatChains
  imports FatEntries FatAlloc
begin

text \<open>
  Cluster chains. The operations that follow, free and extend chains use the table only through
  finding the next cluster, setting an entry and searching a blank one; the locales below state
  those contracts and prove the chain operations against them, once for both FAT types. The
  interpretations discharge the contracts with the buffered table of \<open>fat_table.c\<close>.
\<close>

fun fat_chain :: "(u32 \<Rightarrow> u32) \<Rightarrow> u32 \<Rightarrow> u32 list \<Rightarrow> bool" where
  "fat_chain lnk c [] \<longleftrightarrow> c = FAT32_LAST_CLUSTER"
| "fat_chain lnk c (x # xs) \<longleftrightarrow> c = x \<and> x \<noteq> FAT32_LAST_CLUSTER \<and> x \<noteq> 0 \<and> fat_chain lnk (lnk x) xs"

lemma fat_chain_unique: "fat_chain lnk c xs \<Longrightarrow> fat_chain lnk c ys \<Longrightarrow> xs = ys"
proof (induction xs arbitrary: c ys)
  case Nil
  then show ?case by (cases ys) auto
next
  case (Cons x xs)
  then show ?case by (cases ys) auto
qed

lemma fat_chain_suffix: "fat_chain lnk c (us @ x # vs) \<Longrightarrow> fat_chain lnk x (x # vs)"
  by (induction us arbitrary: c) auto

lemma fat_chain_distinct: "fat_chain lnk c xs \<Longrightarrow> distinct xs"
proof (induction xs arbitrary: c)
  case (Cons x xs)
  have "x \<notin> set xs"
  proof
    assume "x \<in> set xs"
    then obtain us vs where xs: "xs = us @ x # vs" by (meson split_list)
    have "fat_chain lnk x (x # vs)" using fat_chain_suffix [of lnk "lnk x" us x vs] Cons.prems xs by simp
    moreover have "fat_chain lnk x (x # xs)" using Cons.prems by simp
    ultimately have "xs = vs" using fat_chain_unique by blast
    then show False using xs by (metis length_append length_Cons add_Suc_right less_irrefl less_add_Suc2)
  qed
  then show ?case using Cons by auto
qed simp

lemma fat_chain_cong: "(\<And>x. x \<in> set xs \<Longrightarrow> lnk x = lnk' x) \<Longrightarrow> fat_chain lnk c xs = fat_chain lnk' c xs"
  by (induction xs arbitrary: c) auto

lemma fat_chain_used: "fat_chain lnk c xs \<Longrightarrow> x \<in> set xs \<Longrightarrow> lnk x \<noteq> 0 \<and> x \<noteq> 0 \<and> x \<noteq> FAT32_LAST_CLUSTER"
proof (induction xs arbitrary: c)
  case (Cons y ys)
  have "lnk y \<noteq> 0" using Cons.prems(1) by (cases ys) (auto simp: FAT32_LAST_CLUSTER_def)
  then show ?case using Cons by auto
qed simp

lemma fat_chain_extend:
  assumes "fat_chain lnk c xs" "xs \<noteq> []" "new \<noteq> 0" "new \<noteq> FAT32_LAST_CLUSTER"
    and "\<And>x. x \<in> set xs \<Longrightarrow> x \<noteq> last xs \<Longrightarrow> lnk' x = lnk x" "lnk' (last xs) = new" "lnk' new = FAT32_LAST_CLUSTER"
  shows "fat_chain lnk' c (xs @ [new])"
  using assms
proof (induction xs arbitrary: c)
  case (Cons x xs)
  show ?case
  proof (cases xs)
    case Nil
    then show ?thesis using Cons.prems by simp
  next
    case (Cons y ys)
    have "x \<notin> set xs" using fat_chain_distinct [OF Cons.prems(1)] by simp
    then have "x \<noteq> last xs" using Cons by (metis last_in_set list.distinct(1))
    then show ?thesis using Cons.IH [of "lnk x"] Cons.prems Cons by simp
  qed
qed simp

subsection \<open>The contracts\<close>

locale fat_entries =
  fixes ok :: "'s \<Rightarrow> bool"
    and cluster :: "'s \<Rightarrow> u32 \<Rightarrow> bool"
    and lnk :: "'s \<Rightarrow> u32 \<Rightarrow> u32"
    and frame :: "'s \<Rightarrow> 's \<Rightarrow> bool"
    and find_next :: "'s \<Rightarrow> u32 \<Rightarrow> (u32 \<times> 's) option"
    and set_next :: "'s \<Rightarrow> u32 \<Rightarrow> u32 \<Rightarrow> (int \<times> 's) option"
  assumes find_law: "ok s \<Longrightarrow> cluster s c \<Longrightarrow> c \<noteq> 0 \<Longrightarrow>
      \<exists>s'. find_next s c = Some (lnk s c, s') \<and> ok s' \<and> frame s s' \<and> (\<forall>k. cluster s k \<longrightarrow> lnk s' k = lnk s k)"
    and set_law: "ok s \<Longrightarrow> cluster s c \<Longrightarrow> v = 0 \<or> v = FAT32_LAST_CLUSTER \<or> cluster s v \<Longrightarrow>
      \<exists>s'. set_next s c v = Some (1, s') \<and> ok s' \<and> frame s s' \<and> (\<forall>k. cluster s k \<longrightarrow> lnk s' k = (if k = c then v else lnk s k))"
    and frame_cluster: "frame s s' \<Longrightarrow> cluster s' = cluster s"
    and frame_refl: "frame s s"
    and frame_trans: "frame s s' \<Longrightarrow> frame s' s'' \<Longrightarrow> frame s s''"
    and cluster_last: "ok s \<Longrightarrow> \<not> cluster s FAT32_LAST_CLUSTER"

locale chain_walk = fat_entries +
  fixes free :: "'s \<Rightarrow> u32 \<Rightarrow> (int \<times> 's) option"
    and tail :: "'s \<Rightarrow> u32 \<Rightarrow> u32 \<Rightarrow> (u32 option \<times> 's) option"
    and append_cluster :: "'s \<Rightarrow> u32 \<Rightarrow> u32 \<Rightarrow> (int \<times> 's) option"
  assumes free_eq: "free s c =
      (if c \<noteq> FAT32_LAST_CLUSTER \<and> c \<noteq> 0
       then Option.bind (find_next s c) (\<lambda>(n, s). Option.bind (set_next s c 0) (\<lambda>(_, s). free s n))
       else Some (1, s))"
    and tail_eq: "tail s l c =
      (if c \<noteq> FAT32_LAST_CLUSTER
       then Option.bind (find_next s c) (\<lambda>(n, s). if n = 0 then Some (None, s) else tail s c n)
       else Some (Some l, s))"
    and append_eq: "append_cluster s c v =
      (if c = FAT32_LAST_CLUSTER then Some (0, s)
       else Option.bind (tail s FAT32_LAST_CLUSTER c) (\<lambda>(t, s). case t of
         None \<Rightarrow> Some (0, s)
       | Some l \<Rightarrow> Option.bind (set_next s l v) (\<lambda>(_, s).
           Option.bind (set_next s v FAT32_LAST_CLUSTER) (\<lambda>(_, s). Some (1, s)))))"
begin

lemma free_chain:
  assumes "ok s" "fat_chain (lnk s) c cs" "\<forall>x \<in> set cs. cluster s x"
  shows "\<exists>s'. free s c = Some (1, s') \<and> ok s' \<and> frame s s' \<and>
     (\<forall>k. cluster s k \<longrightarrow> lnk s' k = (if k \<in> set cs then 0 else lnk s k))"
  using assms
proof (induction cs arbitrary: s c)
  case Nil
  then show ?case by (subst free_eq) (auto intro: frame_refl)
next
  case (Cons x xs)
  have x: "c = x" "x \<noteq> FAT32_LAST_CLUSTER" "x \<noteq> 0" "cluster s x" and ch: "fat_chain (lnk s) (lnk s x) xs" using Cons.prems by auto
  have nx: "x \<notin> set xs" using fat_chain_distinct [OF Cons.prems(2)] by simp
  obtain s1 where f: "find_next s x = Some (lnk s x, s1)" "ok s1" "frame s s1" "\<forall>k. cluster s k \<longrightarrow> lnk s1 k = lnk s k"
    using find_law [OF Cons.prems(1) x(4,3)] by blast
  have cl1: "cluster s1 = cluster s" by (rule frame_cluster [OF f(3)])
  obtain s2 where g: "set_next s1 x 0 = Some (1, s2)" "ok s2" "frame s1 s2"
    "\<forall>k. cluster s k \<longrightarrow> lnk s2 k = (if k = x then 0 else lnk s1 k)"
    using set_law [OF f(2), of x 0] x(4) cl1 by auto
  have cl2: "cluster s2 = cluster s" using frame_cluster [OF g(3)] cl1 by simp
  have "lnk s2 k = lnk s k" if "k \<in> set xs" for k using that g(4) f(4) nx Cons.prems(3) by auto
  then have "fat_chain (lnk s2) (lnk s x) xs" using ch fat_chain_cong [of xs "lnk s2" "lnk s"] by blast
  then obtain s' where h: "free s2 (lnk s x) = Some (1, s')" "ok s'" "frame s2 s'"
    "\<forall>k. cluster s2 k \<longrightarrow> lnk s' k = (if k \<in> set xs then 0 else lnk s2 k)"
    using Cons.IH [OF g(2), of "lnk s x"] Cons.prems(3) cl2 by auto
  have "free s c = Some (1, s')" using x f(1) g(1) h(1) by (subst free_eq) simp
  moreover have "frame s s'" using f(3) g(3) h(3) frame_trans by blast
  ultimately show ?case using h(2,4) g(4) f(4) cl2 by auto
qed

lemma tail_chain:
  assumes "ok s" "fat_chain (lnk s) c cs" "\<forall>x \<in> set cs. cluster s x"
  shows "\<exists>s'. tail s l c = Some (Some (if cs = [] then l else last cs), s') \<and> ok s' \<and> frame s s' \<and>
     (\<forall>k. cluster s k \<longrightarrow> lnk s' k = lnk s k)"
  using assms
proof (induction cs arbitrary: s c l)
  case Nil
  then show ?case by (subst tail_eq) (auto intro: frame_refl)
next
  case (Cons x xs)
  have x: "c = x" "x \<noteq> FAT32_LAST_CLUSTER" "x \<noteq> 0" "cluster s x" and ch: "fat_chain (lnk s) (lnk s x) xs" using Cons.prems by auto
  have nz: "lnk s x \<noteq> 0" using fat_chain_used [OF Cons.prems(2), of x] by simp
  obtain s1 where f: "find_next s x = Some (lnk s x, s1)" "ok s1" "frame s s1" "\<forall>k. cluster s k \<longrightarrow> lnk s1 k = lnk s k"
    using find_law [OF Cons.prems(1) x(4,3)] by blast
  have cl: "cluster s1 = cluster s" by (rule frame_cluster [OF f(3)])
  have "fat_chain (lnk s1) (lnk s x) xs" using ch fat_chain_cong [of xs "lnk s1" "lnk s"] f(4) Cons.prems(3) by auto
  then obtain s' where h: "tail s1 x (lnk s x) = Some (Some (if xs = [] then x else last xs), s')" "ok s'" "frame s1 s'"
    "\<forall>k. cluster s1 k \<longrightarrow> lnk s' k = lnk s1 k"
    using Cons.IH [OF f(2), of "lnk s x" x] Cons.prems(3) cl by auto
  have "tail s l c = Some (Some (last (x # xs)), s')" using x f(1) h(1) nz by (subst tail_eq) simp
  then show ?case using h(2,4) f(4) cl frame_trans [OF f(3) h(3)] by auto
qed

lemma append_chain:
  assumes ok: "ok s" and ch: "fat_chain (lnk s) c cs" "cs \<noteq> []" "\<forall>x \<in> set cs. cluster s x"
    and v: "cluster s v" "v \<noteq> 0" "v \<notin> set cs"
  shows "\<exists>s'. append_cluster s c v = Some (1, s') \<and> ok s' \<and> frame s s' \<and> fat_chain (lnk s') c (cs @ [v]) \<and>
     (\<forall>k. cluster s k \<and> k \<noteq> v \<and> k \<noteq> last cs \<longrightarrow> lnk s' k = lnk s k)"
proof -
  have lst: "cluster s (last cs)" using ch by simp
  have vl: "v \<noteq> FAT32_LAST_CLUSTER" using v(1) cluster_last [OF ok] by auto
  obtain s1 where t: "tail s FAT32_LAST_CLUSTER c = Some (Some (last cs), s1)" "ok s1" "frame s s1" "\<forall>k. cluster s k \<longrightarrow> lnk s1 k = lnk s k"
    using tail_chain [OF ok ch(1,3), of FAT32_LAST_CLUSTER] ch(2) by auto
  have cl1: "cluster s1 = cluster s" by (rule frame_cluster [OF t(3)])
  obtain s2 where a: "set_next s1 (last cs) v = Some (1, s2)" "ok s2" "frame s1 s2"
    "\<forall>k. cluster s k \<longrightarrow> lnk s2 k = (if k = last cs then v else lnk s1 k)"
    using set_law [OF t(2), of "last cs" v] lst v(1) cl1 by auto
  have cl2: "cluster s2 = cluster s" using frame_cluster [OF a(3)] cl1 by simp
  obtain s3 where b: "set_next s2 v FAT32_LAST_CLUSTER = Some (1, s3)" "ok s3" "frame s2 s3"
    "\<forall>k. cluster s k \<longrightarrow> lnk s3 k = (if k = v then FAT32_LAST_CLUSTER else lnk s2 k)"
    using set_law [OF a(2), of v FAT32_LAST_CLUSTER] v(1) cl2 by auto
  have c: "c \<noteq> FAT32_LAST_CLUSTER" using ch(1,2) by (cases cs) auto
  have "append_cluster s c v = Some (1, s3)" using c t(1) a(1) b(1) by (simp add: append_eq)
  moreover have "fat_chain (lnk s3) c (cs @ [v])"
  proof (rule fat_chain_extend [OF ch(1,2) v(2) vl])
    show "lnk s3 x = lnk s x" if "x \<in> set cs" "x \<noteq> last cs" for x
      using that ch(3) b(4) a(4) t(4) v(3) by auto
    show "lnk s3 (last cs) = v" using b(4) a(4) lst v(3) ch(2) by (auto dest: last_in_set)
    show "lnk s3 v = FAT32_LAST_CLUSTER" using b(4) v(1) by simp
  qed
  moreover have "frame s s3" using t(3) a(3) b(3) frame_trans by blast
  ultimately show ?thesis using b(2,4) a(4) t(4) by auto
qed

end

locale fat_space = fat_entries +
  fixes blank :: "'s \<Rightarrow> (u32 option \<times> 's) option"
    and grow :: "nat \<Rightarrow> 's \<Rightarrow> bool \<Rightarrow> u32 \<Rightarrow> u32 \<Rightarrow> (int \<times> u32 \<times> 's) option"
    and searched :: "'s \<Rightarrow> u32 \<Rightarrow> bool"
  assumes blank_law: "ok s \<Longrightarrow> \<exists>res s'. blank s = Some (res, s') \<and> ok s' \<and> frame s s' \<and>
      (\<forall>k. cluster s k \<longrightarrow> lnk s' k = lnk s k) \<and>
      (case res of Some k \<Rightarrow> cluster s k \<and> lnk s k = 0
       | None \<Rightarrow> \<forall>k. cluster s k \<and> searched s k \<longrightarrow> lnk s k \<noteq> 0)"
    and frame_searched: "frame s s' \<Longrightarrow> searched s' = searched s"
    and grow_0: "grow 0 s first sc start = Some (1, sc, s)"
    and grow_Suc: "grow (Suc n) s first sc start = Option.bind (blank s) (\<lambda>(b, s). case b of
         None \<Rightarrow> Some (0, sc, s)
       | Some k \<Rightarrow> Option.bind (set_next s start k) (\<lambda>(_, s).
           Option.bind (set_next s k FAT32_LAST_CLUSTER) (\<lambda>(_, s).
             grow n s False (if first then k else sc) k)))"
begin

text \<open>
  Growing a chain by \<open>n\<close> clusters: the chain gets a suffix of clusters that were free, no other
  entry changes, and the result is 0 only when fewer than \<open>n\<close> were free.
\<close>

definition grown :: "'s \<Rightarrow> u32 \<Rightarrow> u32 list \<Rightarrow> nat \<Rightarrow> int \<Rightarrow> 's \<Rightarrow> u32 list \<Rightarrow> bool" where
  "grown s c cs n r s' new \<longleftrightarrow> ok s' \<and> frame s s' \<and> fat_chain (lnk s') c (cs @ new) \<and>
     (\<forall>x \<in> set new. cluster s x \<and> lnk s x = 0) \<and>
     (\<forall>k. cluster s k \<and> k \<notin> set new \<and> k \<noteq> last cs \<longrightarrow> lnk s' k = lnk s k) \<and>
     (if r = 0 then length new < n \<and> (\<forall>k. cluster s k \<and> searched s k \<and> k \<notin> set new \<longrightarrow> lnk s k \<noteq> 0)
      else r = 1 \<and> length new = n)"

lemma grow_chain:
  assumes "ok s" "fat_chain (lnk s) c cs" "cs \<noteq> []" "\<forall>x \<in> set cs. cluster s x" "cluster s 0" "lnk s 0 \<noteq> 0"
  shows "\<exists>r s' new. grow n s first sc (last cs) = Some (r, if first \<and> new \<noteq> [] then hd new else sc, s') \<and> grown s c cs n r s' new"
  using assms
proof (induction n arbitrary: s cs first sc)
  case 0
  then show ?case by (auto simp: grow_0 grown_def frame_refl intro!: exI [where x = "[]"])
next
  case (Suc n)
  note ok = Suc.prems(1) and ch = Suc.prems(2-4)
  obtain res s1 where b: "blank s = Some (res, s1)" "ok s1" "frame s s1" "\<forall>k. cluster s k \<longrightarrow> lnk s1 k = lnk s k"
    "case res of Some k \<Rightarrow> cluster s k \<and> lnk s k = 0 | None \<Rightarrow> \<forall>k. cluster s k \<and> searched s k \<longrightarrow> lnk s k \<noteq> 0"
    using blank_law [OF ok] by blast
  have cl1: "cluster s1 = cluster s" by (rule frame_cluster [OF b(3)])
  show ?case
  proof (cases res)
    case None
    have "fat_chain (lnk s1) c cs" using ch fat_chain_cong [of cs "lnk s1" "lnk s"] b(4) by auto
    then have "grown s c cs (Suc n) 0 s1 []" using b None by (auto simp: grown_def)
    moreover have "grow (Suc n) s first sc (last cs) = Some (0, sc, s1)" using b(1) None by (simp add: grow_Suc)
    ultimately show ?thesis by force
  next
    case (Some v)
    have v: "cluster s v" "lnk s v = 0" using b(5) Some by auto
    have v0: "v \<noteq> 0" "v \<noteq> FAT32_LAST_CLUSTER" "v \<notin> set cs"
      using v Suc.prems(6) cluster_last [OF ok] fat_chain_used [OF ch(1), of v] by auto
    have lst: "cluster s (last cs)" "last cs \<noteq> 0" using ch fat_chain_used [OF ch(1), of "last cs"] by auto
    obtain s2 where a: "set_next s1 (last cs) v = Some (1, s2)" "ok s2" "frame s1 s2"
      "\<forall>k. cluster s k \<longrightarrow> lnk s2 k = (if k = last cs then v else lnk s1 k)"
      using set_law [OF b(2), of "last cs" v] lst v(1) cl1 by auto
    have cl2: "cluster s2 = cluster s" using frame_cluster [OF a(3)] cl1 by simp
    obtain s3 where e: "set_next s2 v FAT32_LAST_CLUSTER = Some (1, s3)" "ok s3" "frame s2 s3"
      "\<forall>k. cluster s k \<longrightarrow> lnk s3 k = (if k = v then FAT32_LAST_CLUSTER else lnk s2 k)"
      using set_law [OF a(2), of v FAT32_LAST_CLUSTER] v(1) cl2 by auto
    have fr: "frame s s3" using b(3) a(3) e(3) frame_trans by blast
    have cl3: "cluster s3 = cluster s" and se: "searched s3 = searched s"
      using frame_cluster [OF fr] frame_searched [OF fr] by simp_all
    have keep: "cluster s k \<Longrightarrow> k \<noteq> v \<Longrightarrow> k \<noteq> last cs \<Longrightarrow> lnk s3 k = lnk s k" for k using e(4) a(4) b(4) by auto
    have at_last: "lnk s3 (last cs) = v" using e(4) a(4) lst v0 ch(2) by (auto dest: last_in_set)
    have ch3: "fat_chain (lnk s3) c (cs @ [v])"
      by (rule fat_chain_extend [OF ch(1,2) v0(1,2)]) (use keep at_last e(4) v ch(3) v0 in auto)
    have pre: "cs @ [v] \<noteq> []" "\<forall>x \<in> set (cs @ [v]). cluster s3 x" "cluster s3 0" "lnk s3 0 \<noteq> 0"
      using ch(3) v(1) Suc.prems(5,6) cl3 keep [of 0] v0(1) lst(2) by auto
    obtain r s' new where g: "grow n s3 False (if first then v else sc) v =
        Some (r, if False \<and> new \<noteq> [] then hd new else (if first then v else sc), s')" "grown s3 c (cs @ [v]) n r s' new"
      using Suc.IH [OF e(2) ch3 pre, of False "if first then v else sc"] by auto
    have run: "grow (Suc n) s first sc (last cs) = Some (r, if first \<and> v # new \<noteq> [] then hd (v # new) else sc, s')"
      using b(1) Some a(1) e(1) g(1) by (simp add: grow_Suc)
    have nv: "x \<noteq> v \<and> x \<noteq> last cs" if "x \<in> set new" for x
      using that g(2) e(4) v(1) lst at_last v0 by (auto simp: grown_def cl3 FAT32_LAST_CLUSTER_def)
    have "grown s c cs (Suc n) r s' (v # new)"
      unfolding grown_def
    proof (intro conjI)
      show "\<forall>x \<in> set (v # new). cluster s x \<and> lnk s x = 0"
        using g(2) v nv keep cl3 by (auto simp: grown_def)
      show "\<forall>k. cluster s k \<and> k \<notin> set (v # new) \<and> k \<noteq> last cs \<longrightarrow> lnk s' k = lnk s k"
        using g(2) keep cl3 by (auto simp: grown_def)
      have "lnk s k \<noteq> 0" if "r = 0" "cluster s k" "searched s k" "k \<notin> set (v # new)" for k
      proof (cases "k = last cs")
        case True
        then show ?thesis using fat_chain_used [OF ch(1), of k] ch(2) by auto
      next
        case False
        then show ?thesis using that g(2) keep [of k] by (auto simp: grown_def cl3 se)
      qed
      then show "if r = 0 then length (v # new) < Suc n \<and> (\<forall>k. cluster s k \<and> searched s k \<and> k \<notin> set (v # new) \<longrightarrow> lnk s k \<noteq> 0)
          else r = 1 \<and> length (v # new) = Suc n"
        using g(2) by (auto simp: grown_def split: if_splits)
    qed (use g(2) frame_trans [OF fr] in \<open>auto simp: grown_def\<close>)
    then show ?thesis using run by blast
  qed
qed

end

subsection \<open>The table of \<open>fat_table.c\<close> keeps the contracts\<close>

definition vol_frame :: "'d fatfs \<Rightarrow> 'd fatfs \<Rightarrow> bool" where
  "vol_frame fs fs' \<longleftrightarrow> cluster_ok fs' = cluster_ok fs \<and> rootdir_first_cluster fs' = rootdir_first_cluster fs \<and> fat_type fs' = fat_type fs"

lemma same_vol_frame: "same_volume fs fs' \<Longrightarrow> vol_frame fs fs'"
  by (simp add: vol_frame_def cluster_ok_same same_volume_fields)

lemma find_next_law:
  assumes "fat_ok content fs" "cluster_ok fs c" "c \<noteq> 0"
  shows "\<exists>fs'. fatfs_find_next_cluster fs c = Some (fat_link content fs c, fs') \<and> fat_ok content fs' \<and> vol_frame fs fs' \<and>
     (\<forall>k. cluster_ok fs k \<longrightarrow> fat_link content fs' k = fat_link content fs k)"
proof -
  obtain fs' where f: "fatfs_find_next_cluster fs c = Some (fat_link content fs c, fs')" "fat_ok content fs'" "same_volume fs fs'"
    "\<And>l. l \<noteq> FAT32_INVALID_CLUSTER \<Longrightarrow> fat_view content fs' l = fat_view content fs l"
    using find_next_ok [OF assms] by blast
  then show ?thesis using link_view [OF fat_ok_inv [OF assms(1)] f(3) _ f(4)] same_vol_frame by blast
qed

lemma set_next_law:
  assumes "fat_ok content fs" "cluster_ok fs c" "v = 0 \<or> v = FAT32_LAST_CLUSTER \<or> cluster_ok fs v"
  shows "\<exists>fs'. fatfs_fat_set_cluster fs c v = Some (1, fs') \<and> fat_ok content fs' \<and> vol_frame fs fs' \<and>
     (\<forall>k. cluster_ok fs k \<longrightarrow> fat_link content fs' k = (if k = c then v else fat_link content fs k))"
proof -
  have "stored_link (fat_type fs) v = v" using assms(3) stored_link_id [OF cluster_limit [OF assms(1)]] by auto
  then show ?thesis using set_cluster_ok [OF assms(1,2), of v] same_vol_frame by fastforce
qed

lemma blank_law_fat:
  assumes "fat_ok content fs"
  shows "\<exists>res fs'. fatfs_find_blank_cluster fs (rootdir_first_cluster fs) = Some (res, fs') \<and> fat_ok content fs' \<and> vol_frame fs fs' \<and>
     (\<forall>k. cluster_ok fs k \<longrightarrow> fat_link content fs' k = fat_link content fs k) \<and>
     (case res of Some k \<Rightarrow> cluster_ok fs k \<and> fat_link content fs k = 0
      | None \<Rightarrow> \<forall>k. cluster_ok fs k \<and> rootdir_first_cluster fs \<le> k \<longrightarrow> fat_link content fs k \<noteq> 0)"
proof -
  obtain res fs' where f: "fatfs_find_blank_cluster fs (rootdir_first_cluster fs) = Some (res, fs')" "fat_ok content fs'"
    "same_volume fs fs'" "\<And>l. l \<noteq> FAT32_INVALID_CLUSTER \<Longrightarrow> fat_view content fs' l = fat_view content fs l"
    "blank_result content fs (rootdir_first_cluster fs) res"
    using find_blank_ok [OF assms, of "rootdir_first_cluster fs"] by blast
  then show ?thesis
    using link_view [OF fat_ok_inv [OF assms] f(3) _ f(4)] same_vol_frame
    by (auto simp: blank_result_def split: option.splits)
qed

interpretation tab: fat_entries "fat_ok content" cluster_ok "fat_link content" vol_frame
    fatfs_find_next_cluster fatfs_fat_set_cluster for content
proof unfold_locales
  show "\<not> cluster_ok fs FAT32_LAST_CLUSTER" if "fat_ok content fs" for fs
    using cluster_not_last [OF that, of FAT32_LAST_CLUSTER] by auto
qed (rule find_next_law set_next_law; assumption | simp add: vol_frame_def)+

interpretation walk: chain_walk "fat_ok content" cluster_ok "fat_link content" vol_frame
    fatfs_find_next_cluster fatfs_fat_set_cluster fatfs_free_cluster_chain find_tail fatfs_fat_add_cluster_to_chain for content
proof unfold_locales
  show "fatfs_free_cluster_chain s c =
      (if c \<noteq> FAT32_LAST_CLUSTER \<and> c \<noteq> 0
       then Option.bind (fatfs_find_next_cluster s c)
         (\<lambda>(n, s). Option.bind (fatfs_fat_set_cluster s c 0) (\<lambda>(_, s). fatfs_free_cluster_chain s n))
       else Some (1, s))" for s :: "'a fatfs" and c
    by (subst fatfs_free_cluster_chain.simps) (rule refl)
  show "find_tail s l c =
      (if c \<noteq> FAT32_LAST_CLUSTER
       then Option.bind (fatfs_find_next_cluster s c) (\<lambda>(n, s). if n = 0 then Some (None, s) else find_tail s c n)
       else Some (Some l, s))" for s :: "'a fatfs" and l c
    by (subst find_tail.simps) (rule refl)
qed (simp add: fatfs_fat_add_cluster_to_chain_def)

interpretation space: fat_space "fat_ok content" cluster_ok "fat_link content" vol_frame
    fatfs_find_next_cluster fatfs_fat_set_cluster "\<lambda>fs. fatfs_find_blank_cluster fs (rootdir_first_cluster fs)"
    add_space_loop "\<lambda>fs k. rootdir_first_cluster fs \<le> k" for content
  by unfold_locales (erule blank_law_fat | simp add: vol_frame_def)+

end
