(* ===== verification/FatProps.thy ===== *)
theory FatProps
  imports FatChains
begin

text \<open>
  The properties of the file allocation table, and a small FAT32 volume on a memory-backed medium
  on which they are instantiated.
\<close>

lemma set_cluster_link:
  assumes "fat_ok content fs" "cluster_ok fs c" "v < link_limit (fat_type fs) \<or> v = FAT32_LAST_CLUSTER"
  shows "\<exists>fs'. fatfs_fat_set_cluster fs c v = Some (1, fs') \<and> fat_ok content fs' \<and> vol_frame fs fs' \<and>
     (\<forall>k. cluster_ok fs k \<longrightarrow> fat_link content fs' k = (if k = c then v else fat_link content fs k))"
proof -
  have "stored_link (fat_type fs) v = v" using assms(3) stored_link_id by auto
  then show ?thesis using set_cluster_ok [OF assms(1,2), of v] same_vol_frame by fastforce
qed

subsection \<open>Writing the table back\<close>




subsection \<open>A volume in memory\<close>

type_synonym ram = "u32 \<Rightarrow> bytes"

definition ram_sector :: "ram \<Rightarrow> u32 \<Rightarrow> bytes" where
  "ram_sector d l = take 512 (d l @ replicate 512 0)"

definition ram_read :: "ram \<Rightarrow> u32 \<Rightarrow> bytes \<Rightarrow> u32 \<Rightarrow> int \<times> bytes \<times> ram" where
  "ram_read d l buf n = (1, take (length buf) (concat (map (\<lambda>i. ram_sector d (l + of_nat i)) [0..<unat n]) @ buf), d)"

definition ram_write :: "ram \<Rightarrow> u32 \<Rightarrow> bytes \<Rightarrow> u32 \<Rightarrow> int \<times> ram" where
  "ram_write d l buf n = (1, \<lambda>k. if k - l < n then take 512 (drop (512 * unat (k - l)) buf) else d k)"

definition ram_io :: "ram disk_if" where
  "ram_io = \<lparr>read_media = Some ram_read, write_media = Some ram_write\<rparr>"

lemma length_ram_sector [simp]: "length (ram_sector d l) = 512"
  by (simp add: ram_sector_def)

lemma length_ram_concat: "length (concat (map (\<lambda>i. ram_sector d (f i)) [0..<n])) = 512 * n"
  by (induction n) simp_all

lemma ram_ok: "media_ok ram_io ram_sector"
proof -
  have put: "ram_sector d' (l + of_nat i) = take 512 (drop (512 * i) buf)"
    if w: "ram_write d l buf n = (r, d')" "length buf = 512 * unat n" "i < unat n" for d l buf n r d' i
  proof -
    have u: "unat (of_nat i :: u32) = i" using w(3) u32_unat_less [of n] by (simp add: unat_of_nat_u32)
    then have "(of_nat i :: u32) < n" using w(3) by (simp add: word_less_nat_alt)
    then have d': "d' (l + of_nat i) = take 512 (drop (512 * i) buf)" using w(1) u by (auto simp: ram_write_def)
    have "512 * (i + 1) \<le> length buf" using w(2,3) by simp
    then have "length (take 512 (drop (512 * i) buf)) = 512" by simp
    then show ?thesis by (simp add: ram_sector_def d')
  qed
  have keep: "ram_sector d' k = ram_sector d k"
    if w: "ram_write d l buf n = (r, d')" and k: "k \<notin> (\<lambda>i. l + of_nat i) ` {..<unat n}" for d l buf n r d' k
  proof -
    have "\<not> k - l < n"
    proof
      assume "k - l < n"
      then have "unat (k - l) < unat n" by (simp add: word_less_nat_alt)
      moreover have "k = l + of_nat (unat (k - l))" by simp
      ultimately show False using k by blast
    qed
    then show ?thesis using w by (auto simp: ram_write_def ram_sector_def)
  qed
  have rd: "content_eq \<and> length buf' = length buf \<and>
      (length buf = 512 * unat n \<longrightarrow> buf' = concat (map (\<lambda>i. ram_sector d (l + of_nat i)) [0..<unat n]))"
    if "ram_read d l buf n = (r, buf', d')" "content_eq = (ram_sector d' = ram_sector d)" for d l buf n r buf' d' content_eq
    using that length_ram_concat [of d "\<lambda>i. l + of_nat i" "unat n"] by (auto simp: ram_read_def)
  show ?thesis
    unfolding media_ok_def using put keep rd by (auto simp: ram_io_def)
qed

lemma ram_reliable: "media_reliable ram_io"
  by (auto simp: media_reliable_def ram_io_def ram_read_def ram_write_def)

text \<open>
  The FAT of the volume occupies the sectors 32 and 33; entries 0 and 1 are reserved, the root
  directory is the chain 2, 3 and every other cluster is free.
\<close>

definition demo_fat :: bytes where
  "demo_fat = SET_32BIT_WORD (SET_32BIT_WORD (SET_32BIT_WORD (SET_32BIT_WORD (replicate 512 0) 0 0x0FFFFFF8) 4 0x0FFFFFFF) 8 3) 12 0x0FFFFFFF"

definition demo :: "ram fatfs" where
  "demo = \<lparr>sectors_per_cluster = 1, cluster_begin_lba = 34, rootdir_first_cluster = 2, rootdir_first_sector = 34,
     rootdir_sectors = 0, fat_begin_lba = 32, fs_info_sector = 1, lba_begin = 0, fat_sectors = 2, next_free_cluster = 0,
     root_entry_count = 0, reserved_sectors = 32, num_of_fats = 1, fat_type = FAT_TYPE_32, disk_io = ram_io,
     media = (\<lambda>l. if l = 32 then demo_fat else []),
     currentsector = \<lparr>bsector = replicate 512 0, baddress = 0xFFFFFFFF, dirty = False, bptr = 0\<rparr>,
     fat_buffers = [\<lparr>bsector = replicate 512 0, baddress = 0xFFFFFFFF, dirty = False, bptr = 0\<rparr>]\<rparr>"

lemma demo_ok: "fat_ok ram_sector demo"
  using ram_ok ram_reliable
  by (simp add: fat_ok_def fat_inv_def demo_def separate_def buffer_ok_def entries_per_sector_def link_limit_def in_fat_def
      FAT32_INVALID_CLUSTER_def)

lemma demo_type: "fat_type demo = FAT_TYPE_32"
  by (simp add: demo_def)

lemma demo_cluster: "cluster_ok demo c \<longleftrightarrow> unat c < 256"
  by (simp add: cluster_ok_def demo_def entries_per_sector_def)

lemma demo_view: "l \<noteq> 0xFFFFFFFF \<Longrightarrow> fat_view ram_sector demo l = (if l = 32 then demo_fat else replicate 512 0)"
  by (simp add: fat_view_def demo_def FAT32_INVALID_CLUSTER_def ram_sector_def demo_fat_def)

lemma demo_links:
  "fat_link ram_sector demo 0 = FAT32_LAST_CLUSTER" "fat_link ram_sector demo 2 = 3" "fat_link ram_sector demo 3 = FAT32_LAST_CLUSTER"
  "fat_link ram_sector demo 4 = 0"
proof -
  have f: "fat_type demo = FAT_TYPE_32" "fat_begin_lba demo = 32" by (simp_all add: demo_def)
  have g: "GET_32BIT_WORD demo_fat 0 = 0x0FFFFFF8" "GET_32BIT_WORD demo_fat 8 = 3" "GET_32BIT_WORD demo_fat 12 = 0x0FFFFFFF"
    by (simp_all add: demo_fat_def GET_SET_32 GET_SET_32_other)
  have z: "GET_32BIT_WORD demo_fat 16 = 0"
    by (simp add: demo_fat_def GET_SET_32_other) (simp add: GET_32BIT_WORD_le32 le32_def)
  show "fat_link ram_sector demo 0 = FAT32_LAST_CLUSTER" "fat_link ram_sector demo 2 = 3" "fat_link ram_sector demo 3 = FAT32_LAST_CLUSTER"
    "fat_link ram_sector demo 4 = 0"
    by (simp_all add: fat_link_def raw_entry_def f fat_sector_offset_def fat_position_def demo_view g z link_of_def)
qed

lemma demo_chain: "fat_chain (fat_link ram_sector demo) 2 [2, 3]"
  using demo_links by (simp add: FAT32_LAST_CLUSTER_def)

lemma find_next_run:
  assumes "fat_ok content fs" "cluster_ok fs c" "c \<noteq> 0"
  shows "\<exists>fs'. fatfs_find_next_cluster fs c = Some (fat_link content fs c, fs')"
  using find_next_law [OF assms] by blast


subsection \<open>Properties\<close>

text \<open>
  C10: on a mounted volume over a medium that works, setting the entry of a cluster succeeds; the
  next cluster found for it is then the value written, and for every other cluster it is what it
  was before, whatever sectors the buffers hold and evict.
\<close>

theorem fat_set_find:
  assumes "fat_ok content fs" "cluster_ok fs c" "c \<noteq> 0" "v < link_limit (fat_type fs) \<or> v = FAT32_LAST_CLUSTER"
  shows "\<exists>fs1. fatfs_fat_set_cluster fs c v = Some (1, fs1) \<and> (\<exists>fs2. fatfs_find_next_cluster fs1 c = Some (v, fs2)) \<and>
     (\<forall>k. cluster_ok fs k \<and> k \<noteq> 0 \<and> k \<noteq> c \<longrightarrow>
        (\<exists>n fs2 fs3. fatfs_find_next_cluster fs k = Some (n, fs2) \<and> fatfs_find_next_cluster fs1 k = Some (n, fs3)))"
proof -
  obtain fs1 where s: "fatfs_fat_set_cluster fs c v = Some (1, fs1)" "fat_ok content fs1" "vol_frame fs fs1"
    "\<And>k. cluster_ok fs k \<Longrightarrow> fat_link content fs1 k = (if k = c then v else fat_link content fs k)"
    using set_cluster_link [OF assms(1,2,4)] by blast
  have cl: "cluster_ok fs1 = cluster_ok fs" using s(3) by (simp add: vol_frame_def)
  have "\<exists>fs2. fatfs_find_next_cluster fs1 c = Some (v, fs2)"
    using find_next_run [OF s(2), of c] s(4) [OF assms(2)] cl assms(2,3) by simp
  moreover have "\<exists>n fs2 fs3. fatfs_find_next_cluster fs k = Some (n, fs2) \<and> fatfs_find_next_cluster fs1 k = Some (n, fs3)"
    if "cluster_ok fs k" "k \<noteq> 0" "k \<noteq> c" for k
    using find_next_run [OF assms(1) that(1,2)] find_next_run [OF s(2), of k] s(4) [OF that(1)] cl that by (simp, blast)
  ultimately show ?thesis using s(1) by blast
qed

theorem fat_set_find_witness:
  "\<exists>fs1. fatfs_fat_set_cluster demo 200 4 = Some (1, fs1) \<and> (\<exists>fs2. fatfs_find_next_cluster fs1 200 = Some (4, fs2))"
proof -
  have "cluster_ok demo 200" "(200 :: u32) \<noteq> 0" "(4 :: u32) < link_limit (fat_type demo) \<or> (4 :: u32) = FAT32_LAST_CLUSTER"
    by (simp_all add: demo_cluster demo_type link_limit_def)
  from fat_set_find [OF demo_ok this] show ?thesis by blast
qed

text \<open>
  C21: the search for a blank cluster always comes back, with the first free cluster from the start
  of the search on, or with 0 exactly when every cluster from there on is in use; it changes no
  entry of the table.
\<close>

theorem find_blank_first:
  assumes "fat_ok content fs"
  shows "\<exists>res fs'. fatfs_find_blank_cluster fs c = Some (res, fs') \<and>
     (case res of
        Some k \<Rightarrow> c \<le> k \<and> cluster_ok fs k \<and> fat_link content fs k = 0 \<and> (\<forall>j. c \<le> j \<and> j < k \<longrightarrow> fat_link content fs j \<noteq> 0)
      | None \<Rightarrow> \<forall>j. c \<le> j \<and> cluster_ok fs j \<longrightarrow> fat_link content fs j \<noteq> 0) \<and>
     (\<forall>k. cluster_ok fs k \<longrightarrow> fat_link content fs' k = fat_link content fs k)"
proof -
  obtain res fs' where f: "fatfs_find_blank_cluster fs c = Some (res, fs')" "same_volume fs fs'"
    "\<And>l. l \<noteq> FAT32_INVALID_CLUSTER \<Longrightarrow> fat_view content fs' l = fat_view content fs l" "blank_result content fs c res"
    using find_blank_ok [OF assms, of c] by blast
  then show ?thesis using link_view [OF fat_ok_inv [OF assms] f(2) _ f(3)] by (auto simp: blank_result_def)
qed

theorem find_blank_first_witness:
  "\<exists>k fs'. fatfs_find_blank_cluster demo 2 = Some (Some k, fs') \<and> 2 \<le> k \<and> fat_link ram_sector demo k = 0 \<and> k \<le> 4"
proof -
  obtain res fs' where r: "fatfs_find_blank_cluster demo 2 = Some (res, fs')"
    "case res of
        Some k \<Rightarrow> 2 \<le> k \<and> cluster_ok demo k \<and> fat_link ram_sector demo k = 0 \<and> (\<forall>j. 2 \<le> j \<and> j < k \<longrightarrow> fat_link ram_sector demo j \<noteq> 0)
      | None \<Rightarrow> \<forall>j. 2 \<le> j \<and> cluster_ok demo j \<longrightarrow> fat_link ram_sector demo j \<noteq> 0"
    using find_blank_first [OF demo_ok, of 2] by blast
  have four: "(2 :: u32) \<le> 4" "cluster_ok demo 4" by (simp_all add: demo_cluster)
  obtain k where k: "res = Some k" using r(2) four demo_links(4) by (cases res) auto
  have "\<not> 4 < k" using r(2) k four(1) demo_links(4) by auto
  then show ?thesis using r k by auto
qed

text \<open>
  C6: freeing a cluster chain terminates and clears exactly the entries of its clusters.
\<close>

theorem free_chain_frees:
  assumes "fat_ok content fs" "fat_chain (fat_link content fs) c cs" "\<forall>x \<in> set cs. cluster_ok fs x"
  shows "\<exists>fs'. fatfs_free_cluster_chain fs c = Some (1, fs') \<and> fat_ok content fs' \<and>
     (\<forall>k. cluster_ok fs k \<longrightarrow> fat_link content fs' k = (if k \<in> set cs then 0 else fat_link content fs k))"
  using walk.free_chain [OF assms] by blast

theorem free_chain_frees_witness:
  "\<exists>fs'. fatfs_free_cluster_chain demo 2 = Some (1, fs') \<and> fat_link ram_sector fs' 2 = 0 \<and> fat_link ram_sector fs' 3 = 0
     \<and> fat_link ram_sector fs' 0 = FAT32_LAST_CLUSTER"
  using free_chain_frees [OF demo_ok demo_chain] demo_links(1) by (force simp: demo_cluster)

text \<open>
  C20: adding a cluster to a chain walks to its end and links the new cluster there; the chain is
  the old one with the new cluster behind it, and no other chain changes.
\<close>

theorem add_cluster_appends:
  assumes "fat_ok content fs" "fat_chain (fat_link content fs) c cs" "cs \<noteq> []" "\<forall>x \<in> set cs. cluster_ok fs x"
    and "cluster_ok fs v" "v \<noteq> 0" "v \<notin> set cs"
  shows "\<exists>fs'. fatfs_fat_add_cluster_to_chain fs c v = Some (1, fs') \<and> fat_chain (fat_link content fs') c (cs @ [v]) \<and>
     (\<forall>k. cluster_ok fs k \<and> k \<noteq> v \<and> k \<noteq> last cs \<longrightarrow> fat_link content fs' k = fat_link content fs k)"
  using walk.append_chain [OF assms] by blast

theorem add_cluster_appends_witness:
  "\<exists>fs'. fatfs_fat_add_cluster_to_chain demo 2 4 = Some (1, fs') \<and> fat_chain (fat_link ram_sector fs') 2 [2, 3, 4]"
  using add_cluster_appends [OF demo_ok demo_chain, of 4] by (auto simp: demo_cluster)

text \<open>
  C4: \<open>fatfs_add_free_space\<close> on the last cluster of a chain extends the chain by clusters that
  were free and touches no other entry. The result is 1 with exactly the requested number added;
  it is 0 only when fewer clusters than that were free from the root cluster on, and the ones
  there were have been added. The caller's start cluster becomes the first cluster added.
\<close>

theorem add_space_grows:
  assumes "fat_ok content fs" "fat_chain (fat_link content fs) c cs" "cs \<noteq> []" "\<forall>x \<in> set cs. cluster_ok fs x"
    and "cluster_ok fs 0" "fat_link content fs 0 \<noteq> 0"
  shows "\<exists>r sc fs' new. fatfs_add_free_space fs (last cs) n = Some (r, sc, fs') \<and>
     fat_chain (fat_link content fs') c (cs @ new) \<and>
     (\<forall>x. x \<in> set new \<longrightarrow> cluster_ok fs x \<and> fat_link content fs x = 0) \<and>
     (\<forall>k. cluster_ok fs k \<and> k \<notin> set new \<and> k \<noteq> last cs \<longrightarrow> fat_link content fs' k = fat_link content fs k) \<and>
     sc = (if new = [] then last cs else hd new) \<and>
     (if r = 0 then length new < unat n \<and>
        (\<forall>k. cluster_ok fs k \<and> rootdir_first_cluster fs \<le> k \<and> k \<notin> set new \<longrightarrow> fat_link content fs k \<noteq> 0)
      else r = 1 \<and> length new = unat n)"
proof -
  obtain fs0 where h: "forget_hint fs = Some fs0" "fat_ok content fs0" "cluster_ok fs0 = cluster_ok fs"
    "rootdir_first_cluster fs0 = rootdir_first_cluster fs" "\<And>k. cluster_ok fs k \<Longrightarrow> fat_link content fs0 k = fat_link content fs k"
    using fs_info_ok [OF assms(1), of FAT32_LAST_CLUSTER] assms(1) by (cases "next_free_cluster fs \<noteq> FAT32_LAST_CLUSTER") (auto simp: forget_hint_def)
  have ch: "fat_chain (fat_link content fs0) c cs"
    using assms(2,4) h(5) fat_chain_cong [of cs "fat_link content fs0" "fat_link content fs"] by auto
  obtain r fs' new where g: "add_space_loop (unat n) fs0 True (last cs) (last cs) = Some (r, if True \<and> new \<noteq> [] then hd new else last cs, fs')"
    and gr: "space.grown content fs0 c cs (unat n) r fs' new"
    using space.grow_chain [OF h(2) ch assms(3), of "unat n" True "last cs"] assms(4-6) h(3,5) by auto
  then show ?thesis
    using h by (intro exI [of _ r] exI [of _ "if new = [] then last cs else hd new"] exI [of _ fs'] exI [of _ new])
      (auto simp: fatfs_add_free_space_def space.grown_def)
qed

theorem add_space_grows_witness:
  "\<exists>r sc fs' new. fatfs_add_free_space demo 3 2 = Some (r, sc, fs') \<and> fat_chain (fat_link ram_sector fs') 2 ([2, 3] @ new)"
  using add_space_grows [OF demo_ok demo_chain, of 2] demo_links(1) by (fastforce simp: demo_cluster FAT32_LAST_CLUSTER_def)



end
