(* ===== verification/Clock.thy ===== *)
theory Clock
  imports Prelude "HOL-Library.Signed_Division"
begin

text \<open>
  Wall-clock time: \<open>drivers/time/clock.c\<close>. The CMOS clock behind \<open>get_RTC_register\<close> is a
  parameter, the function from register numbers to their content. The C \<open>int\<close> and \<open>long\<close> of the
  source are 32 bit words read as signed numbers; \<open>time\<close> relies on their wrap-around.
\<close>

type_synonym rtc = "nat \<Rightarrow> u8"

record TIME =
  t_h :: i32
  t_m :: i32
  t_s :: i32
  t_y :: i32
  t_mo :: i32
  t_d :: i32

record tm =
  tm_sec :: i32
  tm_min :: i32
  tm_hour :: i32
  tm_mday :: i32
  tm_mon :: i32
  tm_year :: i32
  tm_wday :: i32
  tm_yday :: i32
  tm_isdst :: i32

text \<open>C division and remainder on \<open>int\<close>: truncation towards zero.\<close>

definition c_div :: "i32 \<Rightarrow> i32 \<Rightarrow> i32" where
  "c_div a b = word_of_int (sint a sdiv sint b)"

definition c_mod :: "i32 \<Rightarrow> i32 \<Rightarrow> i32" where
  "c_mod a b = word_of_int (sint a smod sint b)"

text \<open>One binary coded decimal register.\<close>

definition from_bcd :: "u8 \<Rightarrow> i32" where
  "from_bcd r = (ucast r AND 0x0F) + (ucast r div 16) * 10"

definition get_time :: "rtc \<Rightarrow> TIME" where
  "get_time get_RTC_register =
     (let hour = ucast (get_RTC_register 4) :: i32;
          hour = ((hour AND 0x0F) + ((hour AND 0x70) div 16) * 10) OR (hour AND 0x80)
      in \<lparr>t_h = hour + 2,
          t_m = from_bcd (get_RTC_register 2),
          t_s = from_bcd (get_RTC_register 0),
          t_y = from_bcd (get_RTC_register 9),
          t_mo = from_bcd (get_RTC_register 8),
          t_d = from_bcd (get_RTC_register 7)\<rparr>)"

definition time :: "rtc \<Rightarrow> i32" where
  "time get_RTC_register =
     (let t = get_time get_RTC_register in
      (t_y t - 1970) * 31536000 + (t_mo t - 1) * 2592000 + (t_d t - 1) * 86400
      + t_h t * 3600 + t_m t * 60 + t_s t)"

definition localtime :: "i32 \<Rightarrow> tm" where
  "localtime current_time =
     \<lparr>tm_sec = c_mod current_time 60,
      tm_min = c_mod (c_div current_time 60) 60,
      tm_hour = c_mod (c_div current_time 3600) 24,
      tm_mday = c_mod (c_div current_time 86400) 31 + 1,
      tm_mon = c_mod (c_div current_time 2592000) 12 + 1,
      tm_year = 1970 + c_div current_time 31536000,
      tm_wday = 0, tm_yday = 0, tm_isdst = 0\<rparr>"

text \<open>
  The day of the week \<open>print_date\<close> prints: the index into its table of names that starts on
  Monday, from the days elapsed in the year.
\<close>

definition days_in_month :: "nat list" where
  "days_in_month = [31, 28, 31, 30, 31, 30, 31, 31, 30, 31, 30, 31]"

definition print_date_day :: "TIME \<Rightarrow> nat" where
  "print_date_day t =
     (sum_list (map (\<lambda>i. days_in_month ! i) [0..<unat (t_mo t) - 1]) + unat (t_d t)) mod 7"

end
