(* ===== verification/FatMisc.thy ===== *)
theory FatMisc
  imports FatDefs Clock
begin

text \<open>
  Directory entries, long file names and FAT dates: \<open>drivers/fs/fat32/fat_misc.c\<close>. A directory
  entry is 32 packed bytes; \<open>entry_of_bytes\<close> and \<open>bytes_of_entry\<close> are the overlay of the
  structure on them. A file name is the list of its characters without the terminator.
\<close>

record fat_dir_entry =
  Name :: bytes
  Attr :: u8
  NTRes :: u8
  CrtTimeTenth :: u8
  CrtTime :: "u8 \<times> u8"
  CrtDate :: "u8 \<times> u8"
  LstAccDate :: "u8 \<times> u8"
  FstClusHI :: u16
  WrtTime :: "u8 \<times> u8"
  WrtDate :: "u8 \<times> u8"
  FstClusLO :: u16
  FileSize :: u32

definition entry_of_bytes :: "bytes \<Rightarrow> fat_dir_entry" where
  "entry_of_bytes b =
     \<lparr>Name = take 11 b, Attr = b ! 11, NTRes = b ! 12, CrtTimeTenth = b ! 13, CrtTime = (b ! 14, b ! 15),
      CrtDate = (b ! 16, b ! 17), LstAccDate = (b ! 18, b ! 19), FstClusHI = le16 (b ! 20) (b ! 21),
      WrtTime = (b ! 22, b ! 23), WrtDate = (b ! 24, b ! 25), FstClusLO = le16 (b ! 26) (b ! 27),
      FileSize = le32 (b ! 28) (b ! 29) (b ! 30) (b ! 31)\<rparr>"

definition bytes_of_entry :: "fat_dir_entry \<Rightarrow> bytes" where
  "bytes_of_entry e = Name e @
     [Attr e, NTRes e, CrtTimeTenth e, fst (CrtTime e), snd (CrtTime e), fst (CrtDate e), snd (CrtDate e),
      fst (LstAccDate e), snd (LstAccDate e), ucast (FstClusHI e), ucast (drop_bit 8 (FstClusHI e)),
      fst (WrtTime e), snd (WrtTime e), fst (WrtDate e), snd (WrtDate e),
      ucast (FstClusLO e), ucast (drop_bit 8 (FstClusLO e)),
      byte 0 (FileSize e), byte 1 (FileSize e), byte 2 (FileSize e), byte 3 (FileSize e)]"

definition MAX_LONGFILENAME_ENTRIES :: nat where "MAX_LONGFILENAME_ENTRIES = 20"
definition MAX_LFN_ENTRY_LENGTH :: nat where "MAX_LFN_ENTRY_LENGTH = 13"
definition FILE_ATTR_VOLUME_ID :: u8 where "FILE_ATTR_VOLUME_ID = 0x08"
definition FILE_ATTR_SYSHID :: u8 where "FILE_ATTR_SYSHID = 0x06"
definition FILE_ATTR_LFN_TEXT :: u8 where "FILE_ATTR_LFN_TEXT = 0x0F"
definition FILE_HEADER_BLANK :: u8 where "FILE_HEADER_BLANK = 0"
definition FILE_HEADER_DELETED :: u8 where "FILE_HEADER_DELETED = 0xE5"
definition FILE_TYPE_DIR :: u8 where "FILE_TYPE_DIR = 0x10"
definition FILE_TYPE_FILE :: u8 where "FILE_TYPE_FILE = 0x20"

subsection \<open>The long file name cache\<close>

record lfn_cache =
  String :: "bytes list"
  Null :: u8
  no_of_strings :: u8

definition fatfs_lfn_cache_init :: "lfn_cache \<Rightarrow> bool \<Rightarrow> lfn_cache" where
  "fatfs_lfn_cache_init lfn wipeTable =
     (let lfn = lfn\<lparr>no_of_strings := 0\<rparr> in
      if wipeTable then lfn\<lparr>String := replicate MAX_LONGFILENAME_ENTRIES (replicate MAX_LFN_ENTRY_LENGTH 0)\<rparr> else lfn)"

text \<open>The bytes of an entry that hold the 13 characters (the low bytes of the UCS-2 units).\<close>

definition nameIndexes :: "nat list" where
  "nameIndexes = [1, 3, 5, 7, 9, 0x0E, 0x10, 0x12, 0x14, 0x16, 0x18, 0x1C, 0x1E]"

definition fatfs_lfn_cache_entry :: "lfn_cache \<Rightarrow> bytes \<Rightarrow> lfn_cache" where
  "fatfs_lfn_cache_entry lfn entryBuffer =
     (let LFNIndex = unat (entryBuffer ! 0 AND 0x1F) in
      if LFNIndex > MAX_LONGFILENAME_ENTRIES then lfn
      else if LFNIndex = 0 then lfn
      else
        (let lfn = (if no_of_strings lfn = 0 then lfn\<lparr>no_of_strings := of_nat LFNIndex\<rparr> else lfn);
             text = map (\<lambda>i. entryBuffer ! i) nameIndexes;
             text = map (\<lambda>c. if c = 0xFF then 0x20 else c) text
         in lfn\<lparr>String := (String lfn)[LFNIndex - 1 := text]\<rparr>))"

text \<open>
  The name is the C string at the start of the table, which runs on into the fields behind it.
\<close>

definition fatfs_lfn_cache_get :: "lfn_cache \<Rightarrow> bytes \<times> lfn_cache" where
  "fatfs_lfn_cache_get lfn =
     (let lfn = (if unat (no_of_strings lfn) = MAX_LONGFILENAME_ENTRIES then lfn\<lparr>Null := 0\<rparr>
                 else if no_of_strings lfn \<noteq> 0
                 then lfn\<lparr>String := (String lfn)[unat (no_of_strings lfn) := (String lfn ! unat (no_of_strings lfn))[0 := 0]]\<rparr>
                 else lfn\<lparr>String := (String lfn)[0 := (String lfn ! 0)[0 := 0]]\<rparr>)
      in (takeWhile (\<lambda>c. c \<noteq> 0) (concat (String lfn) @ [Null lfn, no_of_strings lfn]), lfn))"

subsection \<open>Kinds of entries\<close>

definition fatfs_entry_lfn_text :: "fat_dir_entry \<Rightarrow> bool" where
  "fatfs_entry_lfn_text entry \<longleftrightarrow> Attr entry AND FILE_ATTR_LFN_TEXT = FILE_ATTR_LFN_TEXT"

definition fatfs_entry_lfn_invalid :: "fat_dir_entry \<Rightarrow> bool" where
  "fatfs_entry_lfn_invalid entry \<longleftrightarrow>
     Name entry ! 0 = FILE_HEADER_BLANK \<or> Name entry ! 0 = FILE_HEADER_DELETED \<or>
     Attr entry = FILE_ATTR_VOLUME_ID \<or> Attr entry AND FILE_ATTR_SYSHID \<noteq> 0"

definition fatfs_entry_sfn_only :: "fat_dir_entry \<Rightarrow> bool" where
  "fatfs_entry_sfn_only entry \<longleftrightarrow>
     Attr entry \<noteq> FILE_ATTR_LFN_TEXT \<and> Name entry ! 0 \<noteq> FILE_HEADER_BLANK \<and>
     Name entry ! 0 \<noteq> FILE_HEADER_DELETED \<and> Attr entry \<noteq> FILE_ATTR_VOLUME_ID \<and>
     \<not> (Attr entry AND FILE_ATTR_SYSHID \<noteq> 0)"

definition fatfs_entry_lfn_exists :: "lfn_cache \<Rightarrow> fat_dir_entry \<Rightarrow> bool" where
  "fatfs_entry_lfn_exists lfn entry \<longleftrightarrow>
     Attr entry \<noteq> FILE_ATTR_LFN_TEXT \<and> Name entry ! 0 \<noteq> FILE_HEADER_BLANK \<and>
     Name entry ! 0 \<noteq> FILE_HEADER_DELETED \<and> Attr entry \<noteq> FILE_ATTR_VOLUME_ID \<and>
     \<not> (Attr entry AND FILE_ATTR_SYSHID \<noteq> 0) \<and> no_of_strings lfn \<noteq> 0"

definition fatfs_entry_is_dir :: "fat_dir_entry \<Rightarrow> bool" where
  "fatfs_entry_is_dir entry \<longleftrightarrow> Attr entry AND FILE_TYPE_DIR \<noteq> 0"

definition fatfs_entry_is_file :: "fat_dir_entry \<Rightarrow> bool" where
  "fatfs_entry_is_file entry \<longleftrightarrow> Attr entry AND FILE_TYPE_FILE \<noteq> 0"

subsection \<open>Writing entries\<close>

definition fatfs_lfn_entries_required :: "bytes \<Rightarrow> nat" where
  "fatfs_lfn_entries_required filename =
     (if length filename \<noteq> 0 then (length filename + MAX_LFN_ENTRY_LENGTH - 1) div MAX_LFN_ENTRY_LENGTH else 0)"

text \<open>One step of the copying loop of \<open>fatfs_filename_to_lfn\<close>.\<close>

definition lfn_put :: "bytes \<Rightarrow> nat \<Rightarrow> nat \<Rightarrow> bytes \<Rightarrow> bytes" where
  "lfn_put filename start i buffer =
     (let p = nameIndexes ! i in
      if start + i < length filename then buffer[p := filename ! (start + i)]
      else if start + i = length filename then buffer[p := 0]
      else buffer[p := 0xFF, p + 1 := 0xFF])"

definition fatfs_filename_to_lfn :: "bytes \<Rightarrow> nat \<Rightarrow> u8 \<Rightarrow> bytes" where
  "fatfs_filename_to_lfn filename entry sfnChk =
     (let entriesRequired = fatfs_lfn_entries_required filename;
          start = entry * MAX_LFN_ENTRY_LENGTH;
          buffer = replicate FAT_DIR_ENTRY_SIZE 0;
          buffer = buffer[0 := (if int entriesRequired - 1 = int entry then 0x40 OR (of_nat (entry + 1)) else of_nat (entry + 1)),
                          11 := 0x0F, 13 := sfnChk]
      in fold (lfn_put filename start) [0..<MAX_LFN_ENTRY_LENGTH] buffer)"

definition fatfs_sfn_create_entry :: "bytes \<Rightarrow> u32 \<Rightarrow> u32 \<Rightarrow> bool \<Rightarrow> fat_dir_entry" where
  "fatfs_sfn_create_entry shortfilename sz startCluster dir =
     \<lparr>Name = take 11 shortfilename, Attr = (if \<not> dir then FILE_TYPE_FILE else FILE_TYPE_DIR), NTRes = 0,
      CrtTimeTenth = 0, CrtTime = (0, 0), CrtDate = (0x20, 0), LstAccDate = (0x20, 0),
      FstClusHI = ucast (drop_bit 16 startCluster AND 0xFFFF), WrtTime = (0, 0), WrtDate = (0x20, 0),
      FstClusLO = ucast (startCluster AND 0xFFFF), FileSize = sz\<rparr>"

definition sfn_upper :: "u8 \<Rightarrow> u8" where
  "sfn_upper c = (if 97 \<le> c \<and> c \<le> 122 then c - 97 + 65 else c)"

text \<open>The position of the last dot, or \<open>-1\<close>.\<close>

fun last_dot :: "nat \<Rightarrow> bytes \<Rightarrow> int \<Rightarrow> int" where
  "last_dot i [] dotPos = dotPos"
| "last_dot i (c # cs) dotPos = last_dot (Suc i) cs (if c = 46 then int i else dotPos)"

text \<open>The loop that adds the name part, stopping once 8 characters are placed.\<close>

fun sfn_fill :: "bytes \<Rightarrow> nat \<Rightarrow> bytes \<Rightarrow> bytes" where
  "sfn_fill [] pos out = out"
| "sfn_fill (c # cs) pos out =
     (let keep = (c \<noteq> 32 \<and> c \<noteq> 46);
          out = (if keep then out[pos := sfn_upper c] else out);
          pos = (if keep then pos + 1 else pos)
      in if pos = 8 then out else sfn_fill cs pos out)"

definition fatfs_lfn_create_sfn :: "bytes \<Rightarrow> bytes \<Rightarrow> int \<times> bytes" where
  "fatfs_lfn_create_sfn sfn_output filename =
     (if filename \<noteq> [] \<and> filename ! 0 = 46 then (0, sfn_output)
      else
        (let out = replicate 11 32 @ drop 11 sfn_output;
             dotPos = last_dot 0 filename (-1);
             ext = (if dotPos \<noteq> -1
                    then map (\<lambda>k. if nat dotPos + 1 + k < length filename then filename ! (nat dotPos + 1 + k) else 32) [0..<3]
                    else replicate 3 32);
             len = (if dotPos \<noteq> -1 then nat dotPos else length filename);
             out = sfn_fill (take len filename) 0 out;
             out = out[8 := sfn_upper (ext ! 0), 9 := sfn_upper (ext ! 1), 10 := sfn_upper (ext ! 2)]
         in (1, out)))"

text \<open>\<open>fatfs_itoa\<close> builds the digits backwards in a buffer and copies them forwards.\<close>

function itoa_backwards :: "u32 \<Rightarrow> bytes \<Rightarrow> bytes" where
  "itoa_backwards num outbuf =
     (let outbuf = outbuf @ [48 + ucast (num mod 10)]; num = num div 10
      in if 0 < num then itoa_backwards num outbuf else outbuf)"
  by auto
termination
proof (relation "measure (\<lambda>(num, _). unat num)")
  show "((num', out'), num, out) \<in> measure (\<lambda>(num, _). unat num)"
    if "out' = out @ [48 + ucast (num mod 10)]" "num' = num div 10" "0 < num'" for num num' :: u32 and out out'
  proof -
    have "0 < unat num div 10" using that by (simp add: word_less_nat_alt unat_div)
    then show ?thesis using that by (simp add: unat_div)
  qed
qed simp

declare itoa_backwards.simps [simp del]

definition fatfs_itoa :: "u32 \<Rightarrow> bytes" where
  "fatfs_itoa num = rev (itoa_backwards num [])"

definition fatfs_lfn_generate_tail :: "bytes \<Rightarrow> bytes \<Rightarrow> u32 \<Rightarrow> int \<times> bytes" where
  "fatfs_lfn_generate_tail sfn_output sfn_input tailNum =
     (if tailNum > 99999 then (0, sfn_output)
      else
        (let tail_str = 126 # fatfs_itoa tailNum;
             out = take 11 sfn_input @ drop 11 sfn_output;
             at = 8 - length tail_str
         in (1, take at out @ tail_str @ drop (at + length tail_str) out)))"

subsection \<open>Dates and times\<close>

definition fatfs_convert_from_fat_time :: "u16 \<Rightarrow> i32 \<times> i32 \<times> i32" where
  "fatfs_convert_from_fat_time fat_time =
     (ucast (drop_bit 11 fat_time) AND 0x1F, ucast (drop_bit 5 fat_time) AND 0x3F, (ucast fat_time AND 0x1F) * 2)"

definition fatfs_convert_from_fat_date :: "u16 \<Rightarrow> i32 \<times> i32 \<times> i32" where
  "fatfs_convert_from_fat_date fat_date =
     (ucast fat_date AND 0x1F, ucast (drop_bit 5 fat_date) AND 0xF, (ucast (drop_bit 9 fat_date) AND 0x7F) + 1980)"

definition fatfs_convert_to_fat_time :: "i32 \<Rightarrow> i32 \<Rightarrow> i32 \<Rightarrow> u16" where
  "fatfs_convert_to_fat_time hours minutes seconds =
     (let seconds = word_of_int (sint seconds sdiv 2) :: i32 in
      ucast (push_bit 11 (hours AND 0x1F)) OR ucast (push_bit 5 (minutes AND 0x3F)) OR ucast (seconds AND 0x1F))"

definition fatfs_convert_to_fat_date :: "i32 \<Rightarrow> i32 \<Rightarrow> i32 \<Rightarrow> u16" where
  "fatfs_convert_to_fat_date day month year =
     (let year = (if sint year \<ge> 1980 then year - 1980 else year) in
      ucast (day AND 0x1F) OR ucast (push_bit 5 (month AND 0xF)) OR ucast (push_bit 9 (year AND 0x7F)))"

end
