(* ===== verification/FatString.thy ===== *)
theory FatString
  imports FatDefs
begin

text \<open>
  Paths and file names: \<open>drivers/fs/fat32/fat_string.c\<close>. A string is the list of its characters
  without the terminator. Reading at the end gives the terminator; reading past it leaves the
  string, and the call is then \<^const>\<open>None\<close>.
\<close>

definition char_at :: "bytes \<Rightarrow> nat \<Rightarrow> u8 option" where
  "char_at s i = (if i < length s then Some (s ! i) else if i = length s then Some 0 else None)"

text \<open>The check of the two accepted formats: the separator and the rest of the path behind the root.\<close>

definition path_root :: "bytes \<Rightarrow> (u8 \<times> bytes) option option" where
  "path_root path = do {
     c0 \<leftarrow> char_at path 0;
     if c0 = 47 then Some (Some (47, drop 1 path))
     else do {
       c1 \<leftarrow> char_at path 1;
       dos \<leftarrow> (if c1 = 58 then Some True else do { c2 \<leftarrow> char_at path 2; Some (c2 = 92) });
       if dos then (if length path < 3 then None else Some (Some (92, drop 3 path)))
       else Some None
     }
   }"

fun skip_component :: "u8 \<Rightarrow> bytes \<Rightarrow> bytes" where
  "skip_component expectedchar [] = []"
| "skip_component expectedchar (c # path) = (if c = expectedchar then path else skip_component expectedchar path)"

lemma skip_component_length: "length (skip_component e path) \<le> length path"
  by (induction path) auto

function count_levels :: "u8 \<Rightarrow> bytes \<Rightarrow> nat" where
  "count_levels expectedchar path =
     (if path = [] then 0 else Suc (count_levels expectedchar (skip_component expectedchar path)))"
  by auto
termination
proof (relation "measure (\<lambda>(_, path). length path)")
  show "((e, skip_component e path), e, path) \<in> measure (\<lambda>(_, path). length path)" if "path \<noteq> []" for e path
    using that skip_component_length [of e "tl path"] by (cases path) auto
qed simp

declare count_levels.simps [simp del]

definition fatfs_total_path_levels :: "bytes option \<Rightarrow> int option" where
  "fatfs_total_path_levels path = (case path of
     None \<Rightarrow> Some (-1)
   | Some p \<Rightarrow> do {
       root \<leftarrow> path_root p;
       case root of None \<Rightarrow> Some (-1) | Some (sep, rest) \<Rightarrow> Some (int (count_levels sep rest) - 1)
     })"

text \<open>The copying loop of \<open>fatfs_get_substring\<close>; \<open>output\<close> is what it has copied so far.\<close>

fun substring_loop :: "u8 \<Rightarrow> int \<Rightarrow> int \<Rightarrow> bytes \<Rightarrow> int \<Rightarrow> bytes \<Rightarrow> bytes" where
  "substring_loop sep levelreq max_len [] levels output = output"
| "substring_loop sep levelreq max_len (c # path) levels output =
     (let levels = (if c = sep then levels + 1 else levels) in
      substring_loop sep levelreq max_len path levels
        (if levels = levelreq \<and> c \<noteq> sep \<and> int (length output) < max_len - 1 then output @ [c] else output))"

text \<open>The result and the content of the buffer \<open>output\<close>, which the error returns leave alone.\<close>

definition fatfs_get_substring :: "bytes option \<Rightarrow> int \<Rightarrow> bytes \<Rightarrow> int \<Rightarrow> (int \<times> bytes) option" where
  "fatfs_get_substring path levelreq output max_len = (case path of
     None \<Rightarrow> Some (-1, output)
   | Some p \<Rightarrow>
       if max_len \<le> 0 then Some (-1, output)
       else do {
         root \<leftarrow> path_root p;
         case root of
           None \<Rightarrow> Some (-1, output)
         | Some (sep, rest) \<Rightarrow>
             (let output = substring_loop sep levelreq max_len rest 0 [] in
              Some (if output \<noteq> [] then 0 else -1, output))
       })"

text \<open>The result, the directory part and the file name.\<close>

definition fatfs_split_path ::
  "bytes option \<Rightarrow> bytes \<Rightarrow> int \<Rightarrow> bytes \<Rightarrow> int \<Rightarrow> (int \<times> bytes \<times> bytes) option" where
  "fatfs_split_path full_path path max_path filename max_filename = do {
     levels \<leftarrow> fatfs_total_path_levels full_path;
     if levels = -1 then Some (-1, path, filename)
     else do {
       (r, filename) \<leftarrow> fatfs_get_substring full_path levels filename max_filename;
       if r \<noteq> 0 then Some (-1, path, filename)
       else if levels = 0 then Some (0, [], filename)
       else (case full_path of
         None \<Rightarrow> None
       | Some full \<Rightarrow>
           (let strindex = int (length full) - int (length filename);
                strindex = (if strindex > max_path then max_path else strindex)
            in if strindex < 1 then None
               else Some (0, take (nat strindex - 1) full, filename)))
     }
   }"

definition fs_lower :: "u8 \<Rightarrow> u8" where
  "fs_lower a = (if 65 \<le> a \<and> a \<le> 90 then a + 32 else a)"

definition first_char :: "bytes \<Rightarrow> u8" where
  "first_char s = (case s of [] \<Rightarrow> 0 | c # _ \<Rightarrow> c)"

primrec FileString_StrCmpNoCase :: "nat \<Rightarrow> bytes \<Rightarrow> bytes \<Rightarrow> int" where
  "FileString_StrCmpNoCase 0 s1 s2 = 0"
| "FileString_StrCmpNoCase (Suc n) s1 s2 =
     (let diff = sint (fs_lower (first_char s1)) - sint (fs_lower (first_char s2)) in
      if diff \<noteq> 0 then diff
      else if first_char s1 = 0 \<or> first_char s2 = 0 then 0
      else FileString_StrCmpNoCase n (tl s1) (tl s2))"

fun get_extension_loop :: "bytes \<Rightarrow> int \<Rightarrow> int \<Rightarrow> int" where
  "get_extension_loop [] i dotPos = dotPos"
| "get_extension_loop (c # str) i dotPos = get_extension_loop str (i + 1) (if c = 46 then i else dotPos)"

definition FileString_GetExtension :: "bytes \<Rightarrow> int" where
  "FileString_GetExtension str = get_extension_loop str 0 (-1)"

primrec FileString_TrimLength :: "bytes \<Rightarrow> nat \<Rightarrow> nat" where
  "FileString_TrimLength str 0 = 0"
| "FileString_TrimLength str (Suc strLen) = (if str ! strLen = 32 then FileString_TrimLength str strLen else Suc strLen)"

definition fatfs_compare_names :: "bytes \<Rightarrow> bytes \<Rightarrow> bool" where
  "fatfs_compare_names strA strB =
     (let ext1Pos = FileString_GetExtension strA; ext2Pos = FileString_GetExtension strB in
      if ext1Pos = -1 \<and> ext2Pos \<noteq> -1 then False
      else if ext2Pos = -1 \<and> ext1Pos \<noteq> -1 then False
      else
        (let ext1 = drop (nat ext1Pos + 1) strA; ext2 = drop (nat ext2Pos + 1) strB in
         if ext1Pos \<noteq> -1 \<and> length ext1 \<noteq> length ext2 then False
         else if ext1Pos \<noteq> -1 \<and> FileString_StrCmpNoCase (length ext1) ext1 ext2 \<noteq> 0 then False
         else
           (let file1Len = FileString_TrimLength strA (if ext1Pos \<noteq> -1 then nat ext1Pos else length strA);
                file2Len = FileString_TrimLength strB (if ext1Pos \<noteq> -1 then nat ext2Pos else length strB)
            in if file1Len \<noteq> file2Len then False
               else FileString_StrCmpNoCase file1Len strA strB = 0)))"

fun fatfs_string_ends_with_slash :: "bytes \<Rightarrow> bool" where
  "fatfs_string_ends_with_slash [] = False"
| "fatfs_string_ends_with_slash (c # path) =
     (if path = [] \<and> (c = 92 \<or> c = 47) then True else fatfs_string_ends_with_slash path)"

text \<open>The characters written to \<open>out\<close>, which its terminator follows.\<close>

fun fatfs_get_sfn_display_name :: "nat \<Rightarrow> bytes \<Rightarrow> bytes" where
  "fatfs_get_sfn_display_name len [] = []"
| "fatfs_get_sfn_display_name len (a # inp) =
     (if len > 11 then []
      else if a = 32 then fatfs_get_sfn_display_name len inp
      else fs_lower a # fatfs_get_sfn_display_name (len + 1) inp)"

text \<open>The extension copied to \<open>out\<close>, or nothing when the call returns 0.\<close>

definition fatfs_get_extension :: "bytes \<Rightarrow> int \<Rightarrow> bytes option" where
  "fatfs_get_extension filename maxlen =
     (let ext_pos = FileString_GetExtension filename in
      if ext_pos > 0 \<and> maxlen \<noteq> 0
      then Some (map fs_lower (take (nat (maxlen - 1)) (drop (nat ext_pos + 1) filename)))
      else None)"

text \<open>
  Every byte \<open>fatfs_create_path_string\<close> writes to \<open>out\<close>, the terminator included; \<^const>\<open>None\<close> is
  the result 0. \<open>copy_path\<close> is its first loop: the bytes copied, the last one and the separator.
\<close>

fun copy_path :: "bytes \<Rightarrow> int \<Rightarrow> int \<Rightarrow> u8 \<Rightarrow> u8 \<Rightarrow> bytes \<times> int \<times> u8 \<times> u8" where
  "copy_path [] maxlen len last_c seperator = ([], len, last_c, seperator)"
| "copy_path (c # path) maxlen len last_c seperator =
     (if len < maxlen - 2
      then (let (out, len, l, sep) = copy_path path maxlen (len + 1) c (if c = 92 then 92 else seperator)
            in (c # out, len, l, sep))
      else ([], len, last_c, seperator))"

definition fatfs_create_path_string :: "bytes option \<Rightarrow> bytes option \<Rightarrow> int \<Rightarrow> bytes option" where
  "fatfs_create_path_string path filename maxlen = (case (path, filename) of
     (Some path, Some filename) \<Rightarrow>
       if maxlen > 0 then
         (let (out, len, last_c, seperator) = copy_path path maxlen 0 0 47;
              out = (if last_c \<noteq> 92 \<and> last_c \<noteq> 47 then out @ [seperator] else out);
              out = out @ take (nat (maxlen - 1 - len)) filename
          in Some (out @ [0]))
       else None
   | _ \<Rightarrow> None)"

end
