(* ===== verification/FatAccess.thy ===== *)
theory FatAccess
  imports FatTable FatMisc FatString
begin

text \<open>
  Mounting a volume, sector access and directories: \<open>drivers/fs/fat32/fat_access.c\<close>. A pointer
  argument \<open>target\<close> is \<^const>\<open>None\<close> for \<open>NULL\<close>, which selects the volume's own sector buffer, or
  the content of the caller's buffer; its content after the call is returned. The clock that
  stamps directory entries is an argument.
\<close>

definition disk_read :: "'d fatfs \<Rightarrow> u32 \<Rightarrow> bytes \<Rightarrow> u32 \<Rightarrow> (int \<times> bytes \<times> 'd fatfs) option" where
  "disk_read fs lba buf n = do {
     rd \<leftarrow> read_media (disk_io fs);
     let (r, buf, d) = rd (media fs) lba buf n;
     Some (r, buf, fs\<lparr>media := d\<rparr>)
   }"

definition disk_write :: "'d fatfs \<Rightarrow> u32 \<Rightarrow> bytes \<Rightarrow> u32 \<Rightarrow> (int \<times> 'd fatfs) option" where
  "disk_write fs lba buf n = do {
     wr \<leftarrow> write_media (disk_io fs);
     let (r, d) = wr (media fs) lba buf n;
     Some (r, fs\<lparr>media := d\<rparr>)
   }"

definition set_current :: "bytes \<Rightarrow> 'd fatfs \<Rightarrow> 'd fatfs" where
  "set_current buf fs = fs\<lparr>currentsector := (currentsector fs)\<lparr>bsector := buf\<rparr>\<rparr>"

definition set_current_address :: "u32 \<Rightarrow> 'd fatfs \<Rightarrow> 'd fatfs" where
  "set_current_address lba fs = fs\<lparr>currentsector := (currentsector fs)\<lparr>baddress := lba\<rparr>\<rparr>"

text \<open>Reading and writing the volume's own buffer at the address recorded in it.\<close>

definition read_current :: "'d fatfs \<Rightarrow> (int \<times> 'd fatfs) option" where
  "read_current fs = do {
     (r, buf, fs) \<leftarrow> disk_read fs (baddress (currentsector fs)) (bsector (currentsector fs)) 1;
     Some (r, set_current buf fs)
   }"

definition write_current :: "'d fatfs \<Rightarrow> (int \<times> 'd fatfs) option" where
  "write_current fs = disk_write fs (baddress (currentsector fs)) (bsector (currentsector fs)) 1"

subsection \<open>Mounting\<close>

definition FAT_INIT_OK :: int where "FAT_INIT_OK = 0"
definition FAT_INIT_MEDIA_ACCESS_ERROR :: int where "FAT_INIT_MEDIA_ACCESS_ERROR = -1"
definition FAT_INIT_INVALID_SECTOR_SIZE :: int where "FAT_INIT_INVALID_SECTOR_SIZE = -900"
definition FAT_INIT_INVALID_SIGNATURE :: int where "FAT_INIT_INVALID_SIGNATURE = -3"
definition FAT_INIT_ENDIAN_ERROR :: int where "FAT_INIT_ENDIAN_ERROR = -4"
definition FAT_INIT_WRONG_FILESYS_TYPE :: int where "FAT_INIT_WRONG_FILESYS_TYPE = -5"

definition valid_partition :: "u8 \<Rightarrow> bool" where
  "valid_partition t \<longleftrightarrow> t \<in> {0x0B, 0x06, 0x0C, 0x0E, 0x0F, 0x05} \<or> (t \<noteq> 0 \<and> t \<le> 0x06)"

text \<open>The fields that the boot sector determines.\<close>

definition load_parameters :: "bytes \<Rightarrow> 'd fatfs \<Rightarrow> 'd fatfs" where
  "load_parameters b fs =
     (let rsvd = GET_16BIT_WORD b 14;
          nfats = ucast (b ! 16);
          fatsz = (if GET_16BIT_WORD b 22 \<noteq> 0 then GET_16BIT_WORD b 22 else GET_32BIT_WORD b 36)
      in fs\<lparr>sectors_per_cluster := b ! 13,
            root_entry_count := ucast (GET_16BIT_WORD b 17),
            fat_sectors := fatsz,
            rootdir_first_cluster := GET_32BIT_WORD b 44,
            fs_info_sector := ucast (GET_16BIT_WORD b 48),
            rootdir_first_sector := rsvd + nfats * fatsz,
            rootdir_sectors := (GET_16BIT_WORD b 17 * 32 + (FAT_SECTOR_SIZE - 1)) div FAT_SECTOR_SIZE,
            fat_begin_lba := lba_begin fs + rsvd,
            cluster_begin_lba := lba_begin fs + rsvd + nfats * fatsz\<rparr>)"

definition count_of_clusters :: "bytes \<Rightarrow> 'd fatfs \<Rightarrow> u32" where
  "count_of_clusters b fs =
     (let root_dir_sectors = (GET_16BIT_WORD b 17 * 32 + (GET_16BIT_WORD b 11 - 1)) div GET_16BIT_WORD b 11;
          FATSz = (if GET_16BIT_WORD b 22 \<noteq> 0 then GET_16BIT_WORD b 22 else GET_32BIT_WORD b 36);
          total_sectors = (if GET_16BIT_WORD b 19 \<noteq> 0 then GET_16BIT_WORD b 19 else GET_32BIT_WORD b 32);
          data_sectors = total_sectors - (GET_16BIT_WORD b 14 + ucast (b ! 16) * FATSz + root_dir_sectors)
      in data_sectors div ucast (sectors_per_cluster fs))"

definition fatfs_init :: "'d fatfs \<Rightarrow> (int \<times> 'd fatfs) option" where
  "fatfs_init fs =
     (let fs = fs\<lparr>currentsector := (currentsector fs)\<lparr>baddress := FAT32_INVALID_CLUSTER, dirty := False\<rparr>,
                  next_free_cluster := 0\<rparr>;
          fs = fatfs_fat_init fs
      in if read_media (disk_io fs) = None then Some (FAT_INIT_MEDIA_ACCESS_ERROR, fs)
         else do {
           (x, mbr, fs) \<leftarrow> disk_read fs 0 (bsector (currentsector fs)) 1;
           let fs = set_current mbr fs;
           if x = 0 then Some (FAT_INIT_MEDIA_ACCESS_ERROR, fs)
           else if mbr ! 510 \<noteq> 0x55 \<or> mbr ! 511 \<noteq> 0xAA then Some (FAT_INIT_INVALID_SIGNATURE, fs)
           else if GET_16BIT_WORD mbr 510 \<noteq> 0xAA55 then Some (FAT_INIT_ENDIAN_ERROR, fs)
           else do {
             let fs = fs\<lparr>lba_begin := (if valid_partition (mbr ! 450) then GET_32BIT_WORD mbr 454 else 0)\<rparr>;
             (y, b, fs) \<leftarrow> disk_read fs (lba_begin fs) (bsector (currentsector fs)) 1;
             let fs = set_current b fs;
             if y = 0 then Some (FAT_INIT_MEDIA_ACCESS_ERROR, fs)
             else if GET_16BIT_WORD b 11 \<noteq> FAT_SECTOR_SIZE then Some (FAT_INIT_INVALID_SECTOR_SIZE, fs)
             else
               (let fs = load_parameters b fs in
                if GET_16BIT_WORD b 510 \<noteq> 0xAA55 then Some (FAT_INIT_INVALID_SIGNATURE, fs)
                else if sectors_per_cluster fs = 0 then Some (FAT_INIT_WRONG_FILESYS_TYPE, fs)
                else if count_of_clusters b fs < 4085 then Some (FAT_INIT_WRONG_FILESYS_TYPE, fs)
                else if count_of_clusters b fs < 65525
                then Some (FAT_INIT_OK, fs\<lparr>rootdir_first_cluster := 0, fat_type := FAT_TYPE_16\<rparr>)
                else Some (FAT_INIT_OK, fs\<lparr>fat_type := FAT_TYPE_32\<rparr>))
           }
         })"

definition fatfs_lba_of_cluster :: "'d fatfs \<Rightarrow> u32 \<Rightarrow> u32" where
  "fatfs_lba_of_cluster fs Cluster_Number = (case fat_type fs of
     FAT_TYPE_16 \<Rightarrow> cluster_begin_lba fs + (ucast (root_entry_count fs) * 32) div FAT_SECTOR_SIZE
                    + (Cluster_Number - 2) * ucast (sectors_per_cluster fs)
   | FAT_TYPE_32 \<Rightarrow> cluster_begin_lba fs + (Cluster_Number - 2) * ucast (sectors_per_cluster fs))"

definition fatfs_get_root_cluster :: "'d fatfs \<Rightarrow> u32" where
  "fatfs_get_root_cluster fs = rootdir_first_cluster fs"

definition fatfs_sector_read :: "'d fatfs \<Rightarrow> u32 \<Rightarrow> bytes \<Rightarrow> u32 \<Rightarrow> (int \<times> bytes \<times> 'd fatfs) option" where
  "fatfs_sector_read fs lba target count = disk_read fs lba target count"

definition fatfs_sector_write :: "'d fatfs \<Rightarrow> u32 \<Rightarrow> bytes \<Rightarrow> u32 \<Rightarrow> (int \<times> 'd fatfs) option" where
  "fatfs_sector_write fs lba target count = disk_write fs lba target count"

subsection \<open>Sectors of files and directories\<close>

primrec follow_chain :: "nat \<Rightarrow> 'd fatfs \<Rightarrow> u32 \<Rightarrow> (u32 \<times> 'd fatfs) option" where
  "follow_chain 0 fs cluster_chain = Some (cluster_chain, fs)"
| "follow_chain (Suc n) fs cluster_chain = do {
     (c, fs) \<leftarrow> fatfs_find_next_cluster fs cluster_chain;
     follow_chain n fs c
   }"

text \<open>The sector address \<open>fatfs_sector_reader\<close> computes; \<^const>\<open>None\<close> inside is its return of 0.\<close>

definition reader_lba :: "'d fatfs \<Rightarrow> u32 \<Rightarrow> u32 \<Rightarrow> (u32 option \<times> 'd fatfs) option" where
  "reader_lba fs start_cluster offset =
     (if fat_type fs = FAT_TYPE_16 \<and> start_cluster = 0 then
        Some (if offset < rootdir_sectors fs then Some (lba_begin fs + rootdir_first_sector fs + offset) else None, fs)
      else if sectors_per_cluster fs = 0 then None
      else do {
        let cluster_to_read = offset div ucast (sectors_per_cluster fs);
        let sector_to_read = offset - cluster_to_read * ucast (sectors_per_cluster fs);
        (cluster_chain, fs) \<leftarrow> follow_chain (unat cluster_to_read) fs start_cluster;
        Some (if cluster_chain = FAT32_LAST_CLUSTER then None
              else Some (fatfs_lba_of_cluster fs cluster_chain + sector_to_read), fs)
      })"

definition fatfs_sector_reader ::
  "'d fatfs \<Rightarrow> u32 \<Rightarrow> u32 \<Rightarrow> bytes option \<Rightarrow> (int \<times> bytes option \<times> 'd fatfs) option" where
  "fatfs_sector_reader fs start_cluster offset target = do {
     (lba, fs) \<leftarrow> reader_lba fs start_cluster offset;
     case lba of
       None \<Rightarrow> Some (0, target, fs)
     | Some lba \<Rightarrow>
         (case target of
            Some buf \<Rightarrow> do { (r, buf, fs) \<leftarrow> disk_read fs lba buf 1; Some (r, Some buf, fs) }
          | None \<Rightarrow>
              if lba \<noteq> baddress (currentsector fs)
              then do { (r, fs) \<leftarrow> read_current (set_current_address lba fs); Some (r, None, fs) }
              else Some (1, None, fs))
   }"

definition sector_lba :: "'d fatfs \<Rightarrow> u32 \<Rightarrow> u32 \<Rightarrow> u32 option" where
  "sector_lba fs cluster sector =
     (if fat_type fs = FAT_TYPE_16 \<and> cluster = 0
      then (if sector < rootdir_sectors fs then Some (lba_begin fs + rootdir_first_sector fs + sector) else None)
      else Some (fatfs_lba_of_cluster fs cluster + sector))"

definition fatfs_read_sector ::
  "'d fatfs \<Rightarrow> u32 \<Rightarrow> u32 \<Rightarrow> bytes option \<Rightarrow> (int \<times> bytes option \<times> 'd fatfs) option" where
  "fatfs_read_sector fs cluster sector target = (case sector_lba fs cluster sector of
     None \<Rightarrow> Some (0, target, fs)
   | Some lba \<Rightarrow>
       (case target of
          Some buf \<Rightarrow> do { (r, buf, fs) \<leftarrow> disk_read fs lba buf 1; Some (r, Some buf, fs) }
        | None \<Rightarrow> do { (r, fs) \<leftarrow> read_current (set_current_address lba fs); Some (r, None, fs) }))"

definition fatfs_write_sector :: "'d fatfs \<Rightarrow> u32 \<Rightarrow> u32 \<Rightarrow> bytes option \<Rightarrow> (int \<times> 'd fatfs) option" where
  "fatfs_write_sector fs cluster sector target =
     (if write_media (disk_io fs) = None then Some (0, fs)
      else case sector_lba fs cluster sector of
        None \<Rightarrow> Some (0, fs)
      | Some lba \<Rightarrow>
          (case target of
             Some buf \<Rightarrow> disk_write fs lba buf 1
           | None \<Rightarrow> write_current (set_current_address lba fs)))"

subsection \<open>Directories\<close>

definition entry_at :: "bytes \<Rightarrow> nat \<Rightarrow> fat_dir_entry" where
  "entry_at sector item = entry_of_bytes (take FAT_DIR_ENTRY_SIZE (drop (FAT_DIR_ENTRY_SIZE * item) sector))"

definition put_bytes :: "nat \<Rightarrow> bytes \<Rightarrow> bytes \<Rightarrow> bytes" where
  "put_bytes at xs sector = take at sector @ xs @ drop (at + length xs) sector"

definition put_entry :: "nat \<Rightarrow> fat_dir_entry \<Rightarrow> bytes \<Rightarrow> bytes" where
  "put_entry item e sector = put_bytes (FAT_DIR_ENTRY_SIZE * item) (bytes_of_entry e) sector"

text \<open>The display form of a short name: eight characters, a dot or a space, the extension.\<close>

definition short_filename :: "fat_dir_entry \<Rightarrow> bytes" where
  "short_filename e =
     (let ext = drop 8 (Name e);
          dotRequired = (\<exists>c \<in> set ext. c \<noteq> 32);
          sep = (if dotRequired then (if Name e ! 0 \<noteq> 46 then 46 else 32) else 32)
      in takeWhile (\<lambda>c. c \<noteq> 0) (take 8 (Name e) @ [sep] @ ext))"

text \<open>One sector of the search of \<open>fatfs_get_file_entry\<close>: the entry found, or the cache to go on with.\<close>

fun search_items :: "bytes \<Rightarrow> bytes \<Rightarrow> nat list \<Rightarrow> lfn_cache \<Rightarrow> fat_dir_entry + lfn_cache" where
  "search_items sector name_to_find [] lfn = Inr lfn"
| "search_items sector name_to_find (item # items) lfn =
     (let e = entry_at sector item in
      if fatfs_entry_lfn_text e then
        search_items sector name_to_find items
          (fatfs_lfn_cache_entry lfn (take FAT_DIR_ENTRY_SIZE (drop (FAT_DIR_ENTRY_SIZE * item) sector)))
      else if fatfs_entry_lfn_invalid e then
        search_items sector name_to_find items (fatfs_lfn_cache_init lfn False)
      else if fatfs_entry_lfn_exists lfn e then
        (let (long_filename, lfn) = fatfs_lfn_cache_get lfn in
         if fatfs_compare_names long_filename name_to_find then Inl e
         else search_items sector name_to_find items (fatfs_lfn_cache_init lfn False))
      else if fatfs_entry_sfn_only e then
        (if fatfs_compare_names (short_filename e) name_to_find then Inl e
         else search_items sector name_to_find items (fatfs_lfn_cache_init lfn False))
      else search_items sector name_to_find items lfn)"

partial_function (option) get_file_entry_loop ::
  "'d fatfs \<Rightarrow> u32 \<Rightarrow> bytes \<Rightarrow> u32 \<Rightarrow> lfn_cache \<Rightarrow> (fat_dir_entry option \<times> 'd fatfs) option" where
  "get_file_entry_loop fs Cluster name_to_find x lfn = do {
     (r, _, fs) \<leftarrow> fatfs_sector_reader fs Cluster x None;
     if r \<noteq> 0 then
       (case search_items (bsector (currentsector fs)) name_to_find [0..<FAT_DIR_ENTRIES_PER_SECTOR] lfn of
          Inl e \<Rightarrow> Some (Some e, fs)
        | Inr lfn \<Rightarrow> get_file_entry_loop fs Cluster name_to_find (x + 1) lfn)
     else Some (None, fs)
   }"

definition wiped_lfn :: lfn_cache where
  "wiped_lfn = fatfs_lfn_cache_init \<lparr>String = [], Null = 0, no_of_strings = 0\<rparr> True"

definition fatfs_get_file_entry :: "'d fatfs \<Rightarrow> u32 \<Rightarrow> bytes \<Rightarrow> (fat_dir_entry option \<times> 'd fatfs) option" where
  "fatfs_get_file_entry fs Cluster name_to_find = get_file_entry_loop fs Cluster name_to_find 0 wiped_lfn"

primrec strncmp_bytes :: "nat \<Rightarrow> bytes \<Rightarrow> bytes \<Rightarrow> int" where
  "strncmp_bytes 0 s1 s2 = 0"
| "strncmp_bytes (Suc n) s1 s2 =
     (if first_char s1 \<noteq> first_char s2 then uint (first_char s1) - uint (first_char s2)
      else if first_char s1 = 0 then 0
      else strncmp_bytes n (tl s1) (tl s2))"

text \<open>The first item of a sector that is the short entry of the given name.\<close>

definition sfn_matches :: "bytes \<Rightarrow> fat_dir_entry \<Rightarrow> bool" where
  "sfn_matches shortname e \<longleftrightarrow> \<not> fatfs_entry_lfn_text e \<and> \<not> fatfs_entry_lfn_invalid e \<and> fatfs_entry_sfn_only e \<and>
     strncmp_bytes 11 (Name e) shortname = 0"

definition find_sfn :: "bytes \<Rightarrow> bytes \<Rightarrow> nat option" where
  "find_sfn sector shortname =
     List.find (\<lambda>item. sfn_matches shortname (entry_at sector item)) [0..<FAT_DIR_ENTRIES_PER_SECTOR]"

partial_function (option) sfn_exists_loop :: "'d fatfs \<Rightarrow> u32 \<Rightarrow> bytes \<Rightarrow> u32 \<Rightarrow> (bool \<times> 'd fatfs) option" where
  "sfn_exists_loop fs Cluster shortname x = do {
     (r, _, fs) \<leftarrow> fatfs_sector_reader fs Cluster x None;
     if r \<noteq> 0 then
       (case find_sfn (bsector (currentsector fs)) shortname of
          Some item \<Rightarrow> Some (True, fs)
        | None \<Rightarrow> sfn_exists_loop fs Cluster shortname (x + 1))
     else Some (False, fs)
   }"

definition fatfs_sfn_exists :: "'d fatfs \<Rightarrow> u32 \<Rightarrow> bytes \<Rightarrow> (bool \<times> 'd fatfs) option" where
  "fatfs_sfn_exists fs Cluster shortname = sfn_exists_loop fs Cluster shortname 0"

definition fatfs_update_timestamps :: "rtc \<Rightarrow> bool \<Rightarrow> bool \<Rightarrow> bool \<Rightarrow> fat_dir_entry \<Rightarrow> fat_dir_entry" where
  "fatfs_update_timestamps clock create modify access directoryEntry =
     (let time_info = localtime (time clock);
          fat_time = fatfs_convert_to_fat_time (tm_hour time_info) (tm_min time_info) (tm_sec time_info);
          fat_date = fatfs_convert_to_fat_date (tm_mday time_info) (tm_mon time_info + 1) (tm_year time_info + 1900);
          t = (ucast fat_time, ucast (drop_bit 8 fat_time));
          d = (ucast fat_date, ucast (drop_bit 8 fat_date));
          e = (if create then directoryEntry\<lparr>CrtTime := t, CrtDate := d\<rparr> else directoryEntry);
          e = (if modify then e\<lparr>WrtTime := t, WrtDate := d\<rparr> else e)
      in if access then e\<lparr>LstAccDate := d\<rparr> else e)"

text \<open>
  \<open>fatfs_update_file_length\<close> and \<open>fatfs_mark_file_deleted\<close> are the same loop with a different
  change of the entry they find.
\<close>

partial_function (option) update_entry_loop ::
  "(fat_dir_entry \<Rightarrow> fat_dir_entry) \<Rightarrow> 'd fatfs \<Rightarrow> u32 \<Rightarrow> bytes \<Rightarrow> u32 \<Rightarrow> (int \<times> 'd fatfs) option" where
  "update_entry_loop change fs Cluster shortname x = do {
     (r, _, fs) \<leftarrow> fatfs_sector_reader fs Cluster x None;
     if r \<noteq> 0 then
       (let sector = bsector (currentsector fs) in
        case find_sfn sector shortname of
          Some item \<Rightarrow> write_current (set_current (put_entry item (change (entry_at sector item)) sector) fs)
        | None \<Rightarrow> update_entry_loop change fs Cluster shortname (x + 1))
     else Some (0, fs)
   }"

definition fatfs_update_file_length :: "rtc \<Rightarrow> 'd fatfs \<Rightarrow> u32 \<Rightarrow> bytes \<Rightarrow> u32 \<Rightarrow> (int \<times> 'd fatfs) option" where
  "fatfs_update_file_length clock fs Cluster shortname fileLength =
     (if write_media (disk_io fs) = None then Some (0, fs)
      else update_entry_loop (\<lambda>e. fatfs_update_timestamps clock False True True (e\<lparr>FileSize := fileLength\<rparr>)) fs Cluster shortname 0)"

definition fatfs_mark_file_deleted :: "rtc \<Rightarrow> 'd fatfs \<Rightarrow> u32 \<Rightarrow> bytes \<Rightarrow> (int \<times> 'd fatfs) option" where
  "fatfs_mark_file_deleted clock fs Cluster shortname =
     (if write_media (disk_io fs) = None then Some (0, fs)
      else update_entry_loop (\<lambda>e. fatfs_update_timestamps clock False True True (e\<lparr>Name := (Name e)[0 := FILE_HEADER_DELETED]\<rparr>))
             fs Cluster shortname 0)"

subsection \<open>Listing a directory\<close>

record fs_dir_list_status =
  ls_sector :: u32
  ls_cluster :: u32
  ls_offset :: u8

record fs_dir_ent =
  de_filename :: bytes
  de_is_dir :: bool
  de_cluster :: u32
  de_size :: u32
  de_access_date :: u16
  de_write_time :: u16
  de_write_date :: u16
  de_create_date :: u16
  de_create_time :: u16

definition fatfs_list_directory_start :: "u32 \<Rightarrow> fs_dir_list_status" where
  "fatfs_list_directory_start StartCluster = \<lparr>ls_sector = 0, ls_cluster = StartCluster, ls_offset = 0\<rparr>"

definition first_cluster :: "fat_dir_entry \<Rightarrow> u32" where
  "first_cluster e = push_bit 16 (ucast (FstClusHI e)) OR ucast (FstClusLO e)"

definition dir_ent_of :: "bytes \<Rightarrow> fat_dir_entry \<Rightarrow> fs_dir_ent" where
  "dir_ent_of filename e =
     \<lparr>de_filename = filename, de_is_dir = fatfs_entry_is_dir e, de_cluster = first_cluster e, de_size = FileSize e,
      de_access_date = le16 (fst (LstAccDate e)) (snd (LstAccDate e)),
      de_write_time = le16 (fst (WrtTime e)) (snd (WrtTime e)),
      de_write_date = le16 (fst (WrtDate e)) (snd (WrtDate e)),
      de_create_date = le16 (fst (CrtDate e)) (snd (CrtDate e)),
      de_create_time = le16 (fst (CrtTime e)) (snd (CrtTime e))\<rparr>"

fun list_items :: "bytes \<Rightarrow> nat list \<Rightarrow> lfn_cache \<Rightarrow> (nat \<times> fs_dir_ent) + lfn_cache" where
  "list_items sector [] lfn = Inr lfn"
| "list_items sector (item # items) lfn =
     (let e = entry_at sector item in
      if fatfs_entry_lfn_text e then
        list_items sector items
          (fatfs_lfn_cache_entry lfn (take FAT_DIR_ENTRY_SIZE (drop (FAT_DIR_ENTRY_SIZE * item) sector)))
      else if fatfs_entry_lfn_invalid e then list_items sector items (fatfs_lfn_cache_init lfn False)
      else if fatfs_entry_lfn_exists lfn e then Inl (item, dir_ent_of (take 259 (fst (fatfs_lfn_cache_get lfn))) e)
      else if fatfs_entry_sfn_only e then Inl (item, dir_ent_of (fatfs_get_sfn_display_name 0 (short_filename e)) e)
      else list_items sector items lfn)"

partial_function (option) list_directory_loop ::
  "'d fatfs \<Rightarrow> fs_dir_list_status \<Rightarrow> lfn_cache \<Rightarrow> (fs_dir_ent option \<times> fs_dir_list_status \<times> 'd fatfs) option" where
  "list_directory_loop fs dirls lfn = do {
     (r, _, fs) \<leftarrow> fatfs_sector_reader fs (ls_cluster dirls) (ls_sector dirls) None;
     if r \<noteq> 0 then
       (case list_items (bsector (currentsector fs)) [unat (ls_offset dirls)..<FAT_DIR_ENTRIES_PER_SECTOR] lfn of
          Inl (item, ent) \<Rightarrow> Some (Some ent, dirls\<lparr>ls_offset := of_nat (item + 1)\<rparr>, fs)
        | Inr lfn \<Rightarrow> list_directory_loop fs (dirls\<lparr>ls_sector := ls_sector dirls + 1, ls_offset := 0\<rparr>) lfn)
     else Some (None, dirls, fs)
   }"

text \<open>\<open>stack\<close> is what the uninitialised cache on the stack holds.\<close>

definition fatfs_list_directory_next ::
  "lfn_cache \<Rightarrow> 'd fatfs \<Rightarrow> fs_dir_list_status \<Rightarrow> (fs_dir_ent option \<times> fs_dir_list_status \<times> 'd fatfs) option" where
  "fatfs_list_directory_next stack fs dirls = list_directory_loop fs dirls (fatfs_lfn_cache_init stack False)"

end
