(* ===== verification/FatDir.thy ===== *)
theory FatDir
  imports FatAccess FatAlloc
begin

text \<open>
  Adding directory entries: the second half of \<open>drivers/fs/fat32/fat_write.c\<close>. Results returned
  through the pointers \<open>pSector\<close> and \<open>pOffset\<close> are part of the returned tuple.
\<close>

text \<open>
  The scan of one sector for \<open>entryCount\<close> free entries in a row. The state is the number of free
  entries seen, whether a start was recorded, and the recorded start.
\<close>

type_synonym dir_scan = "nat \<times> bool \<times> u32 \<times> u8"

definition record_space :: "u32 \<Rightarrow> nat \<Rightarrow> dir_scan \<Rightarrow> dir_scan" where
  "record_space sectorIdx item = (\<lambda>(possible_spaces, start_recorded, pSector, pOffset).
     if possible_spaces = 0 then (1, True, sectorIdx, of_nat item)
     else (possible_spaces + 1, start_recorded, pSector, pOffset))"

fun scan_free :: "bytes \<Rightarrow> nat \<Rightarrow> u32 \<Rightarrow> nat list \<Rightarrow> dir_scan \<Rightarrow> dir_scan + dir_scan" where
  "scan_free sector entryCount x [] st = Inr st"
| "scan_free sector entryCount x (item # items) st =
     (let c = sector ! (FAT_DIR_ENTRY_SIZE * item) in
      if fatfs_entry_lfn_text (entry_at sector item) then
        scan_free sector entryCount x items (record_space x item st)
      else if c = FILE_HEADER_DELETED \<or> c = FILE_HEADER_BLANK then
        (let st = record_space x item st in
         if entryCount \<le> fst st then Inl st else scan_free sector entryCount x items st)
      else scan_free sector entryCount x items (0, False, snd (snd st)))"

primrec erase_cluster :: "nat \<Rightarrow> 'd fatfs \<Rightarrow> u32 \<Rightarrow> nat \<Rightarrow> (int \<times> 'd fatfs) option" where
  "erase_cluster 0 fs newCluster i = Some (1, fs)"
| "erase_cluster (Suc n) fs newCluster i = do {
     (r, fs) \<leftarrow> fatfs_write_sector fs newCluster (of_nat i) None;
     if r = 0 then Some (0, fs) else erase_cluster n fs newCluster (i + 1)
   }"

partial_function (option) find_dir_offset_loop ::
  "'d fatfs \<Rightarrow> u32 \<Rightarrow> nat \<Rightarrow> u32 \<Rightarrow> dir_scan \<Rightarrow> (int \<times> u32 \<times> u8 \<times> 'd fatfs) option" where
  "find_dir_offset_loop fs dirCluster entryCount x st = do {
     (r, _, fs) \<leftarrow> fatfs_sector_reader fs dirCluster x None;
     if r \<noteq> 0 then
       (case scan_free (bsector (currentsector fs)) entryCount x [0..<FAT_DIR_ENTRIES_PER_SECTOR] st of
          Inl (_, _, pSector, pOffset) \<Rightarrow> Some (1, pSector, pOffset, fs)
        | Inr st \<Rightarrow> find_dir_offset_loop fs dirCluster entryCount (x + 1) st)
     else
       (case st of (_, start_recorded, pSector, pOffset) \<Rightarrow> do {
          (blank, fs) \<leftarrow> fatfs_find_blank_cluster fs (rootdir_first_cluster fs);
          case blank of
            None \<Rightarrow> Some (0, pSector, pOffset, fs)
          | Some newCluster \<Rightarrow> do {
              (r, fs) \<leftarrow> fatfs_fat_add_cluster_to_chain fs dirCluster newCluster;
              if r = 0 then Some (0, pSector, pOffset, fs)
              else do {
                let fs = set_current (replicate 512 0) fs;
                (r, fs) \<leftarrow> erase_cluster (unat (sectors_per_cluster fs)) fs newCluster 0;
                if r = 0 then Some (0, pSector, pOffset, fs)
                else if start_recorded then Some (1, pSector, pOffset, fs)
                else Some (1, x, 0, fs)
              }
            }
        })
   }"

definition fatfs_find_free_dir_offset ::
  "'d fatfs \<Rightarrow> u32 \<Rightarrow> nat \<Rightarrow> u32 \<Rightarrow> u8 \<Rightarrow> (int \<times> u32 \<times> u8 \<times> 'd fatfs) option" where
  "fatfs_find_free_dir_offset fs dirCluster entryCount pSector pOffset =
     (if entryCount = 0 then Some (0, pSector, pOffset, fs)
      else find_dir_offset_loop fs dirCluster entryCount 0 (0, False, pSector, pOffset))"

definition sfn_checksum :: "bytes \<Rightarrow> u8" where
  "sfn_checksum shortfilename =
     foldl (\<lambda>checksum c. (if checksum AND 1 \<noteq> 0 then 0x80 else 0) + drop_bit 1 checksum + c) 0 (take 11 shortfilename)"

text \<open>
  One sector of \<open>fatfs_add_file_entry\<close>. It ends with the sector that holds the short entry, or
  with the state to go on with: the sector, whether the start was reached, the long entries still
  to write, and whether the sector changed.
\<close>

fun add_items ::
  "rtc \<Rightarrow> bytes \<Rightarrow> bytes \<Rightarrow> u32 \<Rightarrow> u32 \<Rightarrow> bool \<Rightarrow> (nat \<Rightarrow> bool) \<Rightarrow> nat list \<Rightarrow>
   bytes \<times> bool \<times> nat \<times> bool \<Rightarrow> bytes + (bytes \<times> bool \<times> nat \<times> bool)" where
  "add_items clock filename shortfilename startCluster sz dir start [] st = Inr st"
| "add_items clock filename shortfilename startCluster sz dir start (item # items) (sector, foundEnd, entryCount, dirtySector) =
     (let foundEnd = (foundEnd \<or> start item) in
      if foundEnd then
        (if entryCount = 0 then
           Inl (put_entry item
                  (fatfs_update_timestamps clock True True True (fatfs_sfn_create_entry shortfilename sz startCluster dir)) sector)
         else
           add_items clock filename shortfilename startCluster sz dir start items
             (put_bytes (FAT_DIR_ENTRY_SIZE * item)
                (fatfs_filename_to_lfn filename (entryCount - 1) (sfn_checksum shortfilename)) sector,
              True, entryCount - 1, True))
      else add_items clock filename shortfilename startCluster sz dir start items (sector, False, entryCount, dirtySector))"

partial_function (option) add_entry_loop ::
  "rtc \<Rightarrow> bytes \<Rightarrow> bytes \<Rightarrow> u32 \<Rightarrow> u32 \<Rightarrow> bool \<Rightarrow> u32 \<Rightarrow> u8 \<Rightarrow>
   'd fatfs \<Rightarrow> u32 \<Rightarrow> u32 \<Rightarrow> bool \<Rightarrow> nat \<Rightarrow> (int \<times> 'd fatfs) option" where
  "add_entry_loop clock filename shortfilename startCluster sz dir dirSector dirOffset fs dirCluster x foundEnd entryCount = do {
     (r, _, fs) \<leftarrow> fatfs_sector_reader fs dirCluster x None;
     if r = 0 then Some (0, fs)
     else
       (case add_items clock filename shortfilename startCluster sz dir (\<lambda>item. dirSector = x \<and> unat dirOffset = item)
               [0..<FAT_DIR_ENTRIES_PER_SECTOR] (bsector (currentsector fs), foundEnd, entryCount, False) of
          Inl sector \<Rightarrow> write_current (set_current sector fs)
        | Inr (sector, foundEnd, entryCount, dirtySector) \<Rightarrow> do {
            let fs = set_current sector fs;
            (r, fs) \<leftarrow> (if dirtySector then write_current fs else Some (1, fs));
            if r = 0 then Some (0, fs)
            else add_entry_loop clock filename shortfilename startCluster sz dir dirSector dirOffset fs dirCluster (x + 1) foundEnd entryCount
          })
   }"

definition fatfs_add_file_entry ::
  "rtc \<Rightarrow> 'd fatfs \<Rightarrow> u32 \<Rightarrow> bytes \<Rightarrow> bytes \<Rightarrow> u32 \<Rightarrow> u32 \<Rightarrow> bool \<Rightarrow> (int \<times> 'd fatfs) option" where
  "fatfs_add_file_entry clock fs dirCluster filename shortfilename startCluster sz dir =
     (if write_media (disk_io fs) = None then Some (0, fs)
      else
        (let entryCount = fatfs_lfn_entries_required filename in
         if entryCount = 0 then Some (0, fs)
         else do {
           (r, dirSector, dirOffset, fs) \<leftarrow> fatfs_find_free_dir_offset fs dirCluster (entryCount + 1) 0 0;
           if r = 0 then Some (0, fs)
           else add_entry_loop clock filename shortfilename startCluster sz dir dirSector dirOffset fs dirCluster dirSector False entryCount
         }))"

end
