(* ===== verification/FatList.thy ===== *)
theory FatList
  imports Main
begin

text \<open>
  The intrusive doubly linked lists of \<open>include/fat_list.h\<close>, which hold the open and the free
  file handles. A node is named by the handle it is embedded in; the links of all nodes are one
  map, which the lists share.
\<close>

record fat_node =
  prev_node :: "nat option"
  next_node :: "nat option"

record fat_list =
  list_head :: "nat option"
  list_tail :: "nat option"

type_synonym nodes = "nat \<Rightarrow> fat_node"

definition fat_list_init :: fat_list where
  "fat_list_init = \<lparr>list_head = None, list_tail = None\<rparr>"

definition fat_list_remove :: "nodes \<Rightarrow> fat_list \<Rightarrow> nat \<Rightarrow> nodes \<times> fat_list" where
  "fat_list_remove ns list node =
     (let (ns, list) = (case prev_node (ns node) of
            None \<Rightarrow> (ns, list\<lparr>list_head := next_node (ns node)\<rparr>)
          | Some p \<Rightarrow> (ns(p := (ns p)\<lparr>next_node := next_node (ns node)\<rparr>), list))
      in case next_node (ns node) of
           None \<Rightarrow> (ns, list\<lparr>list_tail := prev_node (ns node)\<rparr>)
         | Some q \<Rightarrow> (ns(q := (ns q)\<lparr>prev_node := prev_node (ns node)\<rparr>), list))"

definition fat_list_insert_after :: "nodes \<Rightarrow> fat_list \<Rightarrow> nat \<Rightarrow> nat \<Rightarrow> nodes \<times> fat_list" where
  "fat_list_insert_after ns list node new_node =
     (let ns = ns(new_node := \<lparr>prev_node = Some node, next_node = next_node (ns node)\<rparr>);
          (ns, list) = (case next_node (ns node) of
            None \<Rightarrow> (ns, list\<lparr>list_tail := Some new_node\<rparr>)
          | Some q \<Rightarrow> (ns(q := (ns q)\<lparr>prev_node := Some new_node\<rparr>), list))
      in (ns(node := (ns node)\<lparr>next_node := Some new_node\<rparr>), list))"

definition fat_list_insert_before :: "nodes \<Rightarrow> fat_list \<Rightarrow> nat \<Rightarrow> nat \<Rightarrow> nodes \<times> fat_list" where
  "fat_list_insert_before ns list node new_node =
     (let ns = ns(new_node := \<lparr>prev_node = prev_node (ns node), next_node = Some node\<rparr>);
          (ns, list) = (case prev_node (ns node) of
            None \<Rightarrow> (ns, list\<lparr>list_head := Some new_node\<rparr>)
          | Some p \<Rightarrow> (ns(p := (ns p)\<lparr>next_node := Some new_node\<rparr>), list))
      in (ns(node := (ns node)\<lparr>prev_node := Some new_node\<rparr>), list))"

definition fat_list_insert_first :: "nodes \<Rightarrow> fat_list \<Rightarrow> nat \<Rightarrow> nodes \<times> fat_list" where
  "fat_list_insert_first ns list node = (case list_head list of
     None \<Rightarrow> (ns(node := \<lparr>prev_node = None, next_node = None\<rparr>), \<lparr>list_head = Some node, list_tail = Some node\<rparr>)
   | Some h \<Rightarrow> fat_list_insert_before ns list h node)"

definition fat_list_insert_last :: "nodes \<Rightarrow> fat_list \<Rightarrow> nat \<Rightarrow> nodes \<times> fat_list" where
  "fat_list_insert_last ns list node = (case list_tail list of
     None \<Rightarrow> fat_list_insert_first ns list node
   | Some t \<Rightarrow> fat_list_insert_after ns list t node)"

definition fat_list_is_empty :: "fat_list \<Rightarrow> bool" where
  "fat_list_is_empty list \<longleftrightarrow> list_head list = None"

definition fat_list_pop_head :: "nodes \<Rightarrow> fat_list \<Rightarrow> nat option \<times> nodes \<times> fat_list" where
  "fat_list_pop_head ns list = (case list_head list of
     None \<Rightarrow> (None, ns, list)
   | Some node \<Rightarrow> (Some node, fat_list_remove ns list node))"

subsection \<open>Representation of a list of handles\<close>

text \<open>\<open>linked ns p xs n\<close>: the nodes \<open>xs\<close> are chained, with \<open>p\<close> in front and \<open>n\<close> behind.\<close>

fun linked :: "nodes \<Rightarrow> nat option \<Rightarrow> nat list \<Rightarrow> nat option \<Rightarrow> bool" where
  "linked ns p [] n \<longleftrightarrow> True"
| "linked ns p (x # xs) n \<longleftrightarrow>
     prev_node (ns x) = p \<and> next_node (ns x) = (case xs of [] \<Rightarrow> n | y # _ \<Rightarrow> Some y) \<and> linked ns (Some x) xs n"

definition holds :: "nodes \<Rightarrow> fat_list \<Rightarrow> nat list \<Rightarrow> bool" where
  "holds ns list xs \<longleftrightarrow> distinct xs \<and> linked ns None xs None \<and>
     list_head list = (if xs = [] then None else Some (hd xs)) \<and> list_tail list = (if xs = [] then None else Some (last xs))"

lemma linked_cong: "(\<And>x. x \<in> set xs \<Longrightarrow> ns x = ns' x) \<Longrightarrow> linked ns p xs n = linked ns' p xs n"
  by (induction xs arbitrary: p) auto

lemma linked_append:
  "linked ns p (xs @ ys) n \<longleftrightarrow>
     linked ns p xs (case ys of [] \<Rightarrow> n | y # _ \<Rightarrow> Some y) \<and> linked ns (if xs = [] then p else Some (last xs)) ys n"
proof (induction xs arbitrary: p)
  case (Cons x xs)
  then show ?case by (cases xs; cases ys) auto
qed simp

lemma holds_other: "holds ns list xs \<Longrightarrow> (\<And>x. x \<in> set xs \<Longrightarrow> ns' x = ns x) \<Longrightarrow> holds ns' list xs"
  using linked_cong [of xs ns' ns] by (auto simp: holds_def)

lemma linked_upd [simp]: "x \<notin> set xs \<Longrightarrow> linked (ns(x := v)) p xs n = linked ns p xs n"
  by (rule linked_cong) auto

lemma linked_set_prev:
  "linked ns p (x # xs) n \<Longrightarrow> x \<notin> set xs \<Longrightarrow> linked (ns(x := (ns x)\<lparr>prev_node := q\<rparr>)) q (x # xs) n"
  by auto

lemma linked_set_next:
  "linked ns p (xs @ [x]) n \<Longrightarrow> x \<notin> set xs \<Longrightarrow> linked (ns(x := (ns x)\<lparr>next_node := m\<rparr>)) p (xs @ [x]) m"
  by (auto simp: linked_append)

lemma remove_holds:
  assumes "holds ns list (us @ x # vs)" "fat_list_remove ns list x = (ns', list')"
  shows "holds ns' list' (us @ vs)" "\<And>y. y \<notin> set (us @ x # vs) \<Longrightarrow> ns' y = ns y" "ns' x = ns x"
proof -
  have d: "distinct (us @ x # vs)" and l: "linked ns None (us @ x # vs) None"
    and h: "list_head list = Some (hd (us @ [x]))" "list_tail list = Some (last (x # vs))"
    using assms(1) by (auto simp: holds_def hd_append)
  have px: "prev_node (ns x) = (if us = [] then None else Some (last us))"
    and nx: "next_node (ns x) = (case vs of [] \<Rightarrow> None | v # _ \<Rightarrow> Some v)"
    using l by (auto simp: linked_append)
  have lu: "linked ns None us (Some x)" and lv: "linked ns (Some x) vs None" using l by (auto simp: linked_append)
  show "holds ns' list' (us @ vs)" "\<And>y. y \<notin> set (us @ x # vs) \<Longrightarrow> ns' y = ns y" "ns' x = ns x"
  proof -
    consider (single) "us = []" "vs = []" | (first) v vs' where "us = []" "vs = v # vs'"
      | (final) us' u where "us = us' @ [u]" "vs = []" | (inner) us' u v vs' where "us = us' @ [u]" "vs = v # vs'"
      by (metis neq_Nil_conv rev_exhaust)
    then have "holds ns' list' (us @ vs) \<and> (\<forall>y. y \<notin> set (us @ x # vs) \<longrightarrow> ns' y = ns y) \<and> ns' x = ns x"
    proof cases
      case single
      then show ?thesis using assms(2) px nx h by (auto simp: fat_list_remove_def holds_def)
    next
      case first
      have "linked (ns(v := (ns v)\<lparr>prev_node := None\<rparr>)) None (v # vs') None"
        using linked_set_prev [of ns "Some x" v vs' None None] lv first d by simp
      then show ?thesis using first assms(2) px nx h d by (auto simp: fat_list_remove_def holds_def)
    next
      case final
      have "linked (ns(u := (ns u)\<lparr>next_node := None\<rparr>)) None (us' @ [u]) None"
        using linked_set_next [of ns None us' u "Some x" None] lu final d by simp
      then show ?thesis using final assms(2) px nx h d by (auto simp: fat_list_remove_def holds_def hd_append)
    next
      case inner
      let ?n1 = "ns(u := (ns u)\<lparr>next_node := Some v\<rparr>)"
      let ?n2 = "?n1(v := (?n1 v)\<lparr>prev_node := Some u\<rparr>)"
      have ns': "ns' = ?n2" and li: "list' = list" using inner assms(2) px nx d by (auto simp: fat_list_remove_def)
      have "linked ?n1 None (us' @ [u]) (Some v)"
        using linked_set_next [of ns None us' u "Some x" "Some v"] lu inner d by simp
      then have "linked ?n2 None (us' @ [u]) (Some v)" using inner d by (subst linked_upd) auto
      moreover have "linked ?n1 (Some x) (v # vs') None" using lv inner d by (subst linked_upd) auto
      then have "linked ?n2 (Some u) (v # vs') None" using linked_set_prev [of ?n1 "Some x" v vs' None "Some u"] inner d by simp
      ultimately have "linked ?n2 None (us @ vs) None" using inner by (simp add: linked_append)
      moreover have "list_head list = Some (hd (us @ vs))" "list_tail list = Some (last (us @ vs))" using inner h by (auto simp: hd_append)
      moreover have "distinct (us @ vs)" "us @ vs \<noteq> []" using inner d by auto
      ultimately have "holds ?n2 list (us @ vs)" by (simp add: holds_def)
      then show ?thesis using inner d by (auto simp: li ns')
    qed
    then show "holds ns' list' (us @ vs)" "\<And>y. y \<notin> set (us @ x # vs) \<Longrightarrow> ns' y = ns y" "ns' x = ns x" by auto
  qed
qed

lemma insert_last_holds:
  assumes "holds ns list xs" "x \<notin> set xs" "fat_list_insert_last ns list x = (ns', list')"
  shows "holds ns' list' (xs @ [x])" "\<And>y. y \<notin> set (x # xs) \<Longrightarrow> ns' y = ns y"
proof -
  have "holds ns' list' (xs @ [x]) \<and> (\<forall>y. y \<notin> set (x # xs) \<longrightarrow> ns' y = ns y)"
  proof (cases xs rule: rev_cases)
    case Nil
    then show ?thesis using assms by (auto simp: holds_def fat_list_insert_last_def fat_list_insert_first_def)
  next
    case (snoc us t)
    have d: "t \<noteq> x" "t \<notin> set us" "x \<notin> set us" "distinct us" and l: "linked ns None (us @ [t]) None"
      and h: "list_tail list = Some t" "list_head list = Some (hd xs)"
      using assms(1,2) snoc by (auto simp: holds_def)
    let ?n1 = "ns(x := \<lparr>prev_node = Some t, next_node = None\<rparr>)"
    let ?n2 = "?n1(t := (?n1 t)\<lparr>next_node := Some x\<rparr>)"
    have nt: "next_node (ns t) = None" using l by (simp add: linked_append)
    have r: "ns' = ?n2" "list' = list\<lparr>list_tail := Some x\<rparr>"
      using assms(3) h d nt by (auto simp: fat_list_insert_last_def fat_list_insert_after_def)
    have "linked ?n1 None (us @ [t]) None" using l d by (subst linked_upd) auto
    then have "linked ?n2 None (us @ [t]) (Some x)" using linked_set_next [of ?n1 None us t None "Some x"] d by simp
    then have "linked ?n2 None ((us @ [t]) @ [x]) None" using d by (subst linked_append) simp
    moreover have "list_head list = Some (hd ((us @ [t]) @ [x]))" using h(2) snoc by (simp add: hd_append)
    ultimately have "holds ?n2 (list\<lparr>list_tail := Some x\<rparr>) ((us @ [t]) @ [x])" using d by (simp add: holds_def)
    then show ?thesis using d by (auto simp: r snoc)
  qed
  then show "holds ns' list' (xs @ [x])" "\<And>y. y \<notin> set (x # xs) \<Longrightarrow> ns' y = ns y" by auto
qed

lemma pop_head_holds:
  assumes "holds ns list xs"
  shows "case xs of [] \<Rightarrow> fat_list_pop_head ns list = (None, ns, list)
     | x # ys \<Rightarrow> \<exists>ns' list'. fat_list_pop_head ns list = (Some x, ns', list') \<and> holds ns' list' ys \<and>
         (\<forall>y. y \<notin> set xs \<longrightarrow> ns' y = ns y)"
proof (cases xs)
  case Nil
  then show ?thesis using assms by (simp add: holds_def fat_list_pop_head_def)
next
  case (Cons x ys)
  obtain ns' list' where r: "fat_list_remove ns list x = (ns', list')" by fastforce
  have "list_head list = Some x" using assms Cons by (simp add: holds_def)
  then show ?thesis using remove_holds [of ns list "[]" x ys, OF _ r] assms Cons r by (auto simp: fat_list_pop_head_def)
qed

end
