(* ===== verification/FatFile.thy ===== *)
theory FatFile
  imports FatDir FatList
begin

text \<open>
  The file interface: \<open>drivers/fs/fat32/fat_filelib.c\<close>. The library's globals are one record. A
  file handle is an index into \<open>_files\<close>, \<^const>\<open>None\<close> for \<open>NULL\<close>. Buffers of the caller are lists of
  bytes, returned with their new content; \<open>int\<close> results and counts are \<^typ>\<open>int\<close>, computed with
  the wrap-around of the source where it multiplies sizes. The lock callbacks are never attached
  and left out. The cluster cache of \<open>fat_cache.c\<close> is compiled without entries: its lookups always
  miss, which is how the loops below read the chain.
\<close>

record FL_FILE =
  parentcluster :: u32
  startcluster :: u32
  bytenum :: u32
  filelength :: u32
  filelength_changed :: bool
  path :: bytes
  filename :: bytes
  shortfilename :: bytes
  last_ClusterIdx :: u32
  last_CurrentCluster :: u32
  file_data_sector :: bytes
  file_data_address :: u32
  file_data_dirty :: bool
  flags :: u8

record 'd filelib =
  files :: "nat \<Rightarrow> FL_FILE"
  list_nodes :: nodes
  open_file_list :: fat_list
  free_file_list :: fat_list
  filelib_init :: bool
  filelib_valid :: bool
  vol :: "'d fatfs"

definition FATFS_MAX_OPEN_FILES :: nat where "FATFS_MAX_OPEN_FILES = 50"
definition FATFS_MAX_LONG_FILENAME :: int where "FATFS_MAX_LONG_FILENAME = 260"
definition FILE_READ :: u8 where "FILE_READ = 1"
definition FILE_WRITE :: u8 where "FILE_WRITE = 2"
definition FILE_APPEND :: u8 where "FILE_APPEND = 4"
definition FILE_BINARY :: u8 where "FILE_BINARY = 8"
definition FILE_ERASE :: u8 where "FILE_ERASE = 16"
definition FILE_CREATE :: u8 where "FILE_CREATE = 32"

definition upd_file :: "nat \<Rightarrow> (FL_FILE \<Rightarrow> FL_FILE) \<Rightarrow> 'd filelib \<Rightarrow> 'd filelib" where
  "upd_file h f s = s\<lparr>files := (files s)(h := f (files s h))\<rparr>"

text \<open>A call of a volume operation from the library: the result and the library with the new volume.\<close>

definition on_vol :: "('r \<times> 'd fatfs) option \<Rightarrow> 'd filelib \<Rightarrow> ('r \<times> 'd filelib) option" where
  "on_vol call s = map_option (\<lambda>(r, fs). (r, s\<lparr>vol := fs\<rparr>)) call"

definition fl_init :: "'d filelib \<Rightarrow> 'd filelib" where
  "fl_init s =
     (let (ns, free) = fold (\<lambda>i (ns, l). fat_list_insert_last ns l i) [0..<FATFS_MAX_OPEN_FILES] (list_nodes s, fat_list_init)
      in s\<lparr>list_nodes := ns, free_file_list := free, open_file_list := fat_list_init, filelib_init := True\<rparr>)"

definition CHECK_FL_INIT :: "'d filelib \<Rightarrow> 'd filelib" where
  "CHECK_FL_INIT s = (if \<not> filelib_init s then fl_init s else s)"

subsection \<open>File handles\<close>

definition allocate_file :: "'d filelib \<Rightarrow> nat option \<times> 'd filelib" where
  "allocate_file s =
     (let (node, ns, free) = fat_list_pop_head (list_nodes s) (free_file_list s);
          s = s\<lparr>list_nodes := ns, free_file_list := free\<rparr>
      in case node of
           None \<Rightarrow> (None, s)
         | Some h \<Rightarrow>
             (let (ns, opn) = fat_list_insert_last (list_nodes s) (open_file_list s) h
              in (Some h, s\<lparr>list_nodes := ns, open_file_list := opn\<rparr>)))"

definition free_file :: "nat \<Rightarrow> 'd filelib \<Rightarrow> 'd filelib" where
  "free_file h s =
     (let (ns, opn) = fat_list_remove (list_nodes s) (open_file_list s) h;
          (ns, free) = fat_list_insert_last ns (free_file_list s) h
      in s\<lparr>list_nodes := ns, open_file_list := opn, free_file_list := free\<rparr>)"

partial_function (option) check_open_loop :: "'d filelib \<Rightarrow> nat \<Rightarrow> nat option \<Rightarrow> bool option" where
  "check_open_loop s file node = (case node of
     None \<Rightarrow> Some False
   | Some openFile \<Rightarrow>
       if openFile \<noteq> file \<and> fatfs_compare_names (path (files s openFile)) (path (files s file))
          \<and> fatfs_compare_names (filename (files s openFile)) (filename (files s file))
       then Some True
       else check_open_loop s file (next_node (list_nodes s openFile)))"

definition check_file_open :: "'d filelib \<Rightarrow> nat \<Rightarrow> bool option" where
  "check_file_open s file = check_open_loop s file (list_head (open_file_list s))"

subsection \<open>Opening and creating\<close>

fun open_dir_loop :: "'d fatfs \<Rightarrow> bytes \<Rightarrow> int list \<Rightarrow> u32 \<Rightarrow> (u32 option \<times> 'd fatfs) option" where
  "open_dir_loop fs p [] cluster = Some (Some cluster, fs)"
| "open_dir_loop fs p (sublevel # rest) cluster = do {
     (r, currentfolder) \<leftarrow> fatfs_get_substring (Some p) sublevel [] FATFS_MAX_LONG_FILENAME;
     if r = -1 then Some (None, fs)
     else do {
       (e, fs) \<leftarrow> fatfs_get_file_entry fs cluster currentfolder;
       case e of
         None \<Rightarrow> Some (None, fs)
       | Some sfEntry \<Rightarrow>
           if fatfs_entry_is_dir sfEntry
           then open_dir_loop fs p rest (push_bit 16 (ucast (FstClusHI sfEntry)) + ucast (FstClusLO sfEntry))
           else Some (None, fs)
     }
   }"

definition open_directory :: "'d fatfs \<Rightarrow> bytes \<Rightarrow> (u32 option \<times> 'd fatfs) option" where
  "open_directory fs p = do {
     levels \<leftarrow> fatfs_total_path_levels (Some p);
     open_dir_loop fs p [0..levels] (fatfs_get_root_cluster fs)
   }"

text \<open>
  The first half of \<open>_create_directory\<close>, \<open>_open_file\<close> and \<open>_create_file\<close>: a handle with its path
  and parent directory, or \<^const>\<open>None\<close> when the call returns with the handle freed again.
\<close>

definition locate :: "bytes \<Rightarrow> 'd filelib \<Rightarrow> (nat option \<times> 'd filelib) option" where
  "locate full s = (case allocate_file s of
     (None, s) \<Rightarrow> Some (None, s)
   | (Some h, s) \<Rightarrow> do {
       (r, p, f) \<leftarrow> fatfs_split_path (Some full) [] FATFS_MAX_LONG_FILENAME [] FATFS_MAX_LONG_FILENAME;
       let s = upd_file h (\<lambda>file. file\<lparr>path := p, filename := f\<rparr>) s;
       if r = -1 then Some (None, free_file h s)
       else do {
         is_open \<leftarrow> check_file_open s h;
         if is_open then Some (None, free_file h s)
         else if p = [] then
           Some (Some h, upd_file h (\<lambda>file. file\<lparr>parentcluster := fatfs_get_root_cluster (vol s)\<rparr>) s)
         else do {
           (c, s) \<leftarrow> on_vol (open_directory (vol s) p) s;
           case c of
             None \<Rightarrow> Some (None, free_file h s)
           | Some cluster \<Rightarrow> Some (Some h, upd_file h (\<lambda>file. file\<lparr>parentcluster := cluster\<rparr>) s)
         }
       }
     })"

definition reset_file :: "FL_FILE \<Rightarrow> FL_FILE" where
  "reset_file file = file\<lparr>bytenum := 0, file_data_address := 0xFFFFFFFF, file_data_dirty := False,
     filelength_changed := False, last_ClusterIdx := 0xFFFFFFFF, last_CurrentCluster := 0xFFFFFFFF\<rparr>"

definition purge :: "'d filelib \<Rightarrow> 'd filelib" where
  "purge s = s\<lparr>vol := snd (fatfs_fat_purge (vol s))\<rparr>"

definition open_file :: "bytes \<Rightarrow> 'd filelib \<Rightarrow> (nat option \<times> 'd filelib) option" where
  "open_file full s = do {
     (h, s) \<leftarrow> locate full s;
     case h of
       None \<Rightarrow> Some (None, s)
     | Some h \<Rightarrow> do {
         (e, s) \<leftarrow> on_vol (fatfs_get_file_entry (vol s) (parentcluster (files s h)) (filename (files s h))) s;
         case e of
           None \<Rightarrow> Some (None, free_file h s)
         | Some sfEntry \<Rightarrow>
             if fatfs_entry_is_file sfEntry then
               Some (Some h, purge (upd_file h (\<lambda>file. reset_file (file\<lparr>shortfilename := Name sfEntry, filelength := FileSize sfEntry,
                 startcluster := push_bit 16 (ucast (FstClusHI sfEntry)) + ucast (FstClusLO sfEntry)\<rparr>)) s))
             else Some (None, free_file h s)
       }
   }"

text \<open>
  The loop that looks for an unused short name, with the number of attempts left out of 9999. It
  returns the tail number it ended with. \<open>stack\<close> is the uninitialised buffer of the short name.
\<close>

primrec short_name_loop :: "nat \<Rightarrow> bytes \<Rightarrow> 'd fatfs \<Rightarrow> u32 \<Rightarrow> bytes \<Rightarrow> bytes \<Rightarrow> (nat \<times> bytes \<times> 'd fatfs) option" where
  "short_name_loop 0 stack fs parent name short = Some (9999, short, fs)"
| "short_name_loop (Suc n) stack fs parent name short = do {
     let tailNum = 9999 - Suc n;
     let (_, sfn) = fatfs_lfn_create_sfn stack name;
     let short = (if tailNum \<noteq> 0 then snd (fatfs_lfn_generate_tail short sfn (of_nat tailNum)) else take 11 sfn);
     (exists, fs) \<leftarrow> fatfs_sfn_exists fs parent short;
     if \<not> exists then Some (tailNum, short, fs)
     else short_name_loop n sfn fs parent name short
   }"

text \<open>Undoing an allocation: the chain and the handle are freed.\<close>

definition undo_create :: "nat \<Rightarrow> 'd filelib \<Rightarrow> (nat option \<times> 'd filelib) option" where
  "undo_create h s = do {
     (_, s) \<leftarrow> on_vol (fatfs_free_cluster_chain (vol s) (startcluster (files s h))) s;
     Some (None, free_file h s)
   }"

text \<open>The second half of \<open>_create_directory\<close> and \<open>_create_file\<close>, from the short name on.\<close>

definition name_and_add :: "rtc \<Rightarrow> bytes \<Rightarrow> bool \<Rightarrow> nat \<Rightarrow> 'd filelib \<Rightarrow> (nat option \<times> 'd filelib) option" where
  "name_and_add clock stack dir h s = do {
     let file = files s h;
     (tailNum, short, fs) \<leftarrow> short_name_loop 9999 stack (vol s) (parentcluster file) (filename file) (shortfilename file);
     let s = upd_file h (\<lambda>file. file\<lparr>shortfilename := short\<rparr>) (s\<lparr>vol := fs\<rparr>);
     if tailNum = 9999 then undo_create h s
     else do {
       let file = files s h;
       (r, s) \<leftarrow> on_vol (fatfs_add_file_entry clock (vol s) (parentcluster file) (filename file) (shortfilename file)
                          (startcluster file) 0 dir) s;
       if r = 0 then undo_create h s
       else Some (Some h, purge (upd_file h (\<lambda>file. reset_file (file\<lparr>filelength := 0\<rparr>)) s))
     }
   }"

text \<open>Allocating the first cluster, after checking that no entry has the name.\<close>

definition reserve :: "nat \<Rightarrow> 'd filelib \<Rightarrow> (bool \<times> 'd filelib) option" where
  "reserve h s = do {
     (e, s) \<leftarrow> on_vol (fatfs_get_file_entry (vol s) (parentcluster (files s h)) (filename (files s h))) s;
     if e \<noteq> None then Some (False, free_file h s)
     else do {
       (r, c, fs) \<leftarrow> fatfs_allocate_free_space (vol s) True 0 1;
       let s = upd_file h (\<lambda>file. file\<lparr>startcluster := c\<rparr>) (s\<lparr>vol := fs\<rparr>);
       if r = 0 then Some (False, free_file h s) else Some (True, s)
     }
   }"

definition create_file :: "rtc \<Rightarrow> bytes \<Rightarrow> bytes \<Rightarrow> 'd filelib \<Rightarrow> (nat option \<times> 'd filelib) option" where
  "create_file clock stack full s =
     (if write_media (disk_io (vol s)) = None then Some (None, s)
      else do {
        (h, s) \<leftarrow> locate full s;
        case h of
          None \<Rightarrow> Some (None, s)
        | Some h \<Rightarrow> do {
            (ok, s) \<leftarrow> reserve h s;
            if \<not> ok then Some (None, s) else name_and_add clock stack False h s
          }
      })"

text \<open>
  \<open>fatfs_add_special_entries\<close> passes \<open>NULL\<close> as the short name and has no \<open>return\<close> at its end:
  \<open>null_bytes\<close> are the bytes at address 0 and \<open>eax\<close> is whatever the caller then finds as result.
\<close>

definition fatfs_add_special_entries ::
  "rtc \<Rightarrow> bytes \<Rightarrow> int \<Rightarrow> 'd fatfs \<Rightarrow> u32 \<Rightarrow> u32 \<Rightarrow> (int \<times> 'd fatfs) option" where
  "fatfs_add_special_entries clock null_bytes eax fs dirCluster parentCluster =
     (if dirCluster < 2 \<or> parentCluster < 2 then Some (0, fs)
      else do {
        (r, fs) \<leftarrow> fatfs_add_file_entry clock fs dirCluster [46] null_bytes 0 1 True;
        if r = 0 then Some (0, fs)
        else do {
          (r, fs) \<leftarrow> fatfs_add_file_entry clock fs dirCluster [46, 46] null_bytes 0 1 True;
          if r = 0 then Some (0, fs) else Some (eax, fs)
        }
      })"

primrec erase_new_dir :: "nat \<Rightarrow> 'd fatfs \<Rightarrow> u32 \<Rightarrow> bytes \<Rightarrow> nat \<Rightarrow> (int \<times> 'd fatfs) option" where
  "erase_new_dir 0 fs cluster zero i = Some (1, fs)"
| "erase_new_dir (Suc n) fs cluster zero i = do {
     (r, fs) \<leftarrow> fatfs_write_sector fs cluster (of_nat i) (Some zero);
     if r = 0 then Some (0, fs) else erase_new_dir n fs cluster zero (i + 1)
   }"

definition create_directory ::
  "rtc \<Rightarrow> bytes \<Rightarrow> bytes \<Rightarrow> int \<Rightarrow> bytes \<Rightarrow> 'd filelib \<Rightarrow> (int \<times> 'd filelib) option" where
  "create_directory clock stack null_bytes eax full s = do {
     (h, s) \<leftarrow> locate full s;
     case h of
       None \<Rightarrow> Some (0, s)
     | Some h \<Rightarrow> do {
         (ok, s) \<leftarrow> reserve h s;
         if \<not> ok then Some (0, s)
         else do {
           let s = upd_file h (\<lambda>file. file\<lparr>file_data_sector := replicate 512 0\<rparr>) s;
           (r, s) \<leftarrow> on_vol (erase_new_dir (unat (sectors_per_cluster (vol s))) (vol s) (startcluster (files s h))
                             (file_data_sector (files s h)) 0) s;
           if r = 0 then Some (0, free_file h s)
           else do {
             (r, s) \<leftarrow> on_vol (fatfs_add_special_entries clock null_bytes eax (vol s)
                               (startcluster (files s h)) (parentcluster (files s h))) s;
             (h', s) \<leftarrow> (if r = 0 then undo_create h s else name_and_add clock stack True h s);
             case h' of None \<Rightarrow> Some (0, s) | Some h \<Rightarrow> Some (1, free_file h s)
           }
         }
       }
   }"

subsection \<open>Transfers between a file and the disk\<close>

text \<open>
  The walk to the cluster with index \<open>ClusterIdx\<close>: where it starts, from the last lookup when that
  was the cluster before.
\<close>

definition walk_start :: "FL_FILE \<Rightarrow> u32 \<Rightarrow> u32 \<times> u32" where
  "walk_start file ClusterIdx =
     (if ClusterIdx \<noteq> 0 \<and> ClusterIdx = last_ClusterIdx file + 1
      then (last_ClusterIdx file, last_CurrentCluster file) else (0, startcluster file))"

text \<open>The cluster \<open>_read_sectors\<close> reads from; a walk that ends well is remembered.\<close>

definition read_cluster :: "nat \<Rightarrow> u32 \<Rightarrow> 'd filelib \<Rightarrow> (u32 \<times> 'd filelib) option" where
  "read_cluster h ClusterIdx s =
     (let file = files s h in
      if ClusterIdx = last_ClusterIdx file then Some (last_CurrentCluster file, s)
      else do {
        let (i, Cluster) = walk_start file ClusterIdx;
        (Cluster, s) \<leftarrow> on_vol (follow_chain (unat ClusterIdx - unat i) (vol s) Cluster) s;
        Some (Cluster, if Cluster \<noteq> FAT32_LAST_CLUSTER
                       then upd_file h (\<lambda>file. file\<lparr>last_CurrentCluster := Cluster, last_ClusterIdx := ClusterIdx\<rparr>) s
                       else s)
      })"

definition read_sectors :: "nat \<Rightarrow> u32 \<Rightarrow> bytes \<Rightarrow> u32 \<Rightarrow> 'd filelib \<Rightarrow> (u32 \<times> bytes \<times> 'd filelib) option" where
  "read_sectors h offset buffer count s =
     (let spc = ucast (sectors_per_cluster (vol s)) :: u32 in
      if spc = 0 then None
      else do {
        let ClusterIdx = offset div spc;
        let Sector = offset - ClusterIdx * spc;
        let count = (if Sector + count > spc then spc - Sector else count);
        (Cluster, s) \<leftarrow> read_cluster h ClusterIdx s;
        if Cluster = FAT32_LAST_CLUSTER then Some (0, buffer, s)
        else do {
          let lba = fatfs_lba_of_cluster (vol s) Cluster + Sector;
          let n = 512 * unat count;
          (r, out, fs) \<leftarrow> fatfs_sector_read (vol s) lba (take n buffer) count;
          Some (if r \<noteq> 0 then count else 0, out @ drop n buffer, s\<lparr>vol := fs\<rparr>)
        }
      })"

primrec follow_write :: "nat \<Rightarrow> 'd fatfs \<Rightarrow> u32 \<Rightarrow> u32 \<Rightarrow> (u32 \<times> u32 \<times> 'd fatfs) option" where
  "follow_write 0 fs LastCluster Cluster = Some (LastCluster, Cluster, fs)"
| "follow_write (Suc n) fs LastCluster Cluster = do {
     (nextCluster, fs) \<leftarrow> fatfs_find_next_cluster fs Cluster;
     if nextCluster = FAT32_LAST_CLUSTER then Some (Cluster, nextCluster, fs)
     else follow_write n fs Cluster nextCluster
   }"

text \<open>The cluster \<open>_write_sectors\<close> writes to, allocated when the chain is too short.\<close>

definition write_cluster :: "nat \<Rightarrow> u32 \<Rightarrow> u32 \<Rightarrow> 'd filelib \<Rightarrow> (u32 option \<times> 'd filelib) option" where
  "write_cluster h ClusterIdx TotalWriteCount s =
     (let spc = ucast (sectors_per_cluster (vol s)) :: u32; file = files s h;
          remember = (\<lambda>c. upd_file h (\<lambda>file. file\<lparr>last_CurrentCluster := c, last_ClusterIdx := ClusterIdx\<rparr>))
      in if ClusterIdx = last_ClusterIdx file then Some (Some (last_CurrentCluster file), s)
         else do {
           let (i, Cluster) = walk_start file ClusterIdx;
           (LastCluster, Cluster, fs) \<leftarrow> follow_write (unat ClusterIdx - unat i) (vol s) FAT32_LAST_CLUSTER Cluster;
           let s = s\<lparr>vol := fs\<rparr>;
           if Cluster = FAT32_LAST_CLUSTER then do {
             (r, c, fs) \<leftarrow> fatfs_add_free_space (vol s) LastCluster ((TotalWriteCount + spc - 1) div spc);
             let s = s\<lparr>vol := fs\<rparr>;
             Some (if r = 0 then (None, s) else (Some c, remember c s))
           }
           else Some (Some Cluster, remember Cluster s)
         })"

definition write_sectors :: "nat \<Rightarrow> u32 \<Rightarrow> bytes \<Rightarrow> u32 \<Rightarrow> 'd filelib \<Rightarrow> (u32 \<times> 'd filelib) option" where
  "write_sectors h offset buf TotalWriteCount s =
     (let spc = ucast (sectors_per_cluster (vol s)) :: u32 in
      if spc = 0 then None
      else do {
        let ClusterIdx = offset div spc;
        let SectorNumber = offset - ClusterIdx * spc;
        let count = (if SectorNumber + TotalWriteCount > spc then spc - SectorNumber else TotalWriteCount);
        (c, s) \<leftarrow> write_cluster h ClusterIdx TotalWriteCount s;
        case c of
          None \<Rightarrow> Some (0, s)
        | Some Cluster \<Rightarrow> do {
            let lba = fatfs_lba_of_cluster (vol s) Cluster + SectorNumber;
            (r, s) \<leftarrow> on_vol (fatfs_sector_write (vol s) lba (take (512 * unat count) buf) count) s;
            Some (if r \<noteq> 0 then count else 0, s)
          }
      })"

definition fl_fflush :: "nat option \<Rightarrow> 'd filelib \<Rightarrow> (int \<times> 'd filelib) option" where
  "fl_fflush f s =
     (let s = CHECK_FL_INIT s in
      case f of
        None \<Rightarrow> Some (0, s)
      | Some h \<Rightarrow>
          if file_data_dirty (files s h) then do {
            (n, s) \<leftarrow> write_sectors h (file_data_address (files s h)) (file_data_sector (files s h)) 1 s;
            Some (0, if n \<noteq> 0 then upd_file h (\<lambda>file. file\<lparr>file_data_dirty := False\<rparr>) s else s)
          }
          else Some (0, s))"

definition fl_fclose :: "rtc \<Rightarrow> nat option \<Rightarrow> 'd filelib \<Rightarrow> 'd filelib option" where
  "fl_fclose clock f s =
     (let s = CHECK_FL_INIT s in
      case f of
        None \<Rightarrow> Some s
      | Some h \<Rightarrow> do {
          (_, s) \<leftarrow> fl_fflush f s;
          let file = files s h;
          (_, s) \<leftarrow> (if filelength_changed file
                     then on_vol (fatfs_update_file_length clock (vol s) (parentcluster file) (shortfilename file) (filelength file)) s
                     else Some (0, s));
          let s = upd_file h (\<lambda>file. file\<lparr>bytenum := 0, filelength := 0, startcluster := 0, file_data_address := 0xFFFFFFFF,
                                         file_data_dirty := False, filelength_changed := False\<rparr>) s;
          Some (purge (free_file h s))
        })"

subsection \<open>Attaching a medium and opening a file\<close>

definition fl_attach_media :: "'d disk_if \<Rightarrow> 'd filelib \<Rightarrow> (int \<times> 'd filelib) option" where
  "fl_attach_media io s = do {
     let s = CHECK_FL_INIT s;
     (res, s) \<leftarrow> on_vol (fatfs_init ((vol s)\<lparr>disk_io := io\<rparr>)) s;
     if res \<noteq> FAT_INIT_OK then Some (res, s)
     else Some (FAT_INIT_OK, s\<lparr>filelib_valid := True\<rparr>)
   }"

definition fl_shutdown :: "'d filelib \<Rightarrow> 'd filelib" where
  "fl_shutdown s = purge (CHECK_FL_INIT s)"

text \<open>The mode string: one character at a time.\<close>

definition mode_flag :: "u8 \<Rightarrow> u8 \<Rightarrow> u8" where
  "mode_flag c fl =
     (if c = 114 \<or> c = 82 then fl OR FILE_READ
      else if c = 119 \<or> c = 87 then fl OR FILE_WRITE OR FILE_ERASE OR FILE_CREATE
      else if c = 97 \<or> c = 65 then fl OR FILE_WRITE OR FILE_APPEND OR FILE_CREATE
      else if c = 43 then
        (if fl AND FILE_READ \<noteq> 0 then fl OR FILE_WRITE
         else if fl AND FILE_WRITE \<noteq> 0 then fl OR FILE_READ OR FILE_ERASE OR FILE_CREATE
         else if fl AND FILE_APPEND \<noteq> 0 then fl OR FILE_READ OR FILE_WRITE OR FILE_APPEND OR FILE_CREATE
         else fl)
      else if c = 98 \<or> c = 66 then fl OR FILE_BINARY
      else fl)"

text \<open>
  \<open>junk\<close> is the string that the freshly allocated buffer happens to hold, to which the source
  appends; \<open>stack\<close> is the uninitialised short name buffer. The heap traffic itself is left out.
\<close>

definition fl_fopen :: "rtc \<Rightarrow> bytes \<Rightarrow> bytes \<Rightarrow> bytes \<Rightarrow> bytes option \<Rightarrow> 'd filelib \<Rightarrow> (nat option \<times> 'd filelib) option" where
  "fl_fopen clock stack junk p mode s =
     (let path_to_use = (if first_char p \<noteq> 47 then junk @ 47 # p else p);
          s = CHECK_FL_INIT s
      in if \<not> filelib_valid s then Some (None, s)
         else case mode of
           None \<Rightarrow> Some (None, s)
         | Some mode \<Rightarrow> do {
             let flgs = fold mode_flag mode 0;
             let flgs = (if write_media (disk_io (vol s)) = None
                         then flgs AND NOT (FILE_CREATE OR FILE_WRITE OR FILE_APPEND) else flgs);
             (file, s) \<leftarrow> (if flgs AND FILE_READ \<noteq> 0 then open_file path_to_use s else Some (None, s));
             (file, s) \<leftarrow> (if file = None \<and> flgs AND FILE_CREATE \<noteq> 0 then create_file clock stack path_to_use s else Some (file, s));
             (file, s) \<leftarrow> (if flgs AND FILE_READ = 0 \<and> flgs AND FILE_CREATE \<noteq> 0 \<and> file = None
                              \<and> flgs AND (FILE_WRITE OR FILE_APPEND) \<noteq> 0
                           then open_file path_to_use s else Some (file, s));
             case file of
               None \<Rightarrow> Some (None, s)
             | Some h \<Rightarrow> Some (Some h, upd_file h (\<lambda>file. file\<lparr>flags := flgs\<rparr>) s)
           })"

subsection \<open>Reading\<close>

definition flush_dirty :: "nat \<Rightarrow> 'd filelib \<Rightarrow> 'd filelib option" where
  "flush_dirty h s =
     (if file_data_dirty (files s h) then do { (_, s) \<leftarrow> fl_fflush (Some h) s; Some s } else Some s)"

definition load_for_read :: "nat \<Rightarrow> u32 \<Rightarrow> 'd filelib \<Rightarrow> (bool \<times> 'd filelib) option" where
  "load_for_read h sector s =
     (if file_data_address (files s h) \<noteq> sector then do {
        s \<leftarrow> flush_dirty h s;
        (n, data, s) \<leftarrow> read_sectors h sector (file_data_sector (files s h)) 1 s;
        let s = upd_file h (\<lambda>file. file\<lparr>file_data_sector := data\<rparr>) s;
        if n = 0 then Some (False, s)
        else Some (True, upd_file h (\<lambda>file. file\<lparr>file_data_address := sector, file_data_dirty := False\<rparr>) s)
      }
      else Some (True, s))"

partial_function (option) fread_loop ::
  "nat \<Rightarrow> int \<Rightarrow> u32 \<Rightarrow> u32 \<Rightarrow> int \<Rightarrow> bytes \<Rightarrow> 'd filelib \<Rightarrow> (int \<times> bytes \<times> 'd filelib) option" where
  "fread_loop h count sector offset bytesRead buffer s =
     (if bytesRead < count then
        (if offset = 0 \<and> count - bytesRead \<ge> 512 then
           do {
             let at = nat bytesRead;
             (sectorsRead, out, s) \<leftarrow> read_sectors h sector (drop at buffer) (of_int ((count - bytesRead) div 512)) s;
             let buffer = take at buffer @ out;
             if sectorsRead = 0 then Some (bytesRead, buffer, s)
             else
               fread_loop h count (sector + sectorsRead) 0 (bytesRead + 512 * uint sectorsRead) buffer
                 (upd_file h (\<lambda>file. file\<lparr>bytenum := bytenum file + 512 * sectorsRead\<rparr>) s)
           }
         else
           do {
             (ok, s) \<leftarrow> load_for_read h sector s;
             if \<not> ok then Some (bytesRead, buffer, s)
             else
               (let copyCount = min (512 - int (unat offset)) (count - bytesRead);
                    buffer = put_bytes (nat bytesRead) (take (nat copyCount) (drop (unat offset) (file_data_sector (files s h)))) buffer
                in fread_loop h count (sector + 1) 0 (bytesRead + copyCount) buffer
                     (upd_file h (\<lambda>file. file\<lparr>bytenum := bytenum file + of_int copyCount\<rparr>) s))
           })
      else Some (bytesRead, buffer, s))"

definition fl_fread :: "bytes option \<Rightarrow> i32 \<Rightarrow> i32 \<Rightarrow> nat option \<Rightarrow> 'd filelib \<Rightarrow> (int \<times> bytes \<times> 'd filelib) option" where
  "fl_fread buffer sz len f s =
     (let s = CHECK_FL_INIT s; count = sz * len in
      case (buffer, f) of
        (Some buffer, Some h) \<Rightarrow>
          (let file = files s h in
           if flags file AND FILE_READ = 0 then Some (-1, buffer, s)
           else if count = 0 then Some (0, buffer, s)
           else if bytenum file \<ge> filelength file then Some (-5, buffer, s)
           else
             (let count = (if bytenum file + count > filelength file then filelength file - bytenum file else count)
              in fread_loop h (sint count) (bytenum file div 512) (bytenum file mod 512) 0 buffer s))
      | _ \<Rightarrow> Some (-2, case buffer of None \<Rightarrow> [] | Some b \<Rightarrow> b, s))"

definition fl_fgetc :: "nat option \<Rightarrow> 'd filelib \<Rightarrow> (int \<times> 'd filelib) option" where
  "fl_fgetc f s = do {
     (res, data, s) \<leftarrow> fl_fread (Some [0]) 1 1 f s;
     Some (if res = 1 then int (unat (data ! 0)) else res, s)
   }"

text \<open>The characters stored; the source terminates them and returns \<open>NULL\<close> when there are none.\<close>

primrec fgets_loop :: "nat \<Rightarrow> nat option \<Rightarrow> bytes \<Rightarrow> 'd filelib \<Rightarrow> (bytes \<times> 'd filelib) option" where
  "fgets_loop 0 f out s = Some (out, s)"
| "fgets_loop (Suc n) f out s = do {
     (ch, s) \<leftarrow> fl_fgetc f s;
     if ch < 0 then Some (out, s)
     else if ch = 10 then Some (out @ [of_int ch], s)
     else fgets_loop n f (out @ [of_int ch]) s
   }"

definition fl_fgets :: "int \<Rightarrow> nat option \<Rightarrow> 'd filelib \<Rightarrow> (bytes option \<times> 'd filelib) option" where
  "fl_fgets n f s =
     (if n > 0 then do {
        (out, s) \<leftarrow> fgets_loop (nat (n - 1)) f [] s;
        Some (if out \<noteq> [] then Some out else None, s)
      }
      else Some (None, s))"

subsection \<open>Position\<close>

datatype origin = SEEK_SET | SEEK_CUR | SEEK_END | SEEK_OTHER

definition fl_fseek :: "nat option \<Rightarrow> i32 \<Rightarrow> origin \<Rightarrow> 'd filelib \<Rightarrow> int \<times> 'd filelib" where
  "fl_fseek f offset whence s =
     (let s = CHECK_FL_INIT s in
      case f of
        None \<Rightarrow> (-1, s)
      | Some h \<Rightarrow>
          if whence = SEEK_END \<and> offset \<noteq> 0 then (-1, s)
          else
            (let s = upd_file h (\<lambda>file. file\<lparr>file_data_address := 0xFFFFFFFF, file_data_dirty := False\<rparr>) s;
                 clip = (\<lambda>file. if bytenum file > filelength file then file\<lparr>bytenum := filelength file\<rparr> else file)
             in case whence of
                  SEEK_SET \<Rightarrow> (0, upd_file h (\<lambda>file. clip (file\<lparr>bytenum := offset\<rparr>)) s)
                | SEEK_CUR \<Rightarrow>
                    if sint offset \<ge> 0 then (0, upd_file h (\<lambda>file. clip (file\<lparr>bytenum := bytenum file + offset\<rparr>)) s)
                    else (0, upd_file h (\<lambda>file. if - offset > bytenum file then file\<lparr>bytenum := 0\<rparr>
                                                else file\<lparr>bytenum := bytenum file - (- offset)\<rparr>) s)
                | SEEK_END \<Rightarrow> (0, upd_file h (\<lambda>file. file\<lparr>bytenum := filelength file\<rparr>) s)
                | SEEK_OTHER \<Rightarrow> (-1, s)))"

definition fl_fgetpos :: "nat option \<Rightarrow> 'd filelib \<Rightarrow> u32 option" where
  "fl_fgetpos f s = map_option (\<lambda>h. bytenum (files s h)) f"

definition fl_ftell :: "nat option \<Rightarrow> 'd filelib \<Rightarrow> i32" where
  "fl_ftell f s = (case fl_fgetpos f s of None \<Rightarrow> 0 | Some pos \<Rightarrow> pos)"

definition fl_feof :: "nat option \<Rightarrow> 'd filelib \<Rightarrow> int" where
  "fl_feof f s = (case f of None \<Rightarrow> -1 | Some h \<Rightarrow> if bytenum (files s h) = filelength (files s h) then -1 else 0)"

subsection \<open>Writing\<close>

definition release_buffer :: "nat \<Rightarrow> 'd filelib \<Rightarrow> 'd filelib option" where
  "release_buffer h s =
     (if file_data_address (files s h) \<noteq> 0xFFFFFFFF then do {
        s \<leftarrow> flush_dirty h s;
        Some (upd_file h (\<lambda>file. file\<lparr>file_data_address := 0xFFFFFFFF, file_data_dirty := False\<rparr>) s)
      }
      else Some s)"

definition load_for_write :: "nat \<Rightarrow> u32 \<Rightarrow> bool \<Rightarrow> 'd filelib \<Rightarrow> 'd filelib option" where
  "load_for_write h sector partial s =
     (if file_data_address (files s h) \<noteq> sector then do {
        s \<leftarrow> flush_dirty h s;
        s \<leftarrow> (if partial then do {
                 (n, data, s) \<leftarrow> read_sectors h sector (file_data_sector (files s h)) 1 s;
                 Some (upd_file h (\<lambda>file. file\<lparr>file_data_sector := (if n = 0 then replicate 512 0 else data)\<rparr>) s)
               }
               else Some s);
        Some (upd_file h (\<lambda>file. file\<lparr>file_data_address := sector, file_data_dirty := False\<rparr>) s)
      }
      else Some s)"

partial_function (option) fwrite_loop ::
  "nat \<Rightarrow> bytes \<Rightarrow> u32 \<Rightarrow> u32 \<Rightarrow> u32 \<Rightarrow> u32 \<Rightarrow> 'd filelib \<Rightarrow> (u32 \<times> 'd filelib) option" where
  "fwrite_loop h buffer length_w sector offset bytesWritten s =
     (if bytesWritten < length_w then
        (if offset = 0 \<and> length_w - bytesWritten \<ge> 512 then
           do {
             s \<leftarrow> release_buffer h s;
             (sectorsWrote, s) \<leftarrow> write_sectors h sector (drop (unat bytesWritten) buffer) ((length_w - bytesWritten) div 512) s;
             let copyCount = 512 * sectorsWrote;
             let s = upd_file h (\<lambda>file. file\<lparr>bytenum := bytenum file + copyCount\<rparr>) s;
             if sectorsWrote = 0 then Some (bytesWritten + copyCount, s)
             else fwrite_loop h buffer length_w (sector + sectorsWrote) 0 (bytesWritten + copyCount) s
           }
         else
           do {
             let copyCount = min (512 - offset) (length_w - bytesWritten);
             s \<leftarrow> load_for_write h sector (copyCount \<noteq> 512) s;
             let chunk = take (unat copyCount) (drop (unat bytesWritten) buffer);
             fwrite_loop h buffer length_w (sector + 1) 0 (bytesWritten + copyCount)
               (upd_file h (\<lambda>file. file\<lparr>file_data_sector := put_bytes (unat offset) chunk (file_data_sector file),
                                       file_data_dirty := True, bytenum := bytenum file + copyCount\<rparr>) s)
           })
      else Some (bytesWritten, s))"

definition fl_fwrite :: "bytes \<Rightarrow> i32 \<Rightarrow> i32 \<Rightarrow> nat option \<Rightarrow> 'd filelib \<Rightarrow> (int \<times> 'd filelib) option" where
  "fl_fwrite data sz count f s =
     (let s = CHECK_FL_INIT s; length_w = sz * count in
      case f of
        None \<Rightarrow> Some (-1, s)
      | Some h \<Rightarrow>
          if flags (files s h) AND FILE_WRITE = 0 then Some (-1, s)
          else do {
            let s = (if flags (files s h) AND FILE_APPEND \<noteq> 0
                     then upd_file h (\<lambda>file. file\<lparr>bytenum := filelength file\<rparr>) s else s);
            let pos = bytenum (files s h);
            (_, s) \<leftarrow> fwrite_loop h data length_w (pos div 512) (pos mod 512) 0 s;
            let s = upd_file h (\<lambda>file. (if bytenum file > filelength file then file\<lparr>filelength := bytenum file\<rparr> else file)
                                       \<lparr>filelength_changed := True\<rparr>) s;
            Some (sint (sz * count), s)
          })"

definition fl_fputc :: "int \<Rightarrow> nat option \<Rightarrow> 'd filelib \<Rightarrow> (int \<times> 'd filelib) option" where
  "fl_fputc c f s = do {
     (res, s) \<leftarrow> fl_fwrite [of_int c] 1 1 f s;
     Some (if res = 1 then c else res, s)
   }"

definition fl_fputs :: "bytes \<Rightarrow> nat option \<Rightarrow> 'd filelib \<Rightarrow> (int \<times> 'd filelib) option" where
  "fl_fputs str f s = fl_fwrite str 1 (of_nat (length str)) f s"

subsection \<open>Whole files and directories\<close>

definition fl_remove :: "rtc \<Rightarrow> bytes \<Rightarrow> bytes \<Rightarrow> bytes \<Rightarrow> 'd filelib \<Rightarrow> (int \<times> 'd filelib) option" where
  "fl_remove clock stack junk name s = do {
     (file, s) \<leftarrow> fl_fopen clock stack junk name (Some [114]) s;
     case file of
       None \<Rightarrow> Some (-1, s)
     | Some h \<Rightarrow> do {
         (r, s) \<leftarrow> on_vol (fatfs_free_cluster_chain (vol s) (startcluster (files s h))) s;
         if r = 0 then Some (-1, s)
         else do {
           (r, s) \<leftarrow> on_vol (fatfs_mark_file_deleted clock (vol s) (parentcluster (files s h)) (shortfilename (files s h))) s;
           if r = 0 then Some (-1, s)
           else do { s \<leftarrow> fl_fclose clock file s; Some (0, s) }
         }
       }
   }"

definition fl_createdirectory ::
  "rtc \<Rightarrow> bytes \<Rightarrow> bytes \<Rightarrow> int \<Rightarrow> bytes \<Rightarrow> 'd filelib \<Rightarrow> (int \<times> 'd filelib) option" where
  "fl_createdirectory clock stack null_bytes eax p s = create_directory clock stack null_bytes eax p (CHECK_FL_INIT s)"

definition fl_opendir :: "bytes \<Rightarrow> 'd filelib \<Rightarrow> (fs_dir_list_status option \<times> 'd filelib) option" where
  "fl_opendir p s = do {
     let s = CHECK_FL_INIT s;
     levels \<leftarrow> fatfs_total_path_levels (Some p);
     (cluster, s) \<leftarrow> (if levels + 1 = 0 then Some (Some (fatfs_get_root_cluster (vol s)), s)
                      else on_vol (open_directory (vol s) p) s);
     Some (case cluster of
             None \<Rightarrow> None
           | Some c \<Rightarrow> if c \<noteq> FAT32_INVALID_CLUSTER then Some (fatfs_list_directory_start c) else None, s)
   }"

definition fl_readdir ::
  "lfn_cache \<Rightarrow> fs_dir_list_status \<Rightarrow> 'd filelib \<Rightarrow> (fs_dir_ent option \<times> fs_dir_list_status \<times> 'd filelib) option" where
  "fl_readdir stack dirls s =
     (let s = CHECK_FL_INIT s in
      map_option (\<lambda>(e, d, fs). (e, d, s\<lparr>vol := fs\<rparr>)) (fatfs_list_directory_next stack (vol s) dirls))"

definition fl_is_dir :: "bytes \<Rightarrow> 'd filelib \<Rightarrow> (bool \<times> 'd filelib) option" where
  "fl_is_dir p s = do { (d, s) \<leftarrow> fl_opendir p s; Some (d \<noteq> None, s) }"

partial_function (option) count_files_loop ::
  "lfn_cache \<Rightarrow> fs_dir_list_status \<Rightarrow> 'd filelib \<Rightarrow> nat \<Rightarrow> nat \<Rightarrow> (nat \<times> nat \<times> 'd filelib) option" where
  "count_files_loop stack dirls s dir_count file_count = do {
     (e, dirls, s) \<leftarrow> fl_readdir stack dirls s;
     case e of
       None \<Rightarrow> Some (dir_count, file_count, s)
     | Some dirent \<Rightarrow>
         if de_is_dir dirent then count_files_loop stack dirls s (dir_count + 1) file_count
         else count_files_loop stack dirls s dir_count (file_count + 1)
   }"

definition fl_count_files :: "lfn_cache \<Rightarrow> bytes \<Rightarrow> 'd filelib \<Rightarrow> nat \<Rightarrow> nat \<Rightarrow> (nat \<times> nat \<times> 'd filelib) option" where
  "fl_count_files stack p s dir_count file_count = do {
     (d, s) \<leftarrow> fl_opendir p (CHECK_FL_INIT s);
     case d of
       None \<Rightarrow> Some (dir_count, file_count, s)
     | Some dirstat \<Rightarrow> count_files_loop stack dirstat s dir_count file_count
   }"

partial_function (option) file_list_loop ::
  "lfn_cache \<Rightarrow> fs_dir_list_status \<Rightarrow> 'd filelib \<Rightarrow> bytes list \<Rightarrow> (bytes list \<times> 'd filelib) option" where
  "file_list_loop stack dirls s out = do {
     (e, dirls, s) \<leftarrow> fl_readdir stack dirls s;
     case e of
       None \<Rightarrow> Some (out, s)
     | Some dirent \<Rightarrow>
         file_list_loop stack dirls s (if de_is_dir dirent then out else out @ [take 255 (de_filename dirent)])
   }"

text \<open>\<open>fl_listdirectory\<close> collects at most \<open>MAX\<close> names of each kind; what it prints is left out.\<close>

partial_function (option) list_dir_loop ::
  "lfn_cache \<Rightarrow> fs_dir_list_status \<Rightarrow> 'd filelib \<Rightarrow> bytes list \<Rightarrow> bytes list \<Rightarrow> (bytes list \<times> bytes list \<times> 'd filelib) option" where
  "list_dir_loop stack dirls s dirs fls = do {
     (e, dirls, s) \<leftarrow> fl_readdir stack dirls s;
     case e of
       None \<Rightarrow> Some (dirs, fls, s)
     | Some dirent \<Rightarrow>
         (let name = take 255 (de_filename dirent) in
          if de_is_dir dirent
          then list_dir_loop stack dirls s (if length dirs < 100 then dirs @ [name] else dirs) fls
          else list_dir_loop stack dirls s dirs (if length fls < 100 then fls @ [name] else fls))
   }"

definition fl_listdirectory ::
  "lfn_cache \<Rightarrow> bytes \<Rightarrow> 'd filelib \<Rightarrow> bytes list \<Rightarrow> bytes list \<Rightarrow> (bytes list \<times> bytes list \<times> 'd filelib) option" where
  "fl_listdirectory stack p s dirs fls = do {
     (d, s) \<leftarrow> fl_opendir p (CHECK_FL_INIT s);
     case d of None \<Rightarrow> Some (dirs, fls, s) | Some dirstat \<Rightarrow> list_dir_loop stack dirstat s dirs fls
   }"

definition fl_populate_file_list :: "lfn_cache \<Rightarrow> bytes \<Rightarrow> 'd filelib \<Rightarrow> bytes list \<Rightarrow> (bytes list \<times> 'd filelib) option" where
  "fl_populate_file_list stack p s out = do {
     (d, s) \<leftarrow> fl_opendir p (CHECK_FL_INIT s);
     case d of None \<Rightarrow> Some (out, s) | Some dirstat \<Rightarrow> file_list_loop stack dirstat s out
   }"

definition get_file_size :: "rtc \<Rightarrow> nat option \<Rightarrow> 'd filelib \<Rightarrow> (i32 \<times> 'd filelib) option" where
  "get_file_size clock f s = (case f of
     None \<Rightarrow> Some (-1, s)
   | Some h \<Rightarrow>
       (let current_pos = fl_ftell f s in
        if current_pos = -1 then do { s \<leftarrow> fl_fclose clock f s; Some (-1, s) }
        else
          (let (r, s) = fl_fseek f 0 SEEK_END s in
           if r \<noteq> 0 then do { s \<leftarrow> fl_fclose clock f s; Some (-1, s) }
           else
             (let sz = fl_ftell f s; (r, s) = fl_fseek f current_pos SEEK_SET s in
              if sz = -1 \<or> r \<noteq> 0 then do { s \<leftarrow> fl_fclose clock f s; Some (-1, s) }
              else Some (sz, s)))))"

definition is_file :: "rtc \<Rightarrow> bytes \<Rightarrow> bytes \<Rightarrow> bytes \<Rightarrow> 'd filelib \<Rightarrow> (int \<times> 'd filelib) option" where
  "is_file clock stack junk p s = do {
     (fp, s) \<leftarrow> fl_fopen clock stack junk p (Some [114]) s;
     Some (if fp = None then -1 else 0, s)
   }"

text \<open>The copying loop of \<open>rename\<close>, which waits for \<open>EOF\<close>, that is for \<open>-1\<close>.\<close>

partial_function (option) copy_loop :: "nat option \<Rightarrow> nat option \<Rightarrow> 'd filelib \<Rightarrow> 'd filelib option" where
  "copy_loop old_file new_file s = do {
     (c, s) \<leftarrow> fl_fgetc old_file s;
     if c = -1 then Some s
     else do {
       (_, s) \<leftarrow> fl_fputc c new_file s;
       copy_loop old_file new_file s
     }
   }"

definition rename :: "rtc \<Rightarrow> bytes \<Rightarrow> bytes \<Rightarrow> bytes \<Rightarrow> bytes \<Rightarrow> 'd filelib \<Rightarrow> (int \<times> 'd filelib) option" where
  "rename clock stack junk old_name new_name s = do {
     (old_file, s) \<leftarrow> fl_fopen clock stack junk old_name (Some [114, 98]) s;
     if old_file = None then Some (-1, s)
     else do {
       (new_file, s) \<leftarrow> fl_fopen clock stack junk new_name (Some [119, 98]) s;
       if new_file = None then do { s \<leftarrow> fl_fclose clock old_file s; Some (-1, s) }
       else do {
         s \<leftarrow> copy_loop old_file new_file s;
         s \<leftarrow> fl_fclose clock old_file s;
         s \<leftarrow> fl_fclose clock new_file s;
         (r, s) \<leftarrow> fl_remove clock stack junk old_name s;
         Some (if r \<noteq> 0 then -1 else 0, s)
       }
     }
   }"

end
