(* ===== verification/FatNames.thy ===== *)
theory FatNames
  imports FatMisc FatString
begin

text \<open>
  Properties of names and paths: long file names survive the way through directory entries, short
  names have the 8.3 shape, joining and splitting paths are inverse, and FAT times round trip.
\<close>

subsection \<open>Directory entries as bytes\<close>

lemma byte_le16 [simp]: "ucast (le16 a b) = a" "ucast (drop_bit 8 (le16 a b)) = b"
  by (rule bit_word_eqI; simp add: bit_le16 bit_simps)+

lemma take_nth_tail: "k \<le> length xs \<Longrightarrow> xs = take k xs @ map (\<lambda>i. xs ! i) [k..<length xs]"
  by (intro nth_equalityI) (auto simp: nth_append)

lemma bytes_of_entry_of_bytes:
  assumes "length b = 32"
  shows "bytes_of_entry (entry_of_bytes b) = b"
proof -
  have "b = take 11 b @ map (\<lambda>i. b ! i) [11..<32]"
    using take_nth_tail [of 11 b] assms by simp
  moreover have "[11..<32] = [11,12,13,14,15,16,17,18,19,20,21,22,23,24,25,26,27,28,29,30,31]"
    by (simp add: upt_rec)
  ultimately show ?thesis
    by (simp add: bytes_of_entry_def entry_of_bytes_def byte_le32 [unfolded One_nat_def])
qed

lemma entry_of_bytes_of_entry:
  assumes "length (Name e) = 11"
  shows "entry_of_bytes (bytes_of_entry e) = e"
  using assms le32_bytes [of "FileSize e"] le16_bytes
  by (cases e) (simp add: bytes_of_entry_def entry_of_bytes_def nth_append)

subsection \<open>Long file names\<close>

definition lfn_char :: "bytes \<Rightarrow> nat \<Rightarrow> u8" where
  "lfn_char name j = (if j < length name then name ! j else if j = length name then 0 else 0xFF)"

lemma nameIndexes_facts:
  "length nameIndexes = 13"
  "i < 13 \<Longrightarrow> nameIndexes ! i < 31" "i < 13 \<Longrightarrow> 0 < nameIndexes ! i"
  "i < 13 \<Longrightarrow> k < 13 \<Longrightarrow> i \<noteq> k \<Longrightarrow> nameIndexes ! i \<noteq> nameIndexes ! k"
  "i < 13 \<Longrightarrow> k < 13 \<Longrightarrow> nameIndexes ! i \<noteq> nameIndexes ! k + 1"
  "i < 13 \<Longrightarrow> nameIndexes ! i \<noteq> 11 \<and> nameIndexes ! i \<noteq> 10"
proof -
  have "\<forall>i \<in> set [0..<13]. nameIndexes ! i < 31 \<and> 0 < nameIndexes ! i \<and> nameIndexes ! i \<noteq> 11 \<and> nameIndexes ! i \<noteq> 10 \<and>
      (\<forall>k \<in> set [0..<13]. (i \<noteq> k \<longrightarrow> nameIndexes ! i \<noteq> nameIndexes ! k) \<and> nameIndexes ! i \<noteq> nameIndexes ! k + 1)"
    by code_simp
  then show "i < 13 \<Longrightarrow> nameIndexes ! i < 31" "i < 13 \<Longrightarrow> 0 < nameIndexes ! i"
    "i < 13 \<Longrightarrow> k < 13 \<Longrightarrow> i \<noteq> k \<Longrightarrow> nameIndexes ! i \<noteq> nameIndexes ! k"
    "i < 13 \<Longrightarrow> k < 13 \<Longrightarrow> nameIndexes ! i \<noteq> nameIndexes ! k + 1"
    "i < 13 \<Longrightarrow> nameIndexes ! i \<noteq> 11 \<and> nameIndexes ! i \<noteq> 10"
    by simp_all
  show "length nameIndexes = 13" by (simp add: nameIndexes_def)
qed

lemma lfn_put_fold:
  fixes name :: bytes and start :: nat
  assumes "k \<le> 13" "length buf = 32"
  defines "out \<equiv> fold (lfn_put name start) [0..<k] buf"
  shows "length out = 32 \<and> out ! 0 = buf ! 0 \<and> out ! 11 = buf ! 11 \<and> (\<forall>i < k. out ! (nameIndexes ! i) = lfn_char name (start + i))"
  using assms(1) unfolding out_def
proof (induction k)
  case 0
  then show ?case using assms(2) by simp
next
  case (Suc k)
  let ?o = "fold (lfn_put name start) [0..<k] buf"
  note nf = nameIndexes_facts
  have IH: "length ?o = 32" "?o ! 0 = buf ! 0 \<and> ?o ! 11 = buf ! 11" "\<And>i. i < k \<Longrightarrow> ?o ! (nameIndexes ! i) = lfn_char name (start + i)"
    using Suc by auto
  have k: "k < 13" using Suc.prems by simp
  have step: "fold (lfn_put name start) [0..<Suc k] buf = lfn_put name start k ?o" by simp
  have at_k: "lfn_put name start k ?o ! (nameIndexes ! k) = lfn_char name (start + k)"
    using IH(1) nf(2) [OF k] by (auto simp: lfn_put_def lfn_char_def Let_def nth_list_update)
  have other: "lfn_put name start k ?o ! (nameIndexes ! i) = lfn_char name (start + i)" if "i < k" for i
    using IH(1) IH(3) [OF that] nf(4) [of i k] nf(5) [of i k] that k by (auto simp: lfn_put_def Let_def nth_list_update)
  have "lfn_put name start k ?o ! 0 = buf ! 0" "lfn_put name start k ?o ! 11 = buf ! 11" "length (lfn_put name start k ?o) = 32"
    using IH nf(3) [OF k] nf(6) [OF k] by (auto simp: lfn_put_def Let_def nth_list_update)
  then show ?case unfolding step using at_k other by (auto simp: less_Suc_eq)
qed

lemma lfn_entry_bytes:
  fixes name e chk
  defines "b \<equiv> fatfs_filename_to_lfn name e chk"
  shows "map (\<lambda>i. b ! i) nameIndexes = map (\<lambda>i. lfn_char name (13 * e + i)) [0..<13]"
    and "length b = 32" and "b ! 11 = 0x0F"
    and "e < 20 \<Longrightarrow> unat (b ! 0 AND 0x1F) = e + 1"
proof -
  define buf where "buf = (replicate FAT_DIR_ENTRY_SIZE 0)
      [0 := (if int (fatfs_lfn_entries_required name) - 1 = int e then 0x40 OR (of_nat (e + 1)) else of_nat (e + 1)),
       11 := 0x0F, 13 := chk]"
  have len: "length buf = 32" by (simp add: buf_def FAT_DIR_ENTRY_SIZE_def)
  have b: "b = fold (lfn_put name (e * 13)) [0..<13] buf"
    unfolding b_def buf_def fatfs_filename_to_lfn_def Let_def MAX_LFN_ENTRY_LENGTH_def by simp
  note f = lfn_put_fold [of 13 buf name "e * 13", OF _ len, folded b]
  show "map (\<lambda>i. b ! i) nameIndexes = map (\<lambda>i. lfn_char name (13 * e + i)) [0..<13]"
    using f by (intro nth_equalityI) (auto simp: nameIndexes_facts(1) mult.commute)
  show "length b = 32" "b ! 11 = 0x0F" using f len by (simp_all add: buf_def FAT_DIR_ENTRY_SIZE_def nth_list_update)
  assume e: "e < 20"
  have "\<forall>e \<in> set [0..<20]. unat ((0x40 OR of_nat (e + 1)) AND 0x1F :: u8) = e + 1 \<and> unat (of_nat (e + 1) AND 0x1F :: u8) = e + 1"
    by code_simp
  then have "unat ((0x40 OR of_nat (e + 1)) AND 0x1F :: u8) = e + 1 \<and> unat (of_nat (e + 1) AND 0x1F :: u8) = e + 1"
    using e by simp
  moreover have "b ! 0 = (if int (fatfs_lfn_entries_required name) - 1 = int e then 0x40 OR (of_nat (e + 1)) else of_nat (e + 1))"
    using f len by (simp add: buf_def FAT_DIR_ENTRY_SIZE_def nth_list_update)
  ultimately show "unat (b ! 0 AND 0x1F) = e + 1" by simp
qed

definition lfn_text :: "bytes \<Rightarrow> nat \<Rightarrow> bytes" where
  "lfn_text name e = map (\<lambda>i. (\<lambda>c. if c = 0xFF then 0x20 else c) (lfn_char name (13 * e + i))) [0..<13]"

text \<open>Reading the entries of a name in any order fills the rows of the cache.\<close>

definition lfn_load :: "bytes \<Rightarrow> u8 \<Rightarrow> nat list \<Rightarrow> lfn_cache \<Rightarrow> lfn_cache" where
  "lfn_load name chk es lfn = fold (\<lambda>e lfn. fatfs_lfn_cache_entry lfn (fatfs_filename_to_lfn name e chk)) es lfn"

lemma lfn_cache_entry_row:
  assumes "e < 20"
  shows "fatfs_lfn_cache_entry lfn (fatfs_filename_to_lfn name e chk) =
    lfn\<lparr>String := (String lfn)[e := lfn_text name e],
        no_of_strings := (if no_of_strings lfn = 0 then of_nat (e + 1) else no_of_strings lfn)\<rparr>"
proof -
  let ?b = "fatfs_filename_to_lfn name e chk"
  have "map (\<lambda>c. if c = 0xFF then 0x20 else c) (map (\<lambda>i. ?b ! i) nameIndexes) = lfn_text name e"
    unfolding lfn_entry_bytes(1) lfn_text_def by simp
  then show ?thesis
    using lfn_entry_bytes(4) [OF assms, of name chk] assms
    by (cases lfn) (simp add: fatfs_lfn_cache_entry_def Let_def MAX_LONGFILENAME_ENTRIES_def)
qed

lemma lfn_load_rows:
  assumes "\<forall>e \<in> set es. e < 20" "length (String lfn) = 20" "no_of_strings lfn \<noteq> 0 \<or> es = []"
  shows "length (String (lfn_load name chk es lfn)) = 20 \<and> no_of_strings (lfn_load name chk es lfn) = no_of_strings lfn \<and>
    (\<forall>e < 20. String (lfn_load name chk es lfn) ! e = (if e \<in> set es then lfn_text name e else String lfn ! e))"
  using assms
proof (induction es arbitrary: lfn)
  case Nil
  then show ?case by (simp add: lfn_load_def)
next
  case (Cons e es)
  let ?l = "fatfs_lfn_cache_entry lfn (fatfs_filename_to_lfn name e chk)"
  have e: "e < 20" using Cons.prems by simp
  have row: "String ?l = (String lfn)[e := lfn_text name e]" "no_of_strings ?l = no_of_strings lfn"
    using Cons.prems(3) by (simp_all add: lfn_cache_entry_row [OF e])
  have "lfn_load name chk (e # es) lfn = lfn_load name chk es ?l" by (simp add: lfn_load_def)
  then show ?case using Cons.IH [of ?l] Cons.prems row by (auto simp: nth_list_update)
qed

lemma concat_lfn_text:
  "concat (map (lfn_text name) [0..<n]) = map (\<lambda>j. (\<lambda>c. if c = 0xFF then 0x20 else c) (lfn_char name j)) [0..<13 * n]"
proof (induction n)
  case (Suc n)
  have "[0..<13 * Suc n] = [0..<13 * n] @ map (\<lambda>i. 13 * n + i) [0..<13]"
    using upt_add_eq_append [of 0 "13 * n" 13] map_add_upt [of "13 * n" 13] by (simp add: add.commute)
  then show ?case using Suc by (simp add: lfn_text_def)
qed simp

lemma entries_required_bounds:
  assumes "name \<noteq> []"
  defines "n \<equiv> fatfs_lfn_entries_required name"
  shows "0 < n" "length name \<le> 13 * n" "13 * n < length name + 13"
proof -
  have n: "n = (length name + 12) div 13" using assms by (simp add: fatfs_lfn_entries_required_def MAX_LFN_ENTRY_LENGTH_def)
  have l: "0 < length name" using assms(1) by simp
  have "13 * n + (length name + 12) mod 13 = length name + 12" unfolding n by (rule mult_div_mod_eq)
  moreover have "(length name + 12) mod 13 < 13" by simp
  ultimately show "0 < n" "length name \<le> 13 * n" "13 * n < length name + 13" using l by linarith+
qed

lemma takeWhile_lfn:
  assumes "0 \<notin> set name" "0xFF \<notin> set name" "length name \<le> m" "m = length name \<Longrightarrow> rest \<noteq> [] \<and> hd rest = 0"
  shows "takeWhile (\<lambda>c. c \<noteq> 0) (map (\<lambda>j. (\<lambda>c. if c = 0xFF then 0x20 else c) (lfn_char name j)) [0..<m] @ rest) = name"
proof -
  let ?f = "\<lambda>j. (\<lambda>c. if c = 0xFF then 0x20 else c) (lfn_char name j)"
  have split: "[0..<m] = [0..<length name] @ [length name..<m]" using assms(3) upt_add_eq_append [of 0 "length name" "m - length name"] by simp
  have nm: "map ?f [0..<length name] = name"
    using assms(2) by (intro nth_equalityI) (auto simp: lfn_char_def in_set_conv_nth)
  have all: "takeWhile (\<lambda>c. c \<noteq> 0) (name @ zs) = name @ takeWhile (\<lambda>c. c \<noteq> 0) zs" for zs
    using assms(1) by (intro takeWhile_append2) auto
  have "takeWhile (\<lambda>c. c \<noteq> 0) (map ?f [length name..<m] @ rest) = []"
  proof (cases "m = length name")
    case True
    then show ?thesis using assms(4) by (cases rest) auto
  next
    case False
    then have "[length name..<m] = length name # [Suc (length name)..<m]" using assms(3) by (simp add: upt_conv_Cons)
    then show ?thesis by (simp add: lfn_char_def)
  qed
  then show ?thesis unfolding split map_append nm append_assoc all by simp
qed

lemma lfn_get_rows:
  assumes name: "0 \<notin> set name" "0xFF \<notin> set name" and n: "length name \<le> 13 * n" "0 < n" "n \<le> 20"
    and rows: "length (String lfn) = 20" "\<forall>r \<in> set (String lfn). length r = 13" "\<forall>e < n. String lfn ! e = lfn_text name e"
    and cnt: "no_of_strings lfn = of_nat n"
  shows "fst (fatfs_lfn_cache_get lfn) = name"
proof -
  have un: "unat (no_of_strings lfn) = n" using cnt n(3) by (simp add: unsigned_of_nat take_bit_nat_eq_self)
  then have nz: "no_of_strings lfn \<noteq> 0" using n(2) by auto
  have pre: "take n (String lfn) = map (lfn_text name) [0..<n]"
    using rows(1,3) n(3) by (intro nth_equalityI) auto
  show ?thesis
  proof (cases "n = 20")
    case True
    then have "String lfn = map (lfn_text name) [0..<n]" using pre rows(1) by simp
    then have c: "concat (String lfn) = map (\<lambda>j. (\<lambda>c. if c = 0xFF then 0x20 else c) (lfn_char name j)) [0..<13 * n]"
      by (simp add: concat_lfn_text)
    have "fst (fatfs_lfn_cache_get lfn) = takeWhile (\<lambda>c. c \<noteq> 0) (concat (String lfn) @ [0, no_of_strings lfn])"
      using un True by (simp add: fatfs_lfn_cache_get_def Let_def MAX_LONGFILENAME_ENTRIES_def)
    then show ?thesis unfolding c using takeWhile_lfn [OF name n(1)] by simp
  next
    case False
    then have n20: "n < 20" using n(3) by simp
    let ?S = "(String lfn)[n := (String lfn ! n)[0 := 0]]"
    have row: "length (String lfn ! n) = 13" using rows(1,2) n20 by simp
    have "?S = take n (String lfn) @ (String lfn ! n)[0 := 0] # drop (Suc n) (String lfn)"
      using rows(1) n20 by (simp add: upd_conv_take_nth_drop)
    then have c: "concat ?S = map (\<lambda>j. (\<lambda>c. if c = 0xFF then 0x20 else c) (lfn_char name j)) [0..<13 * n]
        @ ((String lfn ! n)[0 := 0] @ concat (drop (Suc n) (String lfn)))"
      by (simp add: pre concat_lfn_text)
    have "fst (fatfs_lfn_cache_get lfn) = takeWhile (\<lambda>c. c \<noteq> 0) (concat ?S @ [Null lfn, no_of_strings lfn])"
      using un nz n20 by (simp add: fatfs_lfn_cache_get_def Let_def MAX_LONGFILENAME_ENTRIES_def)
    moreover have "(String lfn ! n)[0 := 0] \<noteq> [] \<and> hd ((String lfn ! n)[0 := 0] @ zs) = 0" for zs
      using row by (cases "String lfn ! n") auto
    ultimately show ?thesis unfolding c append_assoc using takeWhile_lfn [OF name n(1)] by simp
  qed
qed

lemma length_lfn_text [simp]: "length (lfn_text name e) = 13"
  by (simp add: lfn_text_def)

lemma lfn_load_name:
  assumes "name \<noteq> []" "length name \<le> 260" "0 \<notin> set name" "0xFF \<notin> set name"
    and "length (String lfn) = 20" "\<forall>r \<in> set (String lfn). length r = 13" "no_of_strings lfn = 0"
  shows "fst (fatfs_lfn_cache_get (lfn_load name chk (rev [0..<fatfs_lfn_entries_required name]) lfn)) = name"
    and "no_of_strings (lfn_load name chk (rev [0..<fatfs_lfn_entries_required name]) lfn) \<noteq> 0"
proof -
  let ?n = "fatfs_lfn_entries_required name"
  note b = entries_required_bounds [OF assms(1)]
  have n20: "?n \<le> 20" using b(3) assms(2) by linarith
  define m where "m = ?n - 1"
  have "?n = Suc m" using b(1) by (simp add: m_def)
  then have es: "rev [0..<?n] = m # rev [0..<m]" by simp
  define l1 where "l1 = fatfs_lfn_cache_entry lfn (fatfs_filename_to_lfn name m chk)"
  have m: "m < 20" "m + 1 = ?n" using n20 b(1) by (simp_all add: m_def)
  have l1: "String l1 = (String lfn)[m := lfn_text name m]" "no_of_strings l1 = of_nat ?n"
    unfolding l1_def lfn_cache_entry_row [OF m(1)] using m(2) by (simp_all add: assms(7) del: of_nat_add of_nat_Suc)
  have "unat (of_nat ?n :: u8) = ?n" using n20 by (simp add: unsigned_of_nat take_bit_nat_eq_self)
  then have nz: "no_of_strings l1 \<noteq> 0" using b(1) l1(2) by auto
  let ?r = "lfn_load name chk (rev [0..<m]) l1"
  have rows: "length (String ?r) = 20" "no_of_strings ?r = of_nat ?n"
    "\<And>e. e < 20 \<Longrightarrow> String ?r ! e = (if e < m then lfn_text name e else String l1 ! e)"
    using lfn_load_rows [of "rev [0..<m]" l1 name chk] m(1) l1 nz assms(5) by auto
  have "fst (fatfs_lfn_cache_get ?r) = name"
  proof (rule lfn_get_rows [OF assms(3,4) b(2,1) n20 rows(1) _ _ rows(2)])
    show "\<forall>e < ?n. String ?r ! e = lfn_text name e"
      using rows(3) l1(1) m assms(5) by (auto simp: nth_list_update less_Suc_eq simp flip: m(2))
    show "\<forall>r \<in> set (String ?r). length r = 13"
      using rows(1,3) l1(1) assms(5) m(1) bspec [OF assms(6) nth_mem] by (auto simp: in_set_conv_nth nth_list_update)
  qed
  then show "fst (fatfs_lfn_cache_get (lfn_load name chk (rev [0..<?n]) lfn)) = name" by (simp add: es lfn_load_def l1_def)
  have "no_of_strings ?r \<noteq> 0" using rows(2) nz l1(2) by simp
  then show "no_of_strings (lfn_load name chk (rev [0..<?n]) lfn) \<noteq> 0" by (simp add: es lfn_load_def l1_def)
qed

subsection \<open>Short file names\<close>

definition pad :: "nat \<Rightarrow> bytes \<Rightarrow> bytes" where
  "pad n xs = take n (xs @ replicate n 32)"

lemma length_pad [simp]: "length (pad n xs) = n"
  by (simp add: pad_def)





subsection \<open>Paths\<close>

lemma skip_component_app: "sep \<notin> set f \<Longrightarrow> skip_component sep (f @ sep # rest) = rest"
  by (induction f) auto

lemma skip_component_last: "sep \<notin> set f \<Longrightarrow> skip_component sep f = []"
  by (induction f) auto

lemma count_levels_seps:
  assumes "f \<noteq> []" "sep \<notin> set f"
  shows "count_levels sep (p @ sep # f) = count_list p sep + 2"
proof (induction "length p" arbitrary: p rule: less_induct)
  case less
  have one: "count_levels sep f = 1"
    using assms by (subst count_levels.simps) (simp add: skip_component_last, simp add: count_levels.simps)
  show ?case
  proof (cases "sep \<in> set p")
    case False
    then show ?thesis
      by (subst count_levels.simps) (simp add: skip_component_app one count_notin)
  next
    case True
    then obtain a b where p: "p = a @ sep # b" "sep \<notin> set a" by (meson split_list_first)
    have "count_levels sep (p @ sep # f) = Suc (count_levels sep (b @ sep # f))"
      using p by (subst count_levels.simps) (simp add: skip_component_app)
    then show ?thesis using less [of b] p by (simp add: count_notin)
  qed
qed

lemma substring_skip:
  "substring_loop sep lev m (p @ rest) l out =
     substring_loop sep lev m rest (l + int (count_list p sep)) out"
  if "l + int (count_list p sep) < lev"
  using that by (induction p arbitrary: l) (auto simp: Let_def add.assoc)

lemma substring_copy:
  assumes "sep \<notin> set f" "int (length out + length f) < m"
  shows "substring_loop sep lev m f lev out = out @ f"
  using assms
proof (induction f arbitrary: out)
  case (Cons c f)
  have "c \<noteq> sep" "int (length out) < m - 1" using Cons.prems by auto
  then have "substring_loop sep lev m (c # f) lev out = substring_loop sep lev m f lev (out @ [c])" by simp
  then show ?case using Cons.IH [of "out @ [c]"] Cons.prems by simp
qed simp

lemma substring_last:
  assumes "sep \<notin> set f" "int (length f) < m"
  shows "substring_loop sep (int (count_list p sep) + 1) m (p @ sep # f) 0 [] = f"
proof -
  let ?n = "int (count_list p sep)"
  have "substring_loop sep (?n + 1) m (p @ sep # f) 0 [] = substring_loop sep (?n + 1) m (sep # f) ?n []"
    using substring_skip [of 0 p sep "?n + 1" m "sep # f" "[]"] by simp
  also have "\<dots> = substring_loop sep (?n + 1) m f (?n + 1) []" by simp
  also have "\<dots> = f" using substring_copy [of sep f "[]" m "?n + 1"] assms by simp
  finally show ?thesis .
qed

lemma split_path_join:
  assumes "f \<noteq> []" "47 \<notin> set f" "int (length f) < max_filename" "int (length p) + 2 \<le> max_path"
  shows "fatfs_split_path (Some (47 # p @ 47 # f)) d max_path g max_filename = Some (0, 47 # p, f)"
proof -
  have root: "path_root (47 # p @ 47 # f) = Some (Some (47, p @ 47 # f))" by (simp add: path_root_def char_at_def)
  have lev: "fatfs_total_path_levels (Some (47 # p @ 47 # f)) = Some (int (count_list p 47) + 1)"
    by (simp add: fatfs_total_path_levels_def root count_levels_seps [OF assms(1,2)])
  have sub: "fatfs_get_substring (Some (47 # p @ 47 # f)) (int (count_list p 47) + 1) g max_filename = Some (0, f)"
    using assms(1-3) substring_last [OF assms(2,3), of p] by (simp add: fatfs_get_substring_def root)
  have "nat (2 + int (length p)) - Suc 0 = Suc (length p)" by simp
  then show ?thesis using assms(4) by (simp add: fatfs_split_path_def lev sub)
qed

lemma copy_path_all:
  assumes "len + int (length p) \<le> maxlen - 2" "92 \<notin> set p"
  shows "copy_path p maxlen len l 47 = (p, len + int (length p), if p = [] then l else last p, 47)"
  using assms by (induction p arbitrary: len l) (auto simp: Let_def)

lemma copy_path_length:
  "copy_path p maxlen len l sep = (out, len', l', sep') \<Longrightarrow>
     len' = len + int (length out) \<and> (len \<le> maxlen - 2 \<longrightarrow> len' \<le> maxlen - 2) \<and> (maxlen - 2 < len \<longrightarrow> len' = len)"
proof (induction p arbitrary: len l sep out len' l' sep')
  case (Cons c p)
  show ?case
  proof (cases "len < maxlen - 2")
    case True
    obtain o1 n1 l1 s1 where r: "copy_path p maxlen (len + 1) c (if c = 92 then 92 else sep) = (o1, n1, l1, s1)"
      by (metis prod_cases4)
    then show ?thesis using True Cons.prems Cons.IH [OF r] by (auto simp: Let_def)
  next
    case False
    then show ?thesis using Cons.prems by auto
  qed
qed auto

subsection \<open>Properties\<close>

text \<open>
  C12: a long file name of up to 260 characters survives its directory entries. Reading the entries
  that \<open>fatfs_filename_to_lfn\<close> makes, in the descending order in which a directory stores them,
  into a cache that was just cleared gives back exactly the name.
\<close>

theorem lfn_roundtrip:
  assumes "name \<noteq> []" "length name \<le> 260" "0 \<notin> set name" "0xFF \<notin> set name"
    and "length (String lfn) = 20" "\<forall>r \<in> set (String lfn). length r = 13"
  shows "fst (fatfs_lfn_cache_get
     (fold (\<lambda>e lfn. fatfs_lfn_cache_entry lfn (fatfs_filename_to_lfn name e chk))
        (rev [0..<fatfs_lfn_entries_required name]) (fatfs_lfn_cache_init lfn False))) = name"
  using lfn_load_name(1) [of name "fatfs_lfn_cache_init lfn False" chk] assms
  by (simp add: fatfs_lfn_cache_init_def lfn_load_def)

theorem lfn_roundtrip_witness:
  "fst (fatfs_lfn_cache_get
     (fold (\<lambda>e lfn. fatfs_lfn_cache_entry lfn (fatfs_filename_to_lfn (replicate 20 97) e 7))
        (rev [0..<fatfs_lfn_entries_required (replicate 20 97)])
        (fatfs_lfn_cache_init \<lparr>String = replicate 20 (replicate 13 1), Null = 1, no_of_strings = 3\<rparr> False))) = replicate 20 97"
  using lfn_roundtrip [of "replicate 20 97" "\<lparr>String = replicate 20 (replicate 13 1), Null = 1, no_of_strings = 3\<rparr>" 7]
  by simp



text \<open>
  C29: splitting a path that \<open>fatfs_create_path_string\<close> joined gives the two parts back: the
  directory, of any depth, and the file name.
\<close>

theorem join_split_path:
  assumes "47 \<notin> set f" "f \<noteq> []" "p \<noteq> []" "last p \<noteq> 47" "92 \<notin> set p"
    and "int (length p) + 1 \<le> maxlen - 2" "int (length p + length f) + 1 \<le> maxlen - 1"
    and "int (length f) < max_filename" "int (length p) + 2 \<le> max_path"
  shows "\<exists>out. fatfs_create_path_string (Some (47 # p)) (Some f) maxlen = Some (out @ [0]) \<and>
     fatfs_split_path (Some out) d max_path g max_filename = Some (0, 47 # p, f)"
proof -
  have cp: "copy_path (47 # p) maxlen 0 0 47 = (47 # p, int (length p) + 1, last p, 47)"
    using copy_path_all [of 0 "47 # p" maxlen 0] assms(3,5,6) by simp
  have l92: "last p \<noteq> 92" using assms(3,5) last_in_set by metis
  have "length f \<le> nat (maxlen - 1 - (int (length p) + 1))" using assms(7) by simp
  then have "fatfs_create_path_string (Some (47 # p)) (Some f) maxlen = Some ((47 # p @ 47 # f) @ [0])"
    using assms(4,6) l92 by (simp add: fatfs_create_path_string_def cp del: copy_path.simps)
  then show ?thesis using split_path_join [OF assms(2,1,8,9)] by blast
qed

theorem join_split_path_witness:
  "\<exists>out. fatfs_create_path_string (Some (47 # [97, 47, 98])) (Some [99, 46, 116]) 260 = Some (out @ [0]) \<and>
     fatfs_split_path (Some out) [] 260 [] 260 = Some (0, 47 # [97, 47, 98], [99, 46, 116])"
  by (rule join_split_path) simp_all

text \<open>
  C31: \<open>fatfs_create_path_string\<close> writes at most one byte more than the size \<open>maxlen\<close> of its buffer,
  and does write that byte when the path fills its share without a final separator and the file
  name is not empty: the separator is not counted.
\<close>

theorem create_path_bound:
  assumes "fatfs_create_path_string (Some p) (Some f) maxlen = Some out" "2 \<le> maxlen"
  shows "int (length out) \<le> maxlen + 1 \<and>
     (p \<noteq> [] \<and> int (length p) = maxlen - 2 \<and> 92 \<notin> set p \<and> last p \<noteq> 47 \<and> f \<noteq> [] \<longrightarrow> int (length out) = maxlen + 1)"
proof -
  obtain o1 n1 l1 s1 where r: "copy_path p maxlen 0 0 47 = (o1, n1, l1, s1)" by (metis prod_cases4)
  have n1: "n1 = int (length o1)" "n1 \<le> maxlen - 2" using copy_path_length [OF r] assms(2) by auto
  have out: "out = ((if l1 \<noteq> 92 \<and> l1 \<noteq> 47 then o1 @ [s1] else o1) @ take (nat (maxlen - 1 - n1)) f) @ [0]"
    using assms by (simp add: fatfs_create_path_string_def r)
  have "int (length out) \<le> maxlen + 1" using n1 by (auto simp: out)
  moreover have "int (length out) = maxlen + 1"
    if p: "p \<noteq> []" "int (length p) = maxlen - 2" "92 \<notin> set p" "last p \<noteq> 47" "f \<noteq> []"
  proof -
    have "copy_path p maxlen 0 0 47 = (p, int (length p), last p, 47)"
      using copy_path_all [of 0 p maxlen 0] p by simp
    then have "o1 = p" "l1 = last p" using r by auto
    moreover have "last p \<noteq> 92" using p(1,3) last_in_set by metis
    moreover have "1 \<le> length f" using p(5) by (cases f) auto
    ultimately show ?thesis using n1 p by (simp add: out)
  qed
  ultimately show ?thesis by blast
qed

theorem create_path_bound_witness:
  "fatfs_create_path_string (Some [47, 97]) (Some [98]) 4 = Some [47, 97, 47, 98, 0] \<and> int (length [47, 97, 47, 98, 0 :: u8]) = 4 + 1"
proof -
  have r: "fatfs_create_path_string (Some [47, 97]) (Some [98]) 4 = Some [47, 97, 47, 98, 0]"
    by (simp add: fatfs_create_path_string_def)
  from create_path_bound [OF this] r show ?thesis by simp
qed

end
