(* ===== verification/FatFileProps.thy ===== *)
theory FatFileProps
  imports FatFile FatNames
begin

text \<open>
  Properties of directories and of the file interface: a name added to a directory is found again,
  the handle lists are queues of handles, and three ways in which the interface loses data or
  does not return.
\<close>

subsection \<open>A directory sector\<close>

definition item_bytes :: "bytes \<Rightarrow> nat \<Rightarrow> bytes" where
  "item_bytes sector item = take FAT_DIR_ENTRY_SIZE (drop (FAT_DIR_ENTRY_SIZE * item) sector)"

lemma entry_at_item: "entry_at sector item = entry_of_bytes (item_bytes sector item)"
  by (simp add: entry_at_def item_bytes_def)

lemma length_put_bytes: "at + length xs \<le> length s \<Longrightarrow> length (put_bytes at xs s) = length s"
  by (simp add: put_bytes_def)

lemma item_put:
  assumes "length xs = 32" "length s = 512" "i < 16" "j < 16"
  shows "item_bytes (put_bytes (FAT_DIR_ENTRY_SIZE * j) xs s) i = (if i = j then xs else item_bytes s i)"
proof -
  have p: "put_bytes (32 * j) xs s ! m = (if m < 32 * j then s ! m else if m < 32 * j + 32 then xs ! (m - 32 * j) else s ! m)"
    if "m < 512" for m
    using that assms by (auto simp: put_bytes_def nth_append)
  have l: "length (put_bytes (32 * j) xs s) = 512" using assms by (simp add: length_put_bytes)
  show ?thesis
  proof (rule nth_equalityI)
    show "length (item_bytes (put_bytes (FAT_DIR_ENTRY_SIZE * j) xs s) i) = length (if i = j then xs else item_bytes s i)"
      using l assms by (simp add: item_bytes_def FAT_DIR_ENTRY_SIZE_def)
    fix m assume "m < length (item_bytes (put_bytes (FAT_DIR_ENTRY_SIZE * j) xs s) i)"
    then have m: "m < 32" by (simp add: item_bytes_def FAT_DIR_ENTRY_SIZE_def)
    have r: "item_bytes (put_bytes (FAT_DIR_ENTRY_SIZE * j) xs s) i ! m = put_bytes (32 * j) xs s ! (32 * i + m)"
      "item_bytes s i ! m = s ! (32 * i + m)"
      using m l assms by (simp_all add: item_bytes_def FAT_DIR_ENTRY_SIZE_def)
    consider "i < j" | "i = j" | "j < i" by linarith
    then show "item_bytes (put_bytes (FAT_DIR_ENTRY_SIZE * j) xs s) i ! m = (if i = j then xs else item_bytes s i) ! m"
    proof cases
      case 1
      then have "32 * i + m < 32 * j" using m by linarith
      then show ?thesis using 1 r p [of "32 * i + m"] m assms by simp
    next
      case 2
      then show ?thesis using r p [of "32 * i + m"] m assms by simp
    next
      case 3
      then have "\<not> 32 * i + m < 32 * j + 32" using m by linarith
      then show ?thesis using 3 r p [of "32 * i + m"] m assms by simp
    qed
  qed
qed

text \<open>The long entries of a name, in the descending order in which a directory holds them.\<close>

primrec lfn_fill :: "bytes \<Rightarrow> u8 \<Rightarrow> nat \<Rightarrow> nat \<Rightarrow> bytes \<Rightarrow> bytes" where
  "lfn_fill name chk 0 j s = s"
| "lfn_fill name chk (Suc m) j s =
     lfn_fill name chk m (j + 1) (put_bytes (FAT_DIR_ENTRY_SIZE * j) (fatfs_filename_to_lfn name m chk) s)"

lemma length_lfn_fill: "length s = 512 \<Longrightarrow> j + m \<le> 16 \<Longrightarrow> length (lfn_fill name chk m j s) = 512"
proof (induction m arbitrary: j s)
  case (Suc m)
  have "length (put_bytes (FAT_DIR_ENTRY_SIZE * j) (fatfs_filename_to_lfn name m chk) s) = 512"
    using Suc.prems by (subst length_put_bytes) (auto simp: FAT_DIR_ENTRY_SIZE_def lfn_entry_bytes(2))
  then show ?case using Suc by simp
qed simp

lemma item_lfn_fill:
  assumes "length s = 512" "j + m \<le> 16" "i < 16"
  shows "item_bytes (lfn_fill name chk m j s) i =
    (if j \<le> i \<and> i < j + m then fatfs_filename_to_lfn name (j + m - 1 - i) chk else item_bytes s i)"
  using assms
proof (induction m arbitrary: j s)
  case (Suc m)
  let ?s = "put_bytes (FAT_DIR_ENTRY_SIZE * j) (fatfs_filename_to_lfn name m chk) s"
  have l: "length ?s = 512"
    using Suc.prems by (subst length_put_bytes) (auto simp: FAT_DIR_ENTRY_SIZE_def lfn_entry_bytes(2))
  have "item_bytes ?s i = (if i = j then fatfs_filename_to_lfn name m chk else item_bytes s i)"
    using item_put [OF lfn_entry_bytes(2) Suc.prems(1,3), of j] Suc.prems(2) by simp
  then show ?case using Suc.IH [of ?s "j + 1"] l Suc.prems by auto
qed auto

lemma add_items_fill:
  assumes "j + m < 16" "j \<le> 16"
  shows "add_items clock name short c sz dir start [j..<16] (s, True, m, d) =
    Inl (put_entry (j + m) (fatfs_update_timestamps clock True True True (fatfs_sfn_create_entry short sz c dir))
          (lfn_fill name (sfn_checksum short) m j s))"
  using assms
proof (induction m arbitrary: j s d)
  case 0
  then show ?case by (simp add: upt_conv_Cons)
next
  case (Suc m)
  then show ?case using Suc.IH [of "j + 1"] by (simp add: upt_conv_Cons)
qed

lemma add_items_start:
  assumes "k + n < 16" "j \<le> k"
  shows "add_items clock name short c sz dir (\<lambda>item. item = k) [j..<16] (s, False, n, False) =
    add_items clock name short c sz dir (\<lambda>item. item = k) [k..<16] (s, False, n, False)"
  using assms
proof (induction "k - j" arbitrary: j)
  case (Suc m)
  then have "j < k" by linarith
  then show ?case using Suc.hyps(1) [of "j + 1"] Suc.hyps(2) Suc.prems by (simp add: upt_conv_Cons)
qed simp

lemma add_items_found:
  assumes "k < 16"
  shows "add_items clock name short c sz dir (\<lambda>item. item = k) [k..<16] (s, False, n, d) =
    add_items clock name short c sz dir (\<lambda>item. item = k) [k..<16] (s, True, n, d)"
  using assms by (simp add: upt_conv_Cons)

lemma lfn_entry_kind: "fatfs_entry_lfn_text (entry_of_bytes (fatfs_filename_to_lfn name e chk))"
  by (simp add: fatfs_entry_lfn_text_def entry_of_bytes_def lfn_entry_bytes(3) FILE_ATTR_LFN_TEXT_def)

lemma search_lfn:
  assumes "\<And>i. j \<le> i \<Longrightarrow> i < j + m \<Longrightarrow> item_bytes s i = fatfs_filename_to_lfn name (j + m - 1 - i) chk" "j + m \<le> 16"
  shows "search_items s target [j..<16] lfn = search_items s target [j + m..<16] (lfn_load name chk (rev [0..<m]) lfn)"
  using assms
proof (induction m arbitrary: j lfn)
  case (Suc m)
  have b: "item_bytes s j = fatfs_filename_to_lfn name m chk" using Suc.prems(1) [of j] by simp
  have "search_items s target [j..<16] lfn =
      search_items s target [j + 1..<16] (fatfs_lfn_cache_entry lfn (fatfs_filename_to_lfn name m chk))"
    using Suc.prems(2) b lfn_entry_kind [of name m chk]
    by (simp add: upt_conv_Cons entry_at_item Let_def) (simp add: item_bytes_def)
  also have "\<dots> = search_items s target [j + 1 + m..<16]
      (lfn_load name chk (rev [0..<m]) (fatfs_lfn_cache_entry lfn (fatfs_filename_to_lfn name m chk)))"
    using Suc.IH [of "j + 1"] Suc.prems by simp
  finally show ?case by (simp add: lfn_load_def)
qed (simp add: lfn_load_def)

lemma StrCmpNoCase_refl: "FileString_StrCmpNoCase n s s = 0"
  by (induction n arbitrary: s) (auto simp: Let_def)

lemma compare_names_refl: "fatfs_compare_names s s"
  by (simp add: fatfs_compare_names_def Let_def StrCmpNoCase_refl)

lemma timestamps_keep [simp]:
  "Name (fatfs_update_timestamps clock a b c e) = Name e" "Attr (fatfs_update_timestamps clock a b c e) = Attr e"
  "FstClusHI (fatfs_update_timestamps clock a b c e) = FstClusHI e" "FstClusLO (fatfs_update_timestamps clock a b c e) = FstClusLO e"
  "FileSize (fatfs_update_timestamps clock a b c e) = FileSize e"
  by (simp_all add: fatfs_update_timestamps_def Let_def)

lemma split_cluster:
  "push_bit 16 (ucast (ucast (drop_bit 16 c AND 0xFFFF) :: u16)) OR ucast (ucast (c AND 0xFFFF) :: u16) = (c :: u32)"
proof -
  have m: "(0xFFFF :: u32) = mask 16" by (simp add: mask_eq_exp_minus_1)
  show ?thesis unfolding m by (rule bit_word_eqI) (auto simp: bit_simps)
qed

lemma sfn_entry_facts:
  fixes dir :: bool and c sz :: u32 and clock :: rtc
  assumes "length short = 11" "short ! 0 \<noteq> 0" "short ! 0 \<noteq> 0xE5"
  defines "e \<equiv> fatfs_update_timestamps clock True True True (fatfs_sfn_create_entry short sz c dir)"
  shows "\<not> fatfs_entry_lfn_text e" "\<not> fatfs_entry_lfn_invalid e" "no_of_strings lfn \<noteq> 0 \<Longrightarrow> fatfs_entry_lfn_exists lfn e"
    and "first_cluster e = c" "FileSize e = sz" "fatfs_entry_is_dir e = dir" "length (Name e) = 11"
proof -
  have a: "Attr e = (if dir then 0x10 else 0x20)" and n: "Name e = short" and "FileSize e = sz"
    using assms(1) by (auto simp: e_def fatfs_sfn_create_entry_def FILE_TYPE_FILE_def FILE_TYPE_DIR_def)
  then show "FileSize e = sz" "length (Name e) = 11" using assms(1) by auto
  show "\<not> fatfs_entry_lfn_text e" "\<not> fatfs_entry_lfn_invalid e" "no_of_strings lfn \<noteq> 0 \<Longrightarrow> fatfs_entry_lfn_exists lfn e"
    "fatfs_entry_is_dir e = dir"
    using assms(2,3) a n
    by (auto simp: fatfs_entry_lfn_text_def fatfs_entry_lfn_invalid_def fatfs_entry_lfn_exists_def fatfs_entry_is_dir_def
        FILE_ATTR_LFN_TEXT_def FILE_ATTR_SYSHID_def FILE_ATTR_VOLUME_ID_def FILE_HEADER_BLANK_def FILE_HEADER_DELETED_def FILE_TYPE_DIR_def)
  show "first_cluster e = c" using split_cluster [of c] by (simp add: first_cluster_def e_def fatfs_sfn_create_entry_def)
qed

lemma length_bytes_of_entry: "length (Name e) = 11 \<Longrightarrow> length (bytes_of_entry e) = 32"
  by (simp add: bytes_of_entry_def)

subsection \<open>The lists of handles\<close>

definition handles :: "'d filelib \<Rightarrow> nat list \<Rightarrow> nat list \<Rightarrow> bool" where
  "handles s opn free \<longleftrightarrow> holds (list_nodes s) (open_file_list s) opn \<and> holds (list_nodes s) (free_file_list s) free \<and>
     distinct (opn @ free) \<and> set (opn @ free) = {..<FATFS_MAX_OPEN_FILES}"

lemma init_fold_holds:
  "n \<le> N \<Longrightarrow> holds (fst (fold (\<lambda>i (ns, l). fat_list_insert_last ns l i) [0..<n] (ns0, fat_list_init)))
     (snd (fold (\<lambda>i (ns, l). fat_list_insert_last ns l i) [0..<n] (ns0, fat_list_init))) [0..<n]"
proof (induction n)
  case 0
  then show ?case by (simp add: holds_def fat_list_init_def)
next
  case (Suc n)
  obtain ns l where r: "fold (\<lambda>i (ns, l). fat_list_insert_last ns l i) [0..<n] (ns0, fat_list_init) = (ns, l)" by fastforce
  obtain ns' l' where q: "fat_list_insert_last ns l n = (ns', l')" by fastforce
  show ?case using insert_last_holds(1) [OF _ _ q] Suc r q by simp
qed

lemma holds_nil: "holds ns fat_list_init []"
  by (simp add: holds_def fat_list_init_def)

lemma init_handles: "handles (fl_init s) [] [0..<FATFS_MAX_OPEN_FILES]"
  using init_fold_holds [of FATFS_MAX_OPEN_FILES FATFS_MAX_OPEN_FILES "list_nodes s"]
  by (auto simp: handles_def fl_init_def Let_def holds_nil split: prod.splits)

lemma allocate_handles:
  assumes "handles s opn (h # free)"
  shows "\<exists>s'. allocate_file s = (Some h, s') \<and> handles s' (opn @ [h]) free"
proof -
  have d: "distinct (opn @ h # free)" and o: "holds (list_nodes s) (open_file_list s) opn"
    and f: "holds (list_nodes s) (free_file_list s) (h # free)" using assms by (auto simp: handles_def)
  obtain ns1 l1 where p: "fat_list_pop_head (list_nodes s) (free_file_list s) = (Some h, ns1, l1)" "holds ns1 l1 free"
    "\<And>y. y \<notin> set (h # free) \<Longrightarrow> ns1 y = list_nodes s y"
    using pop_head_holds [OF f] by auto
  have o1: "holds ns1 (open_file_list s) opn" by (rule holds_other [OF o], rule p(3)) (use d in auto)
  obtain ns2 l2 where q: "fat_list_insert_last ns1 (open_file_list s) h = (ns2, l2)" by fastforce
  have hn: "h \<notin> set opn" using d by auto
  note i = insert_last_holds [OF o1 hn q]
  have f2: "holds ns2 l1 free" by (rule holds_other [OF p(2)], rule i(2)) (use d in auto)
  have "allocate_file s = (Some h, s\<lparr>list_nodes := ns2, free_file_list := l1, open_file_list := l2\<rparr>)"
    using p(1) q by (simp add: allocate_file_def Let_def)
  moreover have "set ((opn @ [h]) @ free) = {..<FATFS_MAX_OPEN_FILES}" using assms by (simp add: handles_def)
  ultimately show ?thesis using i(1) f2 d by (auto simp: handles_def)
qed

lemma allocate_none:
  assumes "handles s opn []"
  shows "\<exists>s'. allocate_file s = (None, s') \<and> handles s' opn []"
  using pop_head_holds [of "list_nodes s" "free_file_list s" "[]"] assms by (auto simp: handles_def allocate_file_def Let_def)

lemma free_handles:
  assumes "handles s (us @ h # vs) free"
  shows "handles (free_file h s) (us @ vs) (free @ [h])"
proof -
  have d: "distinct ((us @ h # vs) @ free)" and o: "holds (list_nodes s) (open_file_list s) (us @ h # vs)"
    and f: "holds (list_nodes s) (free_file_list s) free" using assms by (auto simp: handles_def)
  obtain ns1 l1 where p: "fat_list_remove (list_nodes s) (open_file_list s) h = (ns1, l1)" by fastforce
  note r = remove_holds [OF o p]
  have f1: "holds ns1 (free_file_list s) free" by (rule holds_other [OF f], rule r(2)) (use d in auto)
  obtain ns2 l2 where q: "fat_list_insert_last ns1 (free_file_list s) h = (ns2, l2)" by fastforce
  have hn: "h \<notin> set free" using d by auto
  note i = insert_last_holds [OF f1 hn q]
  have o2: "holds ns2 l1 (us @ vs)" by (rule holds_other [OF r(1)], rule i(2)) (use d in auto)
  have "free_file h s = s\<lparr>list_nodes := ns2, open_file_list := l1, free_file_list := l2\<rparr>"
    using p q by (simp add: free_file_def Let_def)
  moreover have "set ((us @ vs) @ free @ [h]) = {..<FATFS_MAX_OPEN_FILES}" using assms by (auto simp: handles_def)
  ultimately show ?thesis using i(1) o2 d by (auto simp: handles_def)
qed

subsection \<open>Reading never changes the mode of a handle\<close>

definition same_flags :: "'d filelib \<Rightarrow> 'd filelib \<Rightarrow> bool" where
  "same_flags s s' \<longleftrightarrow> (\<forall>h. flags (files s' h) = flags (files s h))"

lemma same_flags_refl [simp]: "same_flags s s"
  by (simp add: same_flags_def)

lemma same_flags_trans: "same_flags a b \<Longrightarrow> same_flags b c \<Longrightarrow> same_flags a c"
  by (simp add: same_flags_def)

lemma same_flags_upd: "(\<And>file. flags (f file) = flags file) \<Longrightarrow> same_flags s (upd_file h f s)"
  by (simp add: same_flags_def upd_file_def)

lemma same_flags_vol [simp]: "same_flags s (s\<lparr>vol := fs\<rparr>)"
  by (simp add: same_flags_def)

lemma same_flags_init [simp]: "same_flags s (CHECK_FL_INIT s)"
  by (simp add: same_flags_def CHECK_FL_INIT_def fl_init_def split: prod.splits)

lemma on_vol_flags: "on_vol call s = Some (r, s') \<Longrightarrow> same_flags s s'"
  by (auto simp: on_vol_def)

lemma remember_flags [simp]:
  "same_flags s (upd_file h (\<lambda>file. file\<lparr>last_CurrentCluster := c, last_ClusterIdx := i\<rparr>) s)"
  by (rule same_flags_upd) simp

lemma read_cluster_flags: "read_cluster h i s = Some (c, s') \<Longrightarrow> same_flags s s'"
  using same_flags_trans [OF on_vol_flags remember_flags]
  by (auto simp: read_cluster_def Let_def bind_eq_Some_conv dest: on_vol_flags split: if_splits prod.splits)

lemma write_cluster_flags: "write_cluster h i n s = Some (c, s') \<Longrightarrow> same_flags s s'"
  using same_flags_trans [OF same_flags_vol remember_flags]
  by (auto simp: write_cluster_def Let_def bind_eq_Some_conv split: if_splits prod.splits) (simp_all add: same_flags_def upd_file_def)

lemma read_sectors_flags:
  assumes "read_sectors h off buf n s = Some (c, out, s')"
  shows "same_flags s s'"
proof -
  obtain c1 s1 where r: "read_cluster h (off div ucast (sectors_per_cluster (vol s))) s = Some (c1, s1)"
    and s': "s' = s1 \<or> (\<exists>fs. s' = s1\<lparr>vol := fs\<rparr>)"
    using assms by (auto simp: read_sectors_def Let_def bind_eq_Some_conv split: if_splits)
  show ?thesis using read_cluster_flags [OF r] s' same_flags_trans same_flags_vol by blast
qed

lemma write_sectors_flags:
  assumes "write_sectors h off buf n s = Some (c, s')"
  shows "same_flags s s'"
proof -
  have "\<exists>c1 s1. write_cluster h (off div ucast (sectors_per_cluster (vol s))) n s = Some (c1, s1) \<and> (s' = s1 \<or> same_flags s1 s')"
    using assms by (auto simp: write_sectors_def Let_def bind_eq_Some_conv dest: on_vol_flags split: if_splits option.splits)
  then obtain c1 s1 where r: "write_cluster h (off div ucast (sectors_per_cluster (vol s))) n s = Some (c1, s1)"
    and s': "s' = s1 \<or> same_flags s1 s'"
    by blast
  show ?thesis using write_cluster_flags [OF r] s' same_flags_trans by blast
qed

lemma fflush_flags: "fl_fflush f s = Some (r, s') \<Longrightarrow> same_flags s s'"
proof -
  assume a: "fl_fflush f s = Some (r, s')"
  have b: "same_flags (CHECK_FL_INIT s) s'"
  proof (cases "\<exists>h. f = Some h \<and> file_data_dirty (files (CHECK_FL_INIT s) h)")
    case True
    then obtain h n s1 where "write_sectors h (file_data_address (files (CHECK_FL_INIT s) h))
        (file_data_sector (files (CHECK_FL_INIT s) h)) 1 (CHECK_FL_INIT s) = Some (n, s1)"
      "s' = s1 \<or> s' = upd_file h (\<lambda>file. file\<lparr>file_data_dirty := False\<rparr>) s1"
      using a by (auto simp: fl_fflush_def Let_def bind_eq_Some_conv split: if_splits)
    moreover have "same_flags s1 (upd_file h (\<lambda>file. file\<lparr>file_data_dirty := False\<rparr>) s1)" by (rule same_flags_upd) simp
    ultimately show ?thesis using write_sectors_flags same_flags_trans by blast
  next
    case False
    then have "s' = CHECK_FL_INIT s" using a by (auto simp: fl_fflush_def Let_def split: option.splits)
    then show ?thesis by simp
  qed
  show ?thesis by (rule same_flags_trans [OF same_flags_init b])
qed

lemma same_flags_upd_right: "(\<And>file. flags (f file) = flags file) \<Longrightarrow> same_flags s (upd_file h f s') = same_flags s s'"
  by (auto simp: same_flags_def upd_file_def)

lemma same_flags_upd_left: "(\<And>file. flags (f file) = flags file) \<Longrightarrow> same_flags (upd_file h f s) s' = same_flags s s'"
  by (auto simp: same_flags_def upd_file_def)

lemmas same_flags_upds = same_flags_upd_right same_flags_upd_left

lemma flush_dirty_flags: "flush_dirty h s = Some s' \<Longrightarrow> same_flags s s'"
  by (auto simp: flush_dirty_def bind_eq_Some_conv dest: fflush_flags split: if_splits)

lemma load_for_read_flags:
  assumes "load_for_read h sector s = Some (ok, s')"
  shows "same_flags s s'"
proof (cases "file_data_address (files s h) \<noteq> sector")
  case True
  then obtain s1 n data s2 where 1: "flush_dirty h s = Some s1"
    and 2: "read_sectors h sector (file_data_sector (files s1 h)) 1 s1 = Some (n, data, s2)"
    and 3: "same_flags s2 s'"
    using assms by (auto simp: load_for_read_def Let_def bind_eq_Some_conv same_flags_upds split: if_splits)
  show ?thesis
    by (rule same_flags_trans [OF same_flags_trans [OF flush_dirty_flags [OF 1] read_sectors_flags [OF 2]] 3])
qed (use assms in \<open>simp add: load_for_read_def\<close>)

lemma load_for_write_flags:
  assumes "load_for_write h sector part s = Some s'"
  shows "same_flags s s'"
proof (cases "file_data_address (files s h) \<noteq> sector")
  case True
  then obtain s1 where 1: "flush_dirty h s = Some s1" and 2: "same_flags s1 s'"
    using assms by (auto simp: load_for_write_def Let_def bind_eq_Some_conv same_flags_upds dest: read_sectors_flags split: if_splits)
  show ?thesis by (rule same_flags_trans [OF flush_dirty_flags [OF 1] 2])
qed (use assms in \<open>simp add: load_for_write_def\<close>)

lemma release_buffer_flags: "release_buffer h s = Some s' \<Longrightarrow> same_flags s s'"
  by (auto simp: release_buffer_def bind_eq_Some_conv same_flags_upds dest: flush_dirty_flags split: if_splits)

text \<open>A read that returns keeps the modes, and delivers no less than it had delivered so far.\<close>

lemma fread_loop_flags:
  assumes "fread_loop h count sector offset n buf s = Some res"
  shows "0 \<le> n \<longrightarrow> offset < 512 \<longrightarrow> same_flags s (snd (snd res)) \<and> 0 \<le> fst res"
proof (rule fread_loop.raw_induct [where P = "\<lambda>h count sector offset n buf s res.
    0 \<le> n \<longrightarrow> offset < 512 \<longrightarrow> same_flags s (snd (snd res)) \<and> 0 \<le> fst res", rotated, OF assms], intro impI, goal_cases)
  case (1 rec h count sector offset n buf s res)
  note IH = 1(1) [rule_format] and run = 1(2) and n0 = 1(3) and off = 1(4)
  show ?case
  proof (cases "n < count")
    case False
    then show ?thesis using run n0 by auto
  next
    case lt: True
    show ?thesis
    proof (cases "offset = 0 \<and> count - n \<ge> 512")
      case True
      then obtain k out s1 where r: "read_sectors h sector (drop (nat n) buf) (of_int ((count - n) div 512)) s = Some (k, out, s1)"
        and res: "if k = 0 then res = (n, take (nat n) buf @ out, s1)
          else rec h count (sector + k) 0 (n + 512 * uint k) (take (nat n) buf @ out)
            (upd_file h (\<lambda>file. file\<lparr>bytenum := bytenum file + 512 * k\<rparr>) s1) = Some res"
        using run lt by (auto simp: Let_def bind_eq_Some_conv split: if_splits)
      have "same_flags s1 (snd (snd res)) \<and> 0 \<le> fst res"
      proof (cases "k = 0")
        case False
        then have "rec h count (sector + k) 0 (n + 512 * uint k) (take (nat n) buf @ out)
            (upd_file h (\<lambda>file. file\<lparr>bytenum := bytenum file + 512 * k\<rparr>) s1) = Some res" using res by simp
        from IH [OF this] show ?thesis using n0 by (simp add: same_flags_upds)
      qed (use res n0 in simp)
      then show ?thesis using same_flags_trans [OF read_sectors_flags [OF r]] by blast
    next
      case part: False
      define c where "c = min (512 - int (unat offset)) (count - n)"
      have "unat offset < 512" using off by (simp add: word_less_nat_alt)
      then have c: "0 \<le> c" using lt unfolding c_def by linarith
      obtain ok s1 where l: "load_for_read h sector s = Some (ok, s1)"
        and res: "\<not> ok \<longrightarrow> res = (n, buf, s1)"
          "ok \<longrightarrow> (\<exists>b. rec h count (sector + 1) 0 (n + c) b
            (upd_file h (\<lambda>file. file\<lparr>bytenum := bytenum file + of_int c\<rparr>) s1) = Some res)"
        using run lt part unfolding c_def [symmetric] by (auto simp: Let_def bind_eq_Some_conv split: if_splits)
      have "same_flags s1 (snd (snd res)) \<and> 0 \<le> fst res"
      proof (cases ok)
        case True
        then obtain b where r: "rec h count (sector + 1) 0 (n + c) b
            (upd_file h (\<lambda>file. file\<lparr>bytenum := bytenum file + of_int c\<rparr>) s1) = Some res" using res by blast
        from IH [OF r] show ?thesis using n0 c by (simp add: same_flags_upds)
      qed (use res n0 in simp)
      then show ?thesis using same_flags_trans [OF load_for_read_flags [OF l]] by blast
    qed
  qed
qed

text \<open>So does a write.\<close>

lemma fwrite_loop_flags:
  assumes "fwrite_loop h buf len sector offset n s = Some res"
  shows "same_flags s (snd res)"
proof (rule fwrite_loop.raw_induct [where P = "\<lambda>h buf len sector offset n s res. same_flags s (snd res)", rotated, OF assms], goal_cases)
  case (1 rec h buf len sector offset n s res)
  note IH = 1(1) and run = 1(2)
  show ?case
  proof (cases "n < len")
    case False
    then show ?thesis using run by auto
  next
    case lt: True
    show ?thesis
    proof (cases "offset = 0 \<and> len - n \<ge> 512")
      case True
      then obtain s1 k s2 where r: "release_buffer h s = Some s1"
        and w: "write_sectors h sector (drop (unat n) buf) ((len - n) div 512) s1 = Some (k, s2)"
        and res: "snd res = upd_file h (\<lambda>file. file\<lparr>bytenum := bytenum file + 512 * k\<rparr>) s2
          \<or> rec h buf len (sector + k) 0 (n + 512 * k) (upd_file h (\<lambda>file. file\<lparr>bytenum := bytenum file + 512 * k\<rparr>) s2) = Some res"
        using run lt by (auto simp: Let_def bind_eq_Some_conv split: if_splits)
      have "same_flags s2 (snd res)" using res by (auto simp: same_flags_upds dest!: IH)
      then show ?thesis using same_flags_trans [OF same_flags_trans [OF release_buffer_flags [OF r] write_sectors_flags [OF w]]] by blast
    next
      case False
      define c where "c = min (512 - offset) (len - n)"
      define f :: "FL_FILE \<Rightarrow> FL_FILE" where "f = (\<lambda>file. file\<lparr>file_data_sector := put_bytes (unat offset) (take (unat c) (drop (unat n) buf)) (file_data_sector file),
        file_data_dirty := True, bytenum := bytenum file + c\<rparr>)"
      have f: "flags (f x) = flags x" for x by (simp add: f_def)
      obtain s1 where l: "load_for_write h sector (c \<noteq> 512) s = Some s1"
        and r: "rec h buf len (sector + 1) 0 (n + c) (upd_file h f s1) = Some res"
        using run lt False unfolding c_def [symmetric]
        by (auto simp: Let_def bind_eq_Some_conv f_def [symmetric] split: if_splits)
      have "same_flags s1 (snd res)" using IH [OF r] by (simp add: same_flags_upds f)
      then show ?thesis by (rule same_flags_trans [OF load_for_write_flags [OF l]])
    qed
  qed
qed

lemma fread_flags:
  assumes "fl_fread buf sz n f s = Some (r, out, s')"
  shows "same_flags s s'"
proof (cases "\<exists>b h. buf = Some b \<and> f = Some h")
  case True
  then obtain b h where bh: "buf = Some b" "f = Some h" by blast
  have "s' = CHECK_FL_INIT s \<or> (\<exists>c p. fread_loop h c (p div 512) (p mod 512) 0 b (CHECK_FL_INIT s) = Some (r, out, s'))"
    using assms by (auto simp: fl_fread_def bh Let_def split: if_splits)
  moreover have "p mod 512 < 512" for p :: u32 by (simp add: word_less_nat_alt unat_mod)
  ultimately have "same_flags (CHECK_FL_INIT s) s'" using fread_loop_flags by fastforce
  then show ?thesis using same_flags_trans same_flags_init by blast
next
  case False
  then have "s' = CHECK_FL_INIT s" using assms by (auto simp: fl_fread_def Let_def split: option.splits)
  then show ?thesis by simp
qed

lemma fwrite_flags:
  assumes "fl_fwrite buf sz n f s = Some (r, s')"
  shows "same_flags s s'"
proof (cases f)
  case (Some h)
  define s0 where "s0 = CHECK_FL_INIT s"
  have 0: "same_flags s s0" by (simp add: s0_def)
  obtain s1 s2 where 1: "same_flags s0 s1" and 2: "same_flags s1 s2" and 3: "same_flags s2 s'"
  proof (cases "flags (files s0 h) AND FILE_WRITE = 0")
    case True
    then have "s' = s0" using assms by (simp add: fl_fwrite_def Some s0_def Let_def)
    then show ?thesis using that [of s0 s0] by simp
  next
    case False
    define s1 where "s1 = (if flags (files s0 h) AND FILE_APPEND \<noteq> 0 then upd_file h (\<lambda>file. file\<lparr>bytenum := filelength file\<rparr>) s0 else s0)"
    obtain k s2 where w: "fwrite_loop h buf (sz * n) (bytenum (files s1 h) div 512) (bytenum (files s1 h) mod 512) 0 s1 = Some (k, s2)"
      and s': "s' = upd_file h (\<lambda>file. (if bytenum file > filelength file then file\<lparr>filelength := bytenum file\<rparr> else file)
         \<lparr>filelength_changed := True\<rparr>) s2"
      using assms False unfolding fl_fwrite_def Some s0_def [symmetric] Let_def s1_def [symmetric]
      by (auto simp: s0_def [symmetric] s1_def [symmetric] bind_eq_Some_conv)
    show ?thesis
      by (rule that [of s1 s2]) (use fwrite_loop_flags [OF w] in \<open>simp_all add: s1_def s' same_flags_upds\<close>)
  qed
  show ?thesis using same_flags_trans [OF 0 same_flags_trans [OF 1 same_flags_trans [OF 2 3]]] .
qed (use assms in \<open>auto simp: fl_fwrite_def\<close>)

lemma fgetc_not_eof:
  assumes "fl_fgetc (Some h) s = Some (c, s')" "flags (files s h) AND FILE_READ \<noteq> 0"
  shows "c \<noteq> -1" and "same_flags s s'"
proof -
  obtain r out where r: "fl_fread (Some [0]) 1 1 (Some h) s = Some (r, out, s')"
    and c: "c = (if r = 1 then int (unat (out ! 0)) else r)"
    using assms(1) by (auto simp: fl_fgetc_def bind_eq_Some_conv)
  show "same_flags s s'" by (rule fread_flags [OF r])
  have f: "flags (files (CHECK_FL_INIT s) h) AND FILE_READ \<noteq> 0" using assms(2) same_flags_init [of s] by (simp add: same_flags_def)
  have "r = -5 \<or> (\<exists>n p. fread_loop h n (p div 512) (p mod 512) 0 [0] (CHECK_FL_INIT s) = Some (r, out, s'))"
    using r f by (auto simp: fl_fread_def Let_def split: if_splits)
  moreover have "p mod 512 < 512" for p :: u32 by (simp add: word_less_nat_alt unat_mod)
  ultimately have "r = -5 \<or> 0 \<le> r" using fread_loop_flags by fastforce
  moreover have "int (unat (out ! 0)) \<noteq> -1" by linarith
  ultimately show "c \<noteq> -1" using c by auto
qed

lemma fputc_flags: "fl_fputc c f s = Some (r, s') \<Longrightarrow> same_flags s s'"
  by (auto simp: fl_fputc_def bind_eq_Some_conv dest: fwrite_flags)

subsection \<open>Claims\<close>

text \<open>
  C25: the copy loop of \<open>rename\<close> never returns. It waits for the value \<open>-1\<close> from \<open>fl_fgetc\<close>, but the
  end of a file opened for reading is reported as \<open>-5\<close>, and reading and writing keep the mode of the handle.
\<close>

theorem rename_copy_diverges:
  assumes "flags (files s old) AND FILE_READ \<noteq> 0"
  shows "copy_loop (Some old) new s = None"
proof (rule ccontr)
  assume "copy_loop (Some old) new s \<noteq> None"
  then obtain s' where run: "copy_loop (Some old) new s = Some s'" by blast
  have "\<forall>h. Some old = Some h \<longrightarrow> flags (files s h) AND FILE_READ = 0"
  proof (rule copy_loop.raw_induct [where P = "\<lambda>old new s s'. \<forall>h. old = Some h \<longrightarrow> flags (files s h) AND FILE_READ = 0", rotated, OF run],
      intro allI impI, rule ccontr, goal_cases)
    case (1 rec old new s s' h)
    then obtain c s1 where g: "fl_fgetc (Some h) s = Some (c, s1)"
      and n: "if c = -1 then Some s1 = Some s' else (\<exists>r s2. fl_fputc c new s1 = Some (r, s2) \<and> rec old new s2 = Some s')"
      by (auto simp: bind_eq_Some_conv split: if_splits)
    note f = fgetc_not_eof [OF g 1(4)]
    then obtain r s2 where p: "fl_fputc c new s1 = Some (r, s2)" and "rec old new s2 = Some s'" using n by auto
    then have "flags (files s2 h) AND FILE_READ = 0" using 1(1) 1(3) by blast
    then show False using 1(4) same_flags_trans [OF f(2) fputc_flags [OF p]] by (simp add: same_flags_def)
  qed
  then show False using assms by blast
qed

definition open_reader :: FL_FILE where
  "open_reader = \<lparr>parentcluster = 2, startcluster = 3, bytenum = 1030, filelength = 1030, filelength_changed = False, path = [],
     filename = [97], shortfilename = replicate 11 65, last_ClusterIdx = 0xFFFFFFFF, last_CurrentCluster = 0xFFFFFFFF,
     file_data_sector = replicate 512 0, file_data_address = 2, file_data_dirty = False, flags = 3\<rparr>"

theorem rename_copy_diverges_witness:
  "\<forall>s :: unit filelib. copy_loop (Some 0) (Some 1) (s\<lparr>files := \<lambda>_. open_reader\<rparr>) = None"
  using rename_copy_diverges [of "s\<lparr>files := \<lambda>_. open_reader\<rparr>" 0 "Some 1" for s :: "unit filelib"]
  by (simp add: open_reader_def FILE_READ_def)

text \<open>A write that stays within the sector held by the handle only changes the handle.\<close>

lemma fwrite_loop_one:
  assumes "file_data_address (files s h) = sector" "data \<noteq> []" "length data < 512" "unat off + length data \<le> 512"
  shows "fwrite_loop h data (of_nat (length data)) sector off 0 s = Some (of_nat (length data),
    upd_file h (\<lambda>file. file\<lparr>file_data_sector := put_bytes (unat off) data (file_data_sector file),
      file_data_dirty := True, bytenum := bytenum file + of_nat (length data)\<rparr>) s)"
proof -
  let ?n = "of_nat (length data) :: u32"
  have n: "unat ?n = length data" using assms(3) by (simp add: unat_of_nat_u32)
  have "unat (512 - off) = 512 - unat off" using assms(4) by (subst unat_sub) (simp_all add: word_le_nat_alt)
  then have c: "min (512 - off) (?n - 0) = ?n" using assms(4) n by (auto simp: min_def word_le_nat_alt word_unat_eq_iff)
  have "0 < ?n" "\<not> 512 \<le> ?n - 0" using n assms(2,3) by (simp_all add: word_less_nat_alt word_le_nat_alt)
  then show ?thesis
    by (subst fwrite_loop.simps, subst fwrite_loop.simps)
       (simp add: c [simplified] n load_for_write_def assms(1) Let_def)
qed

text \<open>
  C28: a write that fits in the sector buffer of a handle that already holds the sector returns the number of bytes,
  puts exactly these bytes at the file position in the buffer, advances the position, extends the length
  when it passes the end, marks the buffer dirty, and neither touches the volume nor any other handle.
\<close>

theorem fwrite_buffered:
  fixes s :: "'d filelib" and data :: bytes
  defines "n \<equiv> of_nat (length data) :: u32"
  assumes "filelib_init s" "flags (files s h) AND FILE_WRITE \<noteq> 0" "flags (files s h) AND FILE_APPEND = 0"
    and "file_data_address (files s h) = bytenum (files s h) div 512" "data \<noteq> []" "length data < 512"
    and "unat (bytenum (files s h) mod 512) + length data \<le> 512"
  shows "\<exists>s'. fl_fwrite data 1 n (Some h) s = Some (int (length data), s') \<and> vol s' = vol s \<and>
    (\<forall>h'. h' \<noteq> h \<longrightarrow> files s' h' = files s h') \<and>
    files s' h = (files s h)\<lparr>file_data_sector := put_bytes (unat (bytenum (files s h) mod 512)) data (file_data_sector (files s h)),
      file_data_dirty := True, bytenum := bytenum (files s h) + n,
      filelength := max (filelength (files s h)) (bytenum (files s h) + n), filelength_changed := True\<rparr>"
proof -
  have r: "sint n = int (length data)"
    using assms(7) by (simp add: n_def signed_of_nat take_bit_nat_eq_self signed_take_bit_int_eq_self)
  show ?thesis
    using assms fwrite_loop_one [of s h "bytenum (files s h) div 512" data "bytenum (files s h) mod 512"]
    by (simp add: fl_fwrite_def CHECK_FL_INIT_def Let_def r upd_file_def max_def not_less flip: n_def)
qed

theorem fwrite_buffered_witness:
  "\<forall>s :: unit filelib. \<exists>s'. fl_fwrite [7, 8] 1 2 (Some 4) (s\<lparr>filelib_init := True, files := \<lambda>_. open_reader\<rparr>) = Some (2, s') \<and>
     file_data_sector (files s' 4) = replicate 6 0 @ [7, 8] @ replicate 504 0 \<and> filelength (files s' 4) = 1032"
proof
  fix s :: "unit filelib"
  let ?s = "s\<lparr>filelib_init := True, files := \<lambda>_. open_reader\<rparr>"
  show "\<exists>s'. fl_fwrite [7, 8] 1 2 (Some 4) ?s = Some (2, s') \<and>
     file_data_sector (files s' 4) = replicate 6 0 @ [7, 8] @ replicate 504 0 \<and> filelength (files s' 4) = 1032"
    using fwrite_buffered [of ?s 4 "[7, 8]"]
    apply (simp add: open_reader_def FILE_WRITE_def FILE_APPEND_def put_bytes_def)
    apply (elim exE conjE)
    subgoal for s' by (rule exI [of _ s']) simp
    done
qed

lemma fseek_state:
  "\<exists>f. snd (fl_fseek (Some h) off whence s) = upd_file h f (CHECK_FL_INIT s) \<and>
     (\<forall>x. whence \<noteq> SEEK_END \<or> off = 0 \<longrightarrow> \<not> file_data_dirty (f x))"
proof (cases "whence = SEEK_END \<and> off \<noteq> 0")
  case True
  then show ?thesis by (auto simp: fl_fseek_def Let_def upd_file_def intro: exI [of _ id])
next
  case False
  then show ?thesis
    by (cases whence) (auto simp: fl_fseek_def Let_def upd_file_def intro!: exI)
qed

text \<open>
  C26: every accepted \<open>fl_fseek\<close> throws away the sector buffer of the handle, written to or not: a flush right after it
  writes nothing, and the volume is what it was before the seek. The data of an earlier \<open>fl_fwrite\<close> that was still
  buffered never reaches the disk.
\<close>

theorem fseek_discards:
  assumes "filelib_init s" "whence = SEEK_END \<Longrightarrow> off = 0"
  shows "\<exists>r s'. fl_fseek (Some h) off whence s = (r, s') \<and> fl_fflush (Some h) s' = Some (0, s') \<and> vol s' = vol s"
proof -
  obtain r s' where e: "fl_fseek (Some h) off whence s = (r, s')" by fastforce
  then obtain f where f: "s' = upd_file h f s" "\<not> file_data_dirty (f x)" for x
    using fseek_state [of h off whence s] assms by (auto simp: CHECK_FL_INIT_def)
  then show ?thesis using e assms(1) by (simp add: fl_fflush_def CHECK_FL_INIT_def upd_file_def)
qed

theorem fseek_discards_witness:
  "\<forall>s :: unit filelib. \<exists>r s'. fl_fseek (Some 4) 0 SEEK_SET
     (s\<lparr>filelib_init := True, files := \<lambda>_. open_reader\<lparr>file_data_dirty := True, file_data_sector := replicate 512 9\<rparr>\<rparr>) = (r, s') \<and>
     fl_fflush (Some 4) s' = Some (0, s') \<and> vol s' = vol s"
  using fseek_discards [of "s\<lparr>filelib_init := True, files := \<lambda>_. open_reader\<lparr>file_data_dirty := True, file_data_sector := replicate 512 9\<rparr>\<rparr>"
    SEEK_SET 0 4 for s :: "unit filelib"] by simp

text \<open>
  C19: the fixed table of handles is managed by two queues. After \<open>fl_init\<close> all fifty handles are free, in order;
  \<open>allocate_file\<close> takes the head of the free queue and appends it to the open one, and fails exactly when no handle is
  free; \<open>free_file\<close> takes an open handle out and appends it to the free queue. No handle is ever lost or in both.
\<close>

theorem handle_lists:
  "handles (fl_init s) [] [0..<FATFS_MAX_OPEN_FILES] \<and>
   (\<forall>opn h free. handles s opn (h # free) \<longrightarrow> (\<exists>s'. allocate_file s = (Some h, s') \<and> handles s' (opn @ [h]) free)) \<and>
   (\<forall>opn. handles s opn [] \<longrightarrow> (\<exists>s'. allocate_file s = (None, s') \<and> handles s' opn [])) \<and>
   (\<forall>us h vs free. handles s (us @ h # vs) free \<longrightarrow> handles (free_file h s) (us @ vs) (free @ [h]))"
  using init_handles allocate_handles allocate_none free_handles by blast

theorem handle_lists_witness:
  "\<forall>s :: unit filelib. \<exists>s'. allocate_file (fl_init s) = (Some 0, s') \<and> handles (free_file 0 s') [] ([1..<50] @ [0])"
proof
  fix s :: "unit filelib"
  have u: "[0..<FATFS_MAX_OPEN_FILES] = 0 # [1..<50]" by (simp add: FATFS_MAX_OPEN_FILES_def upt_conv_Cons)
  have "handles (fl_init s) [] (0 # [1..<50])" using handle_lists [of s] unfolding u by blast
  then obtain s' where "allocate_file (fl_init s) = (Some 0, s')" "handles s' ([] @ [0]) [1..<50]"
    using handle_lists [of "fl_init s"] by blast
  then show "\<exists>s'. allocate_file (fl_init s) = (Some 0, s') \<and> handles (free_file 0 s') [] ([1..<50] @ [0])"
    using handle_lists [of s'] append.simps by metis
qed

subsection \<open>A name added to a directory is found again\<close>

lemma search_items_cong:
  assumes "\<And>i. i \<in> set items \<Longrightarrow> item_bytes s' i = item_bytes s i"
  shows "search_items s' name items lfn = search_items s name items lfn"
  using assms
proof (induction s name items lfn rule: search_items.induct)
  case (2 s name item items lfn)
  have b: "take FAT_DIR_ENTRY_SIZE (drop (FAT_DIR_ENTRY_SIZE * item) s') = take FAT_DIR_ENTRY_SIZE (drop (FAT_DIR_ENTRY_SIZE * item) s)"
    using 2(6) [of item] by (simp add: item_bytes_def)
  have e: "entry_at s' item = entry_at s item" by (simp add: entry_at_def b)
  show ?case using 2 by (simp add: e b Let_def split: prod.splits)
qed simp

lemma search_items_append:
  "search_items s name xs lfn = Inr lfn' \<Longrightarrow> search_items s name (xs @ ys) lfn = search_items s name ys lfn'"
  by (induction s name xs lfn rule: search_items.induct) (auto simp: Let_def split: if_splits prod.splits)

lemma search_added:
  assumes "length sector = 512" "name \<noteq> []" "length name \<le> 260" "0 \<notin> set name" "0xFF \<notin> set name"
    and "length short = 11" "short ! 0 \<noteq> 0" "short ! 0 \<noteq> 0xE5"
    and "length (String lfn) = 20" "\<forall>r \<in> set (String lfn). length r = 13" "no_of_strings lfn = 0"
    and n: "n = fatfs_lfn_entries_required name" "k + n < 16"
    and e: "e = fatfs_update_timestamps clock True True True (fatfs_sfn_create_entry short sz c dir)"
    and s': "s' = put_entry (k + n) e (lfn_fill name chk n k sector)"
  shows "search_items s' name [k..<16] lfn = Inl e"
    and "\<And>i. i < 16 \<Longrightarrow> i < k \<or> k + n < i \<Longrightarrow> item_bytes s' i = item_bytes sector i"
proof -
  note f = sfn_entry_facts [OF assms(6-8), where dir = dir and c = c and sz = sz and clock = clock, folded e]
  have l: "length (lfn_fill name chk n k sector) = 512" using assms(1) n(2) by (simp add: length_lfn_fill)
  have put: "item_bytes s' i = (if i = k + n then bytes_of_entry e else item_bytes (lfn_fill name chk n k sector) i)" if "i < 16" for i
    unfolding s' put_entry_def by (rule item_put [OF length_bytes_of_entry [OF f(7)] l that n(2)])
  show "item_bytes s' i = item_bytes sector i" if "i < 16" "i < k \<or> k + n < i" for i
    using put [OF that(1)] item_lfn_fill [OF assms(1), of k n i name chk] that n(2) by auto
  have b: "item_bytes s' i = fatfs_filename_to_lfn name (k + n - 1 - i) chk" if "k \<le> i" "i < k + n" for i
    using put [of i] item_lfn_fill [OF assms(1), of k n i name chk] that n(2) by auto
  define lfn' where "lfn' = lfn_load name chk (rev [0..<n]) lfn"
  have g: "fst (fatfs_lfn_cache_get lfn') = name" "no_of_strings lfn' \<noteq> 0"
    using lfn_load_name [OF assms(2-5,9-11), of chk] by (simp_all add: lfn'_def n(1))
  have "search_items s' name [k..<16] lfn = search_items s' name [k + n..<16] lfn'"
    unfolding lfn'_def by (rule search_lfn) (use b n(2) in auto)
  also have "\<dots> = Inl e"
  proof -
    obtain lfn2 where c: "fatfs_lfn_cache_get lfn' = (name, lfn2)" using g(1) by (cases "fatfs_lfn_cache_get lfn'") auto
    have "entry_at s' (k + n) = e" using put [OF n(2)] f(7) by (simp add: entry_at_item entry_of_bytes_of_entry)
    then show ?thesis using n(2) f(1,2) f(3) [OF g(2)] by (simp add: upt_conv_Cons Let_def c compare_names_refl)
  qed
  finally show "search_items s' name [k..<16] lfn = Inl e" .
qed

text \<open>
  C8: a directory entry is found again under its long name. Adding a name at an item of a directory sector from which
  its long entries and its short entry fit in the sector succeeds, and the search of the sector for that name, which found
  nothing in the items before, then stops at the new entry, with the start cluster, the size and the kind it was
  added with; the other items of the sector are unchanged.
\<close>

theorem dir_add_find:
  assumes "length sector = 512" "name \<noteq> []" "length name \<le> 260" "0 \<notin> set name" "0xFF \<notin> set name"
    and "length short = 11" "short ! 0 \<noteq> 0" "short ! 0 \<noteq> 0xE5" "k + fatfs_lfn_entries_required name < 16"
    and "search_items sector name [0..<k] lfn = Inr lfn'"
    and "length (String lfn') = 20" "\<forall>r \<in> set (String lfn'). length r = 13" "no_of_strings lfn' = 0"
  shows "\<exists>sector' e. add_items clock name short c sz dir (\<lambda>item. item = k) [0..<16]
       (sector, False, fatfs_lfn_entries_required name, False) = Inl sector' \<and>
     search_items sector' name [0..<16] lfn = Inl e \<and> first_cluster e = c \<and> FileSize e = sz \<and> fatfs_entry_is_dir e = dir \<and>
     (\<forall>i < 16. i < k \<or> k + fatfs_lfn_entries_required name < i \<longrightarrow> item_bytes sector' i = item_bytes sector i)"
proof -
  define n where "n = fatfs_lfn_entries_required name"
  define e where "e = fatfs_update_timestamps clock True True True (fatfs_sfn_create_entry short sz c dir)"
  define s' where "s' = put_entry (k + n) e (lfn_fill name (sfn_checksum short) n k sector)"
  note f = sfn_entry_facts [OF assms(6-8), where dir = dir and c = c and sz = sz and clock = clock, folded e_def]
  note kn = assms(9) [folded n_def]
  note added = search_added [OF assms(1-8,11-13) n_def kn e_def s'_def]
  have "add_items clock name short c sz dir (\<lambda>item. item = k) [0..<16] (sector, False, n, False) = Inl s'"
    using add_items_start [OF kn, of 0 clock name short c sz dir sector] add_items_found [of k clock name short c sz dir sector n False]
      add_items_fill [OF kn, of clock name short c sz dir "\<lambda>item. item = k" sector False] kn
    by (simp add: s'_def e_def)
  moreover have "search_items s' name [0..<16] lfn = Inl e"
  proof -
    have "search_items s' name [0..<k] lfn = Inr lfn'"
      using search_items_cong [of "[0..<k]" s' sector name lfn] added(2) kn assms(10) by simp
    moreover have "[0..<16] = [0..<k] @ [k..<16]" using upt_add_eq_append [of 0 k "16 - k"] kn by simp
    ultimately show ?thesis using search_items_append added(1) by metis
  qed
  ultimately show ?thesis using added(2) f(4-6) unfolding n_def by blast
qed

theorem dir_add_find_witness:
  "\<exists>sector' e. add_items (\<lambda>_. 1) (replicate 20 97) (replicate 11 65) 0x12345 77 False (\<lambda>item. item = 0) [0..<16]
       (replicate 512 0, False, 2, False) = Inl sector' \<and>
     search_items sector' (replicate 20 97) [0..<16] wiped_lfn = Inl e \<and> first_cluster e = 0x12345 \<and> FileSize e = 77"
proof -
  have n: "fatfs_lfn_entries_required (replicate 20 97) = 2" by (simp add: fatfs_lfn_entries_required_def MAX_LFN_ENTRY_LENGTH_def)
  have w: "length (String wiped_lfn) = 20" "\<forall>r \<in> set (String wiped_lfn). length r = 13" "no_of_strings wiped_lfn = 0"
    by (simp_all add: wiped_lfn_def fatfs_lfn_cache_init_def MAX_LONGFILENAME_ENTRIES_def MAX_LFN_ENTRY_LENGTH_def)
  show ?thesis
    using dir_add_find [where sector = "replicate 512 0" and name = "replicate 20 97" and short = "replicate 11 65" and k = 0 and lfn = wiped_lfn
      and lfn' = wiped_lfn and clock = "\<lambda>_. 1" and c = "0x12345" and sz = 77 and dir = False] w
    unfolding n by auto
qed

end
