(* ===== verification/FatFormat.thy ===== *)
theory FatFormat
  imports FatProps FatFile
begin

text \<open>
  Formatting a volume: \<open>drivers/fs/fat32/fat_format.c\<close>, and the mount of what it wrote. The volume
  name is the list of its characters up to the terminating NUL.
\<close>

definition cluster_size_table16 :: "(u32 \<times> u8) list" where
  "cluster_size_table16 =
     [(32680, 2), (262144, 4), (524288, 8), (1048576, 16), (2097152, 32), (4194304, 64), (8388608, 128), (0, 0)]"

definition cluster_size_table32 :: "(u32 \<times> u8) list" where
  "cluster_size_table32 = [(532480, 1), (16777216, 8), (33554432, 16), (67108864, 32), (0xFFFFFFFF, 64), (0, 0)]"

fun cluster_size_in :: "u32 \<Rightarrow> (u32 \<times> u8) list \<Rightarrow> u8" where
  "cluster_size_in sectors [] = 0"
| "cluster_size_in sectors ((limit, spc) # table) =
     (if spc = 0 then 0 else if sectors \<le> limit then spc else cluster_size_in sectors table)"

definition fatfs_calc_cluster_size :: "u32 \<Rightarrow> bool \<Rightarrow> u8" where
  "fatfs_calc_cluster_size sectors is_fat32 =
     cluster_size_in sectors (if \<not> is_fat32 then cluster_size_table16 else cluster_size_table32)"

text \<open>Writes of the volume's own buffer to \<open>n\<close> sectors in sequence, up to the first that fails.\<close>

primrec write_run :: "nat \<Rightarrow> u32 \<Rightarrow> 'd fatfs \<Rightarrow> (int \<times> 'd fatfs) option" where
  "write_run 0 lba fs = Some (1, fs)"
| "write_run (Suc n) lba fs = do {
     (r, fs) \<leftarrow> disk_write fs lba (bsector (currentsector fs)) 1;
     if r = 0 then Some (0, fs) else write_run n (lba + 1) fs
   }"

definition zero_sector :: bytes where
  "zero_sector = replicate (unat FAT_SECTOR_SIZE) 0"

definition fatfs_erase_sectors :: "'d fatfs \<Rightarrow> u32 \<Rightarrow> int \<Rightarrow> (int \<times> 'd fatfs) option" where
  "fatfs_erase_sectors fs lba count = write_run (nat count) lba (set_current zero_sector fs)"

text \<open>The boot sector, field by field.\<close>

definition boot_name :: "nat \<Rightarrow> bytes \<Rightarrow> bytes \<Rightarrow> bytes" where
  "boot_name at name sector =
     fold (\<lambda>i sector. sector[i + at := (if i < length name then name ! i else 32)]) [0..<11] sector"

definition boot_common :: "u8 \<Rightarrow> u16 \<Rightarrow> u8 \<Rightarrow> u16 \<Rightarrow> bytes \<Rightarrow> bytes" where
  "boot_common spc reserved nfats root_entries sector =
     sector[13 := spc,
            14 := ucast reserved, 15 := ucast (drop_bit 8 reserved),
            16 := nfats,
            17 := ucast root_entries, 18 := ucast (drop_bit 8 root_entries),
            19 := 0, 20 := 0,
            21 := 0xF8]"

definition boot_details16 :: "u32 \<Rightarrow> u32 \<Rightarrow> bytes \<Rightarrow> bytes \<Rightarrow> bytes" where
  "boot_details16 vol_sectors fatsz name sector =
     (boot_name 43 name
        (sector[22 := byte 0 fatsz, 23 := byte 1 fatsz,
                24 := 0, 25 := 0, 26 := 0, 27 := 0,
                28 := 0x20, 29 := 0, 30 := 0, 31 := 0,
                32 := byte 0 vol_sectors, 33 := byte 1 vol_sectors, 34 := byte 2 vol_sectors, 35 := byte 3 vol_sectors,
                36 := 0, 37 := 0, 38 := 0x29,
                39 := 0x12, 40 := 0x34, 41 := 0x56, 42 := 0x78]))
       [54 := 70, 55 := 65, 56 := 84, 57 := 49, 58 := 54, 59 := 32, 60 := 32, 61 := 32,
        510 := 0x55, 511 := 0xAA]"

definition boot_details32 :: "u32 \<Rightarrow> u32 \<Rightarrow> u32 \<Rightarrow> u16 \<Rightarrow> bytes \<Rightarrow> bytes \<Rightarrow> bytes" where
  "boot_details32 vol_sectors fatsz root_cluster info_sector name sector =
     (boot_name 71 name
        (sector[22 := 0, 23 := 0, 24 := 0x3F, 25 := 0, 26 := 0xFF, 27 := 0,
                28 := 0, 29 := 0, 30 := 0, 31 := 0,
                32 := byte 0 vol_sectors, 33 := byte 1 vol_sectors, 34 := byte 2 vol_sectors, 35 := byte 3 vol_sectors,
                36 := byte 0 fatsz, 37 := byte 1 fatsz, 38 := byte 2 fatsz, 39 := byte 3 fatsz,
                40 := 0, 41 := 0, 42 := 0, 43 := 0,
                44 := byte 0 root_cluster, 45 := byte 1 root_cluster, 46 := byte 2 root_cluster, 47 := byte 3 root_cluster,
                48 := ucast info_sector, 49 := ucast (drop_bit 8 info_sector),
                50 := 6, 51 := 0,
                64 := 0, 66 := 0x29,
                67 := 0x12, 68 := 0x34, 69 := 0x56, 70 := 0x78]))
       [82 := 70, 83 := 65, 84 := 84, 85 := 51, 86 := 50, 87 := 32, 88 := 32, 89 := 32,
        510 := 0x55, 511 := 0xAA]"

definition boot_start :: bytes where
  "boot_start = zero_sector[0 := 0xEB, 1 := 0x3C, 2 := 0x90, 3 := 0x4D, 4 := 0x53, 5 := 0x44, 6 := 0x4F, 7 := 0x53,
     8 := 0x35, 9 := 0x2E, 10 := 0x30, 11 := byte 0 FAT_SECTOR_SIZE, 12 := byte 1 FAT_SECTOR_SIZE]"

definition fatfs_create_boot_sector ::
  "'d fatfs \<Rightarrow> u32 \<Rightarrow> u32 \<Rightarrow> bytes \<Rightarrow> bool \<Rightarrow> (int \<times> 'd fatfs) option" where
  "fatfs_create_boot_sector fs boot_sector_lba vol_sectors name is_fat32 =
     (let fs = set_current boot_start fs;
          fs = fs\<lparr>sectors_per_cluster := fatfs_calc_cluster_size vol_sectors is_fat32\<rparr>
      in if sectors_per_cluster fs = 0 then Some (0, fs)
         else do {
           let fs = fs\<lparr>reserved_sectors := (if \<not> is_fat32 then 8 else 32), num_of_fats := 2,
                       root_entry_count := (if \<not> is_fat32 then 512 else 0)\<rparr>;
           let b = boot_common (sectors_per_cluster fs) (reserved_sectors fs) (num_of_fats fs) (root_entry_count fs)
                     (bsector (currentsector fs));
           let total_clusters = vol_sectors div ucast (sectors_per_cluster fs) + 1;
           let fs = fs\<lparr>fat_sectors := total_clusters div (FAT_SECTOR_SIZE div (if \<not> is_fat32 then 2 else 4)) + 1\<rparr>;
           let b = (if \<not> is_fat32 then boot_details16 vol_sectors (fat_sectors fs) name b
                    else boot_details32 vol_sectors (fat_sectors fs) (rootdir_first_cluster fs) (fs_info_sector fs) name b);
           let fs = set_current b fs;
           (r, fs) \<leftarrow> disk_write fs boot_sector_lba (bsector (currentsector fs)) 1;
           Some (if r \<noteq> 0 then 1 else 0, fs)
         })"

definition fsinfo_bytes :: bytes where
  "fsinfo_bytes = zero_sector[0 := 0x52, 1 := 0x52, 2 := 0x61, 3 := 0x41,
     484 := 0x72, 485 := 0x72, 486 := 0x41, 487 := 0x61,
     488 := 0xFF, 489 := 0xFF, 490 := 0xFF, 491 := 0xFF,
     492 := 0xFF, 493 := 0xFF, 494 := 0xFF, 495 := 0xFF,
     510 := 0x55, 511 := 0xAA]"

definition fatfs_create_fsinfo_sector :: "'d fatfs \<Rightarrow> u32 \<Rightarrow> (int \<times> 'd fatfs) option" where
  "fatfs_create_fsinfo_sector fs lba = do {
     let fs = set_current fsinfo_bytes fs;
     (r, fs) \<leftarrow> disk_write fs lba (bsector (currentsector fs)) 1;
     Some (if r \<noteq> 0 then 1 else 0, fs)
   }"

text \<open>The first sector of the table: the reserved entries, and on FAT32 the root directory.\<close>

definition first_fat_sector :: "bool \<Rightarrow> bytes" where
  "first_fat_sector is_fat32 =
     (if \<not> is_fat32 then SET_16BIT_WORD (SET_16BIT_WORD zero_sector 0 0xFFF8) 2 0xFFFF
      else SET_32BIT_WORD (SET_32BIT_WORD (SET_32BIT_WORD zero_sector 0 0x0FFFFFF8) 4 0xFFFFFFFF) 8 0x0FFFFFFF)"

definition fatfs_erase_fat :: "'d fatfs \<Rightarrow> bool \<Rightarrow> (int \<times> 'd fatfs) option" where
  "fatfs_erase_fat fs is_fat32 = do {
     let fs = set_current (first_fat_sector is_fat32) fs;
     (r, fs) \<leftarrow> disk_write fs (fat_begin_lba fs + 0) (bsector (currentsector fs)) 1;
     if r = 0 then Some (0, fs)
     else write_run (unat (fat_sectors fs * ucast (num_of_fats fs)) - 1) (fat_begin_lba fs + 1) (set_current zero_sector fs)
   }"

text \<open>What both formats start with.\<close>

definition format_start :: "'d fatfs \<Rightarrow> 'd fatfs" where
  "format_start fs =
     fatfs_fat_init (fs\<lparr>currentsector := (currentsector fs)\<lparr>baddress := FAT32_INVALID_CLUSTER, dirty := False\<rparr>,
                        next_free_cluster := 0\<rparr>)"

definition fatfs_format_fat16 :: "'d fatfs \<Rightarrow> u32 \<Rightarrow> bytes \<Rightarrow> (int \<times> 'd fatfs) option" where
  "fatfs_format_fat16 fs volume_sectors name =
     (let fs = format_start fs in
      if read_media (disk_io fs) = None \<or> write_media (disk_io fs) = None then Some (FAT_INIT_MEDIA_ACCESS_ERROR, fs)
      else do {
        let fs = fs\<lparr>fat_type := FAT_TYPE_16, fs_info_sector := 0, rootdir_first_cluster := 0, lba_begin := 0\<rparr>;
        (r, fs) \<leftarrow> fatfs_create_boot_sector fs (lba_begin fs) volume_sectors name False;
        if r = 0 then Some (0, fs)
        else do {
          let fs = fs\<lparr>rootdir_first_sector := ucast (reserved_sectors fs) + ucast (num_of_fats fs) * fat_sectors fs,
                      rootdir_sectors := (ucast (root_entry_count fs) * 32 + (FAT_SECTOR_SIZE - 1)) div FAT_SECTOR_SIZE,
                      fat_begin_lba := lba_begin fs + ucast (reserved_sectors fs)\<rparr>;
          let fs = fs\<lparr>cluster_begin_lba := fat_begin_lba fs + ucast (num_of_fats fs) * fat_sectors fs\<rparr>;
          (r, fs) \<leftarrow> fatfs_erase_fat fs False;
          if r = 0 then Some (0, fs)
          else do {
            (r, fs) \<leftarrow> fatfs_erase_sectors fs (lba_begin fs + rootdir_first_sector fs) (sint (rootdir_sectors fs));
            Some (if r = 0 then 0 else 1, fs)
          }
        }
      })"

definition fatfs_format_fat32 :: "'d fatfs \<Rightarrow> u32 \<Rightarrow> bytes \<Rightarrow> (int \<times> 'd fatfs) option" where
  "fatfs_format_fat32 fs volume_sectors name =
     (let fs = format_start fs in
      if read_media (disk_io fs) = None \<or> write_media (disk_io fs) = None then Some (FAT_INIT_MEDIA_ACCESS_ERROR, fs)
      else do {
        let fs = fs\<lparr>fat_type := FAT_TYPE_32, fs_info_sector := 1, rootdir_first_cluster := 2, lba_begin := 0\<rparr>;
        (r, fs) \<leftarrow> fatfs_create_boot_sector fs (lba_begin fs) volume_sectors name True;
        if r = 0 then Some (0, fs)
        else do {
          let fs = fs\<lparr>fat_begin_lba := lba_begin fs + ucast (reserved_sectors fs)\<rparr>;
          let fs = fs\<lparr>cluster_begin_lba := fat_begin_lba fs + ucast (num_of_fats fs) * fat_sectors fs\<rparr>;
          (r, fs) \<leftarrow> fatfs_create_fsinfo_sector fs (ucast (fs_info_sector fs));
          if r = 0 then Some (0, fs)
          else do {
            (r, fs) \<leftarrow> fatfs_erase_fat fs True;
            if r = 0 then Some (0, fs)
            else do {
              (r, fs) \<leftarrow> fatfs_erase_sectors fs (fatfs_lba_of_cluster fs (rootdir_first_cluster fs))
                          (uint (sectors_per_cluster fs));
              Some (if r = 0 then 0 else 1, fs)
            }
          }
        }
      })"

definition fatfs_format :: "'d fatfs \<Rightarrow> u32 \<Rightarrow> bytes \<Rightarrow> (int \<times> 'd fatfs) option" where
  "fatfs_format fs volume_sectors name =
     (if volume_sectors \<le> 4194304 then fatfs_format_fat16 fs volume_sectors name
      else fatfs_format_fat32 fs volume_sectors name)"

definition fl_format :: "u32 \<Rightarrow> bytes \<Rightarrow> 'd filelib \<Rightarrow> (int \<times> 'd filelib) option" where
  "fl_format volume_sectors name s = on_vol (fatfs_format (vol s) volume_sectors name) s"

subsection \<open>The bytes of the boot sector\<close>

lemma length_zero_sector [simp]: "length zero_sector = 512"
  by (simp add: zero_sector_def FAT_SECTOR_SIZE_def)

lemma zero_sector_nth [simp]: "i < 512 \<Longrightarrow> zero_sector ! i = 0"
  by (simp add: zero_sector_def FAT_SECTOR_SIZE_def)

lemma length_boot_name [simp]: "length (boot_name at name s) = length s"
  by (simp add: boot_name_def upt_rec [of 0] numeral_eq_Suc)

lemma boot_name_nth:
  assumes "at + 11 \<le> length s"
  shows "boot_name at name s ! k = (if at \<le> k \<and> k < at + 11 then (if k - at < length name then name ! (k - at) else 32) else s ! k)"
proof -
  have "fold (\<lambda>i s. s[i + at := (if i < length name then name ! i else 32)]) [0..<n] s ! k
      = (if at \<le> k \<and> k < at + n then (if k - at < length name then name ! (k - at) else 32) else s ! k)
    \<and> length (fold (\<lambda>i s. s[i + at := (if i < length name then name ! i else 32)]) [0..<n] s) = length s"
    if "n \<le> 11" for n
    using that assms by (induction n) (auto simp: nth_list_update not_less less_Suc_eq)
  then show ?thesis by (simp add: boot_name_def)
qed

definition boot16 :: "u8 \<Rightarrow> u32 \<Rightarrow> u32 \<Rightarrow> bytes \<Rightarrow> bytes" where
  "boot16 spc vol_sectors fatsz name = boot_details16 vol_sectors fatsz name (boot_common spc 8 2 512 boot_start)"

definition boot32 :: "u8 \<Rightarrow> u32 \<Rightarrow> u32 \<Rightarrow> bytes \<Rightarrow> bytes" where
  "boot32 spc vol_sectors fatsz name = boot_details32 vol_sectors fatsz 2 1 name (boot_common spc 32 2 0 boot_start)"

lemma get16_byte: "unat f < 2 ^ 16 \<Longrightarrow> ucast (le16 (byte 0 f) (byte 1 f)) = f"
proof -
  assume "unat f < 2 ^ 16"
  then have "take_bit 16 f = f" by (simp add: word_unat_eq_iff unsigned_take_bit_eq take_bit_nat_eq_self)
  moreover have "ucast (le16 (byte 0 f) (byte 1 f)) = take_bit 16 f"
    by (rule bit_word_eqI) (auto simp: bit_simps bit_le16 bit_byte)
  ultimately show ?thesis by simp
qed

lemma le16_consts: "le16 0 2 = 512" "le16 8 0 = 8" "le16 32 0 = 32" "le16 0 0 = 0" "le16 0x55 0xAA = 0xAA55" "le16 1 0 = 1" "le16 512 2 = 512"
  by (simp_all add: le16_def)

lemma boot_start_nth: "length boot_start = 512" "boot_start ! 11 = 0" "boot_start ! 12 = 2" "boot_start ! 450 = 0"
  by (simp_all add: boot_start_def FAT_SECTOR_SIZE_def byte_def)

lemma boot_common_nth:
  assumes "length s = 512"
  shows "length (boot_common spc rsvd nf re s) = 512" "boot_common spc rsvd nf re s ! 13 = spc"
    "boot_common spc rsvd nf re s ! 14 = ucast rsvd" "boot_common spc rsvd nf re s ! 15 = ucast (drop_bit 8 rsvd)"
    "boot_common spc rsvd nf re s ! 16 = nf"
    "boot_common spc rsvd nf re s ! 17 = ucast re" "boot_common spc rsvd nf re s ! 18 = ucast (drop_bit 8 re)"
    "boot_common spc rsvd nf re s ! 19 = 0" "boot_common spc rsvd nf re s ! 20 = 0"
    "boot_common spc rsvd nf re s ! 11 = s ! 11" "boot_common spc rsvd nf re s ! 12 = s ! 12"
    "boot_common spc rsvd nf re s ! 450 = s ! 450"
  using assms by (simp_all add: boot_common_def)

lemma boot_details16_nth:
  assumes "length s = 512"
  shows "length (boot_details16 v f name s) = 512"
    "boot_details16 v f name s ! 22 = byte 0 f" "boot_details16 v f name s ! 23 = byte 1 f"
    "boot_details16 v f name s ! 32 = byte 0 v" "boot_details16 v f name s ! 33 = byte 1 v"
    "boot_details16 v f name s ! 34 = byte 2 v" "boot_details16 v f name s ! 35 = byte 3 v"
    "boot_details16 v f name s ! 510 = 0x55" "boot_details16 v f name s ! 511 = 0xAA" "boot_details16 v f name s ! 450 = s ! 450"
    "k < 22 \<Longrightarrow> boot_details16 v f name s ! k = s ! k"
  using assms by (simp_all add: boot_details16_def boot_name_nth)

lemma boot_details32_nth:
  assumes "length s = 512"
  shows "length (boot_details32 v f rc i name s) = 512"
    "boot_details32 v f rc i name s ! 22 = 0" "boot_details32 v f rc i name s ! 23 = 0"
    "boot_details32 v f rc i name s ! 32 = byte 0 v" "boot_details32 v f rc i name s ! 33 = byte 1 v"
    "boot_details32 v f rc i name s ! 34 = byte 2 v" "boot_details32 v f rc i name s ! 35 = byte 3 v"
    "boot_details32 v f rc i name s ! 36 = byte 0 f" "boot_details32 v f rc i name s ! 37 = byte 1 f"
    "boot_details32 v f rc i name s ! 38 = byte 2 f" "boot_details32 v f rc i name s ! 39 = byte 3 f"
    "boot_details32 v f rc i name s ! 44 = byte 0 rc" "boot_details32 v f rc i name s ! 45 = byte 1 rc"
    "boot_details32 v f rc i name s ! 46 = byte 2 rc" "boot_details32 v f rc i name s ! 47 = byte 3 rc"
    "boot_details32 v f rc i name s ! 48 = ucast i" "boot_details32 v f rc i name s ! 49 = ucast (drop_bit 8 i)"
    "boot_details32 v f rc i name s ! 510 = 0x55" "boot_details32 v f rc i name s ! 511 = 0xAA"
    "boot_details32 v f rc i name s ! 450 = s ! 450"
    "k < 22 \<Longrightarrow> boot_details32 v f rc i name s ! k = s ! k"
  using assms by (simp_all add: boot_details32_def boot_name_nth)

lemmas boot16_nth = boot_details16_nth boot_common_nth boot_start_nth
lemmas boot32_nth = boot_details32_nth boot_common_nth boot_start_nth

lemma boot16_bytes:
  "length (boot16 spc v f name) = 512" "boot16 spc v f name ! 13 = spc" "boot16 spc v f name ! 16 = 2"
  "boot16 spc v f name ! 450 = 0" "boot16 spc v f name ! 510 = 0x55" "boot16 spc v f name ! 511 = 0xAA"
  by (simp_all add: boot16_def boot16_nth)

lemma boot32_bytes:
  "length (boot32 spc v f name) = 512" "boot32 spc v f name ! 13 = spc" "boot32 spc v f name ! 16 = 2"
  "boot32 spc v f name ! 450 = 0" "boot32 spc v f name ! 510 = 0x55" "boot32 spc v f name ! 511 = 0xAA"
  by (simp_all add: boot32_def boot32_nth)

lemma boot16_fields:
  "GET_16BIT_WORD (boot16 spc v f name) 11 = 512" "GET_16BIT_WORD (boot16 spc v f name) 14 = 8"
  "GET_16BIT_WORD (boot16 spc v f name) 17 = 512" "GET_16BIT_WORD (boot16 spc v f name) 19 = 0"
  "GET_16BIT_WORD (boot16 spc v f name) 510 = 0xAA55" "GET_32BIT_WORD (boot16 spc v f name) 32 = v"
  "unat f < 2 ^ 16 \<Longrightarrow> GET_16BIT_WORD (boot16 spc v f name) 22 = f"
  by (simp_all add: GET_16BIT_WORD_le16 GET_32BIT_WORD_le32 boot16_def boot16_nth get16_byte [simplified] le32_bytes [simplified] le16_consts)

lemma boot32_fields:
  "GET_16BIT_WORD (boot32 spc v f name) 11 = 512" "GET_16BIT_WORD (boot32 spc v f name) 14 = 32"
  "GET_16BIT_WORD (boot32 spc v f name) 17 = 0" "GET_16BIT_WORD (boot32 spc v f name) 19 = 0"
  "GET_16BIT_WORD (boot32 spc v f name) 22 = 0" "GET_16BIT_WORD (boot32 spc v f name) 48 = 1"
  "GET_16BIT_WORD (boot32 spc v f name) 510 = 0xAA55" "GET_32BIT_WORD (boot32 spc v f name) 32 = v"
  "GET_32BIT_WORD (boot32 spc v f name) 36 = f" "GET_32BIT_WORD (boot32 spc v f name) 44 = 2"
  by (simp_all add: GET_16BIT_WORD_le16 GET_32BIT_WORD_le32 boot32_def boot32_nth le32_bytes [simplified] le16_consts)

subsection \<open>Writing the medium\<close>

lemma disk_write_ok:
  assumes mo: "media_ok (disk_io fs) content" "media_reliable (disk_io fs)" and len: "length buf = 512"
  shows "\<exists>r d. disk_write fs l buf 1 = Some (r, fs\<lparr>media := d\<rparr>) \<and> r \<noteq> 0 \<and> content d = (content (media fs))(l := buf)"
proof -
  obtain wr where wr: "write_media (disk_io fs) = Some wr" using media_ptrs [OF mo(1)] by blast
  obtain r d where w: "wr (media fs) l buf 1 = (r, d)" by fastforce
  have r: "r \<noteq> 0" by (rule media_wr_status [OF mo(2) wr w])
  have "content d = (content (media fs))(l := buf)"
    using media_wr_put [OF mo(1) wr w r len] media_wr_keep [OF mo(1) wr w] by (auto simp: fun_eq_iff)
  then show ?thesis using wr w r by (intro exI [of _ r] exI [of _ d]) (simp add: disk_write_def)
qed

text \<open>\<open>n\<close> sectors from \<open>l\<close> on, modulo the size of the address space.\<close>

definition in_run :: "u32 \<Rightarrow> nat \<Rightarrow> u32 \<Rightarrow> bool" where
  "in_run l n k \<longleftrightarrow> unat (k - l) < n"

lemma in_run_Suc: "n < 2 ^ 32 \<Longrightarrow> in_run l (Suc n) k \<longleftrightarrow> k = l \<or> in_run (l + 1) n k"
proof -
  assume n: "n < 2 ^ 32"
  show ?thesis
  proof (cases "k = l")
    case False
    then have "k - l \<noteq> 0" by simp
    then have "unat (k - l) = Suc (unat (k - l - 1))" using unat_minus_one [of "k - l"] by (simp add: unat_gt_0)
    moreover have "k - l - 1 = k - (l + 1)" by simp
    ultimately show ?thesis using False by (simp add: in_run_def)
  qed (simp add: in_run_def)
qed

lemma write_run_ok:
  assumes "media_ok (disk_io fs) content" "media_reliable (disk_io fs)" "length (bsector (currentsector fs)) = 512" "n \<le> 2 ^ 32"
  shows "\<exists>d. write_run n l fs = Some (1, fs\<lparr>media := d\<rparr>) \<and>
    content d = (\<lambda>k. if in_run l n k then bsector (currentsector fs) else content (media fs) k)"
  using assms
proof (induction n arbitrary: l fs)
  case 0
  show ?case by (rule exI [of _ "media fs"]) (simp add: in_run_def)
next
  case (Suc n)
  let ?b = "bsector (currentsector fs)"
  obtain r d where w: "disk_write fs l ?b 1 = Some (r, fs\<lparr>media := d\<rparr>)" "r \<noteq> 0" "content d = (content (media fs))(l := ?b)"
    using disk_write_ok [OF Suc.prems(1-3)] by blast
  obtain d' where d': "write_run n (l + 1) (fs\<lparr>media := d\<rparr>) = Some (1, fs\<lparr>media := d'\<rparr>)"
    "content d' = (\<lambda>k. if in_run (l + 1) n k then ?b else content d k)"
  proof -
    have e: "disk_io (fs\<lparr>media := d\<rparr>) = disk_io fs" "currentsector (fs\<lparr>media := d\<rparr>) = currentsector fs"
      "media (fs\<lparr>media := d\<rparr>) = d" "fs\<lparr>media := d, media := x\<rparr> = fs\<lparr>media := x\<rparr>" for x by simp_all
    show thesis using Suc.IH [of "fs\<lparr>media := d\<rparr>" "l + 1", unfolded e, OF Suc.prems(1-3) Suc_leD [OF Suc.prems(4)]] that by blast
  qed
  have "content d' = (\<lambda>k. if in_run l (Suc n) k then ?b else content (media fs) k)"
    unfolding d'(2) w(3) in_run_Suc [OF Suc_le_lessD [OF Suc.prems(4)]] by (simp add: fun_eq_iff)
  moreover have "write_run (Suc n) l fs = Some (1, fs\<lparr>media := d'\<rparr>)" using w(2) d'(1) by (simp add: w(1))
  ultimately show ?case by blast
qed

lemma set_current_fields [simp]:
  "disk_io (set_current b fs) = disk_io fs" "media (set_current b fs) = media fs" "bsector (currentsector (set_current b fs)) = b"
  "fat_begin_lba (set_current b fs) = fat_begin_lba fs" "fat_sectors (set_current b fs) = fat_sectors fs"
  "num_of_fats (set_current b fs) = num_of_fats fs" "fat_type (set_current b fs) = fat_type fs"
  "lba_begin (set_current b fs) = lba_begin fs" "sectors_per_cluster (set_current b fs) = sectors_per_cluster fs"
  "root_entry_count (set_current b fs) = root_entry_count fs" "reserved_sectors (set_current b fs) = reserved_sectors fs"
  "cluster_begin_lba (set_current b fs) = cluster_begin_lba fs" "rootdir_first_cluster (set_current b fs) = rootdir_first_cluster fs"
  "rootdir_first_sector (set_current b fs) = rootdir_first_sector fs" "rootdir_sectors (set_current b fs) = rootdir_sectors fs"
  "fs_info_sector (set_current b fs) = fs_info_sector fs" "set_current b (fs\<lparr>media := d\<rparr>) = (set_current b fs)\<lparr>media := d\<rparr>"
  "fat_buffers (set_current b fs) = fat_buffers fs" "set_current b (set_current b' fs) = set_current b fs"
  by (simp_all add: set_current_def)

text \<open>A volume whose medium works.\<close>

definition media_fine :: "('d \<Rightarrow> u32 \<Rightarrow> bytes) \<Rightarrow> 'd fatfs \<Rightarrow> bool" where
  "media_fine content fs \<longleftrightarrow> media_ok (disk_io fs) content \<and> media_reliable (disk_io fs)"

lemma fine_write:
  assumes "media_fine content fs" "length buf = 512"
  shows "\<exists>r d. disk_write fs l buf 1 = Some (r, fs\<lparr>media := d\<rparr>) \<and> r \<noteq> 0 \<and> content d = (content (media fs))(l := buf)"
  using disk_write_ok [of fs content buf l] assms unfolding media_fine_def by blast

lemma erase_sectors_ok:
  assumes "media_fine content fs" "nat n \<le> 2 ^ 32"
  shows "\<exists>d. fatfs_erase_sectors fs l n = Some (1, (set_current zero_sector fs)\<lparr>media := d\<rparr>) \<and>
    content d = (\<lambda>k. if in_run l (nat n) k then zero_sector else content (media fs) k)"
  using write_run_ok [of "set_current zero_sector fs" content "nat n" l, unfolded set_current_fields] assms
  unfolding fatfs_erase_sectors_def media_fine_def by simp

lemma length_first_fat [simp]: "length (first_fat_sector is32) = 512"
  by (simp add: first_fat_sector_def)

lemma erase_fat_ok:
  assumes fine: "media_fine content fs"
  shows "\<exists>d. fatfs_erase_fat fs is32 = Some (1, (set_current zero_sector fs)\<lparr>media := d\<rparr>) \<and>
    content d = (\<lambda>k. if in_run (fat_begin_lba fs + 1) (unat (fat_sectors fs * ucast (num_of_fats fs)) - 1) k then zero_sector
                     else if k = fat_begin_lba fs then first_fat_sector is32 else content (media fs) k)"
proof -
  let ?fs = "set_current (first_fat_sector is32) fs"
  have "media_fine content ?fs" using fine by (simp add: media_fine_def)
  from fine_write [OF this length_first_fat [of is32], of "fat_begin_lba fs"]
  obtain r d where w: "disk_write ?fs (fat_begin_lba fs) (first_fat_sector is32) 1 = Some (r, ?fs\<lparr>media := d\<rparr>)" "r \<noteq> 0"
    "content d = (content (media ?fs))(fat_begin_lba fs := first_fat_sector is32)"
    by (elim exE conjE)
  let ?n = "unat (fat_sectors fs * ucast (num_of_fats fs)) - 1"
  let ?z = "set_current zero_sector fs"
  have n: "?n \<le> 2 ^ 32" using u32_unat_less [of "fat_sectors fs * ucast (num_of_fats fs)"] by simp
  have e: "disk_io (?z\<lparr>media := d\<rparr>) = disk_io fs" "bsector (currentsector (?z\<lparr>media := d\<rparr>)) = zero_sector"
    "media (?z\<lparr>media := d\<rparr>) = d" "?z\<lparr>media := d, media := x\<rparr> = ?z\<lparr>media := x\<rparr>" for x by simp_all
  have fine': "media_ok (disk_io fs) content" "media_reliable (disk_io fs)" using fine by (simp_all add: media_fine_def)
  from write_run_ok [of "?z\<lparr>media := d\<rparr>" content ?n "fat_begin_lba fs + 1", unfolded e, OF fine' length_zero_sector n]
  obtain d' where d': "write_run ?n (fat_begin_lba fs + 1) (?z\<lparr>media := d\<rparr>) = Some (1, ?z\<lparr>media := d'\<rparr>)"
    "content d' = (\<lambda>k. if in_run (fat_begin_lba fs + 1) ?n k then zero_sector else content d k)"
    by (elim exE conjE)
  have "fatfs_erase_fat fs is32 = Some (1, (set_current zero_sector fs)\<lparr>media := d'\<rparr>)"
    using w(2) d'(1) by (simp add: fatfs_erase_fat_def w(1))
  moreover have "content d' = (\<lambda>k. if in_run (fat_begin_lba fs + 1) ?n k then zero_sector
      else if k = fat_begin_lba fs then first_fat_sector is32 else content (media fs) k)"
    unfolding d'(2) w(3) by (simp add: fun_eq_iff)
  ultimately show ?thesis by blast
qed

lemma length_fsinfo [simp]: "length fsinfo_bytes = 512"
  by (simp add: fsinfo_bytes_def)

lemma create_fsinfo_ok:
  assumes fine: "media_fine content fs"
  shows "\<exists>d. fatfs_create_fsinfo_sector fs l = Some (1, (set_current fsinfo_bytes fs)\<lparr>media := d\<rparr>) \<and>
    content d = (content (media fs))(l := fsinfo_bytes)"
proof -
  let ?fs = "set_current fsinfo_bytes fs"
  have "media_fine content ?fs" using fine by (simp add: media_fine_def)
  from fine_write [OF this length_fsinfo, of l]
  obtain r d where w: "disk_write ?fs l fsinfo_bytes 1 = Some (r, ?fs\<lparr>media := d\<rparr>)" "r \<noteq> 0"
    "content d = (content (media ?fs))(l := fsinfo_bytes)"
    by (elim exE conjE)
  have "fatfs_create_fsinfo_sector fs l = Some (1, ?fs\<lparr>media := d\<rparr>)"
    using w(2) by (simp add: fatfs_create_fsinfo_sector_def w(1))
  then show ?thesis using w(3) by (intro exI [of _ d]) simp
qed

text \<open>The number of sectors of one copy of the table.\<close>

definition table_size :: "u32 \<Rightarrow> bool \<Rightarrow> u32" where
  "table_size v is32 = (v div ucast (fatfs_calc_cluster_size v is32) + 1) div (if is32 then 128 else 256) + 1"

definition boot_of :: "u32 \<Rightarrow> bytes \<Rightarrow> bool \<Rightarrow> bytes" where
  "boot_of v name is32 = (if is32 then boot32 else boot16) (fatfs_calc_cluster_size v is32) v (table_size v is32) name"

lemma length_boot_of [simp]: "length (boot_of v name is32) = 512"
  by (simp add: boot_of_def boot16_bytes boot32_bytes)

lemma create_boot_ok:
  assumes fine: "media_fine content fs" and spc: "fatfs_calc_cluster_size v is32 \<noteq> 0"
    and root: "is32 \<Longrightarrow> rootdir_first_cluster fs = 2 \<and> fs_info_sector fs = 1"
  shows "\<exists>d. fatfs_create_boot_sector fs l v name is32 =
      Some (1, (set_current (boot_of v name is32) fs)\<lparr>sectors_per_cluster := fatfs_calc_cluster_size v is32,
        reserved_sectors := (if is32 then 32 else 8), num_of_fats := 2, root_entry_count := (if is32 then 0 else 512),
        fat_sectors := table_size v is32, media := d\<rparr>) \<and>
    content d = (content (media fs))(l := boot_of v name is32)"
proof -
  let ?b = "boot_of v name is32"
  let ?fs = "(set_current ?b fs)\<lparr>sectors_per_cluster := fatfs_calc_cluster_size v is32,
        reserved_sectors := (if is32 then 32 else 8), num_of_fats := 2, root_entry_count := (if is32 then 0 else 512),
        fat_sectors := table_size v is32\<rparr>"
  have "media_fine content ?fs" using fine by (simp add: media_fine_def)
  from fine_write [OF this length_boot_of [of v name is32], of l]
  obtain r d where w: "disk_write ?fs l ?b 1 = Some (r, ?fs\<lparr>media := d\<rparr>)" "r \<noteq> 0" "content d = (content (media ?fs))(l := ?b)"
    by (elim exE conjE)
  have "fatfs_create_boot_sector fs l v name is32 = do {
      (r, fs) \<leftarrow> disk_write ?fs l ?b 1; Some (if r \<noteq> 0 then 1 else 0, fs) }"
    using spc root
    by (cases is32; cases fs)
      (simp_all add: fatfs_create_boot_sector_def Let_def set_current_def boot_of_def boot16_def boot32_def table_size_def FAT_SECTOR_SIZE_def)
  then show ?thesis using w(2,3) by (intro exI [of _ d]) (simp add: w(1))
qed

subsection \<open>The volume after a format\<close>

definition table_begin :: "bool \<Rightarrow> u32" where
  "table_begin is32 = (if is32 then 32 else 8)"

definition root_begin :: "u32 \<Rightarrow> bool \<Rightarrow> u32" where
  "root_begin v is32 = table_begin is32 + 2 * table_size v is32"

definition root_sectors :: "u32 \<Rightarrow> bool \<Rightarrow> nat" where
  "root_sectors v is32 = (if is32 then unat (fatfs_calc_cluster_size v is32) else 32)"

definition formatted :: "u32 \<Rightarrow> bytes \<Rightarrow> bool \<Rightarrow> (u32 \<Rightarrow> bytes) \<Rightarrow> u32 \<Rightarrow> bytes" where
  "formatted v name is32 old k =
     (if in_run (root_begin v is32) (root_sectors v is32) k then zero_sector
      else if in_run (table_begin is32 + 1) (unat (table_size v is32 * 2) - 1) k then zero_sector
      else if k = table_begin is32 then first_fat_sector is32
      else if is32 \<and> k = 1 then fsinfo_bytes
      else if k = 0 then boot_of v name is32 else old k)"

definition geometry :: "u32 \<Rightarrow> bool \<Rightarrow> 'd fatfs \<Rightarrow> bool" where
  "geometry v is32 fs \<longleftrightarrow>
     sectors_per_cluster fs = fatfs_calc_cluster_size v is32 \<and> fat_sectors fs = table_size v is32 \<and>
     fat_begin_lba fs = table_begin is32 \<and> cluster_begin_lba fs = root_begin v is32 \<and> lba_begin fs = 0 \<and>
     root_entry_count fs = (if is32 then 0 else 512) \<and> rootdir_first_cluster fs = (if is32 then 2 else 0) \<and>
     fat_type fs = (if is32 then FAT_TYPE_32 else FAT_TYPE_16) \<and> (is32 \<longrightarrow> fs_info_sector fs = 1) \<and>
     (\<not> is32 \<longrightarrow> rootdir_first_sector fs = root_begin v is32 \<and> rootdir_sectors fs = 32)"

lemma format_start_fields [simp]:
  "disk_io (format_start fs) = disk_io fs" "media (format_start fs) = media fs"
  by (simp_all add: format_start_def fatfs_fat_init_def)

lemma format16_ok:
  assumes fine: "media_fine content fs" and spc: "fatfs_calc_cluster_size v False \<noteq> 0"
  shows "\<exists>fs1. fatfs_format_fat16 fs v name = Some (1, fs1) \<and> disk_io fs1 = disk_io fs \<and> geometry v False fs1 \<and>
    content (media fs1) = formatted v name False (content (media fs))"
proof -
  obtain rd wr where ptrs: "read_media (disk_io fs) = Some rd" "write_media (disk_io fs) = Some wr"
    using fine media_ptrs [of "disk_io fs" content] unfolding media_fine_def by blast
  define fs0 where "fs0 = (format_start fs)\<lparr>fat_type := FAT_TYPE_16, fs_info_sector := 0, rootdir_first_cluster := 0, lba_begin := 0\<rparr>"
  have "media_fine content fs0" using fine by (simp add: fs0_def media_fine_def)
  from create_boot_ok [OF this spc, of 0 name]
  obtain d1 where b: "fatfs_create_boot_sector fs0 0 v name False =
      Some (1, (set_current (boot_of v name False) fs0)\<lparr>sectors_per_cluster := fatfs_calc_cluster_size v False,
        reserved_sectors := 8, num_of_fats := 2, root_entry_count := 512, fat_sectors := table_size v False, media := d1\<rparr>)"
    "content d1 = (content (media fs0))(0 := boot_of v name False)" by auto
  define fs1 where "fs1 = (set_current (boot_of v name False) fs0)\<lparr>sectors_per_cluster := fatfs_calc_cluster_size v False,
        reserved_sectors := 8, num_of_fats := 2, root_entry_count := 512, fat_sectors := table_size v False, media := d1,
        rootdir_first_sector := root_begin v False, rootdir_sectors := 32, fat_begin_lba := 8, cluster_begin_lba := root_begin v False\<rparr>"
  have "media_fine content fs1" using fine by (simp add: fs0_def fs1_def media_fine_def)
  from erase_fat_ok [OF this, of False]
  obtain d2 where e: "fatfs_erase_fat fs1 False = Some (1, (set_current zero_sector fs1)\<lparr>media := d2\<rparr>)"
    "content d2 = (\<lambda>k. if in_run (fat_begin_lba fs1 + 1) (unat (fat_sectors fs1 * ucast (num_of_fats fs1)) - 1) k then zero_sector
                     else if k = fat_begin_lba fs1 then first_fat_sector False else content (media fs1) k)"
    by (elim exE conjE)
  define fs2 where "fs2 = (set_current zero_sector fs1)\<lparr>media := d2\<rparr>"
  have "media_fine content fs2" "nat 32 \<le> 2 ^ 32" using fine by (simp_all add: fs0_def fs1_def fs2_def media_fine_def)
  from erase_sectors_ok [OF this, of "root_begin v False"]
  obtain d3 where r: "fatfs_erase_sectors fs2 (root_begin v False) 32 = Some (1, (set_current zero_sector fs2)\<lparr>media := d3\<rparr>)"
    "content d3 = (\<lambda>k. if in_run (root_begin v False) (nat 32) k then zero_sector else content (media fs2) k)"
    by (elim exE conjE)
  define fs3 where "fs3 = (set_current zero_sector fs2)\<lparr>media := d3\<rparr>"
  have "fatfs_format_fat16 fs v name = Some (1, fs3)"
  proof -
    have step: "fs1 = (set_current (boot_of v name False) fs0)\<lparr>sectors_per_cluster := fatfs_calc_cluster_size v False,
        reserved_sectors := 8, num_of_fats := 2, root_entry_count := 512, fat_sectors := table_size v False, media := d1,
        rootdir_first_sector := 8 + 2 * table_size v False, rootdir_sectors := 32, fat_begin_lba := 8,
        cluster_begin_lba := 8 + 2 * table_size v False\<rparr>"
      by (simp add: fs1_def root_begin_def table_begin_def)
    have lba: "lba_begin fs0 = 0" "lba_begin fs2 + rootdir_first_sector fs2 = root_begin v False" "rootdir_sectors fs2 = 32"
      by (simp_all add: fs2_def fs1_def fs0_def)
    show ?thesis
      unfolding fatfs_format_fat16_def
      using ptrs r(1) e(1) lba by (simp add: Let_def fs0_def [symmetric] b(1) FAT_SECTOR_SIZE_def step [symmetric] fs2_def [symmetric] fs3_def)
  qed
  moreover have "geometry v False fs3"
    by (simp add: geometry_def fs3_def fs2_def fs1_def fs0_def table_begin_def)
  moreover have "content (media fs3) = formatted v name False (content (media fs))"
  proof -
    have "fat_begin_lba fs1 = table_begin False" "fat_sectors fs1 * ucast (num_of_fats fs1) = table_size v False * 2" "media fs1 = d1"
      "media fs2 = d2" "media fs3 = d3" "media fs0 = media fs" "nat 32 = root_sectors v False"
      by (simp_all add: fs3_def fs2_def fs1_def fs0_def table_begin_def root_sectors_def)
    then show ?thesis using e(2) r(2) b(2) by (simp add: fun_eq_iff formatted_def)
  qed
  ultimately show ?thesis by (intro exI [of _ fs3]) (simp add: fs3_def fs2_def fs1_def fs0_def)
qed

lemma format32_ok:
  assumes fine: "media_fine content fs" and spc: "fatfs_calc_cluster_size v True \<noteq> 0"
  shows "\<exists>fs1. fatfs_format_fat32 fs v name = Some (1, fs1) \<and> disk_io fs1 = disk_io fs \<and> geometry v True fs1 \<and>
    content (media fs1) = formatted v name True (content (media fs))"
proof -
  obtain rd wr where ptrs: "read_media (disk_io fs) = Some rd" "write_media (disk_io fs) = Some wr"
    using fine media_ptrs [of "disk_io fs" content] unfolding media_fine_def by blast
  define fs0 where "fs0 = (format_start fs)\<lparr>fat_type := FAT_TYPE_32, fs_info_sector := 1, rootdir_first_cluster := 2, lba_begin := 0\<rparr>"
  have "media_fine content fs0" using fine by (simp add: fs0_def media_fine_def)
  from create_boot_ok [OF this spc, of 0 name]
  obtain d1 where b: "fatfs_create_boot_sector fs0 0 v name True =
      Some (1, (set_current (boot_of v name True) fs0)\<lparr>sectors_per_cluster := fatfs_calc_cluster_size v True,
        reserved_sectors := 32, num_of_fats := 2, root_entry_count := 0, fat_sectors := table_size v True, media := d1\<rparr>)"
    "content d1 = (content (media fs0))(0 := boot_of v name True)" by (auto simp: fs0_def)
  define fs1 where "fs1 = (set_current (boot_of v name True) fs0)\<lparr>sectors_per_cluster := fatfs_calc_cluster_size v True,
        reserved_sectors := 32, num_of_fats := 2, root_entry_count := 0, fat_sectors := table_size v True, media := d1,
        fat_begin_lba := 32, cluster_begin_lba := root_begin v True\<rparr>"
  have "media_fine content fs1" using fine by (simp add: fs0_def fs1_def media_fine_def)
  from create_fsinfo_ok [OF this, of 1]
  obtain d2 where i: "fatfs_create_fsinfo_sector fs1 1 = Some (1, (set_current fsinfo_bytes fs1)\<lparr>media := d2\<rparr>)"
    "content d2 = (content (media fs1))(1 := fsinfo_bytes)" by (elim exE conjE)
  define fs2 where "fs2 = (set_current fsinfo_bytes fs1)\<lparr>media := d2\<rparr>"
  have "media_fine content fs2" using fine by (simp add: fs0_def fs1_def fs2_def media_fine_def)
  from erase_fat_ok [OF this, of True]
  obtain d3 where e: "fatfs_erase_fat fs2 True = Some (1, (set_current zero_sector fs2)\<lparr>media := d3\<rparr>)"
    "content d3 = (\<lambda>k. if in_run (fat_begin_lba fs2 + 1) (unat (fat_sectors fs2 * ucast (num_of_fats fs2)) - 1) k then zero_sector
                     else if k = fat_begin_lba fs2 then first_fat_sector True else content (media fs2) k)"
    by (elim exE conjE)
  define fs3 where "fs3 = (set_current zero_sector fs2)\<lparr>media := d3\<rparr>"
  let ?n = "uint (fatfs_calc_cluster_size v True)"
  have "media_fine content fs3" "nat ?n \<le> 2 ^ 32"
    using fine unsigned_less [of "fatfs_calc_cluster_size v True", where 'a = nat]
    by (simp_all add: fs0_def fs1_def fs2_def fs3_def media_fine_def)
  from erase_sectors_ok [OF this, of "root_begin v True"]
  obtain d4 where r: "fatfs_erase_sectors fs3 (root_begin v True) ?n = Some (1, (set_current zero_sector fs3)\<lparr>media := d4\<rparr>)"
    "content d4 = (\<lambda>k. if in_run (root_begin v True) (nat ?n) k then zero_sector else content (media fs3) k)"
    by (elim exE conjE)
  define fs4 where "fs4 = (set_current zero_sector fs3)\<lparr>media := d4\<rparr>"
  have "fatfs_format_fat32 fs v name = Some (1, fs4)"
  proof -
    have step: "fs1 = (set_current (boot_of v name True) fs0)\<lparr>sectors_per_cluster := fatfs_calc_cluster_size v True,
        reserved_sectors := 32, num_of_fats := 2, root_entry_count := 0, fat_sectors := table_size v True, media := d1,
        fat_begin_lba := 32, cluster_begin_lba := 32 + 2 * table_size v True\<rparr>"
      by (simp add: fs1_def root_begin_def table_begin_def)
    have lba: "lba_begin fs0 = 0" "fatfs_lba_of_cluster fs3 2 = root_begin v True" "rootdir_first_cluster fs3 = 2"
      "sectors_per_cluster fs3 = fatfs_calc_cluster_size v True" "fs_info_sector fs1 = 1" "fs_info_sector fs0 = 1"
      by (simp_all add: fs3_def fs2_def fs1_def fs0_def fatfs_lba_of_cluster_def)
    show ?thesis
      unfolding fatfs_format_fat32_def
      using ptrs r(1) e(1) i(1) lba
      by (simp add: Let_def fs0_def [symmetric] b(1) step [symmetric] fs2_def [symmetric] fs3_def [symmetric] fs4_def)
  qed
  moreover have "geometry v True fs4"
    by (simp add: geometry_def fs4_def fs3_def fs2_def fs1_def fs0_def table_begin_def)
  moreover have "content (media fs4) = formatted v name True (content (media fs))"
  proof -
    have "fat_begin_lba fs2 = table_begin True" "fat_sectors fs2 * ucast (num_of_fats fs2) = table_size v True * 2" "media fs1 = d1"
      "media fs2 = d2" "media fs3 = d3" "media fs4 = d4" "media fs0 = media fs" "nat ?n = root_sectors v True"
      by (simp_all add: fs4_def fs3_def fs2_def fs1_def fs0_def table_begin_def root_sectors_def)
    then show ?thesis using e(2) r(2) b(2) i(2) by (simp add: fun_eq_iff formatted_def)
  qed
  ultimately show ?thesis by (intro exI [of _ fs4]) (simp add: fs4_def fs3_def fs2_def fs1_def fs0_def)
qed

subsection \<open>Mounting it\<close>

lemma fine_read:
  assumes fine: "media_fine content fs" and len: "length buf = 512"
  shows "\<exists>r d. disk_read fs l buf 1 = Some (r, content (media fs) l, fs\<lparr>media := d\<rparr>) \<and> r \<noteq> 0 \<and> content d = content (media fs)"
proof -
  have mo: "media_ok (disk_io fs) content" "media_reliable (disk_io fs)" using fine by (simp_all add: media_fine_def)
  obtain rd where rd: "read_media (disk_io fs) = Some rd" using media_ptrs [OF mo(1)] by blast
  obtain r buf' d where w: "rd (media fs) l buf 1 = (r, buf', d)" by (cases "rd (media fs) l buf 1") auto
  have r: "r \<noteq> 0" by (rule media_rd_status [OF mo(2) rd w])
  have "buf' = content (media fs) l" by (rule media_rd_get [OF mo(1) rd w r len])
  moreover have "content d = content (media fs)" using media_rd_keep [OF mo(1) rd w] by simp
  ultimately show ?thesis using rd w r by (intro exI [of _ r] exI [of _ d]) (simp add: disk_read_def)
qed

definition cluster_count :: "u32 \<Rightarrow> bool \<Rightarrow> u32" where
  "cluster_count v is32 =
     (v - (table_begin is32 + 2 * table_size v is32 + (if is32 then 0 else 32))) div ucast (fatfs_calc_cluster_size v is32)"

lemma boot_of_fields:
  fixes name :: bytes
  assumes "is32 \<or> unat (table_size v is32) < 2 ^ 16 \<and> table_size v is32 \<noteq> 0"
  defines "b \<equiv> boot_of v name is32"
  shows "b ! 13 = fatfs_calc_cluster_size v is32" "b ! 16 = 2" "b ! 450 = 0" "b ! 510 = 0x55" "b ! 511 = 0xAA"
    "GET_16BIT_WORD b 510 = 0xAA55" "GET_16BIT_WORD b 11 = 512" "GET_16BIT_WORD b 14 = table_begin is32"
    "GET_16BIT_WORD b 17 = (if is32 then 0 else 512)" "GET_16BIT_WORD b 19 = 0" "GET_32BIT_WORD b 32 = v"
    "(if GET_16BIT_WORD b 22 \<noteq> 0 then GET_16BIT_WORD b 22 else GET_32BIT_WORD b 36) = table_size v is32"
    "is32 \<Longrightarrow> GET_32BIT_WORD b 44 = 2" "is32 \<Longrightarrow> GET_16BIT_WORD b 48 = 1"
  using assms(1)
  by (cases is32; simp add: b_def boot_of_def boot16_bytes boot32_bytes boot16_fields boot32_fields table_begin_def)+

lemma count_of_boot:
  assumes "is32 \<or> unat (table_size v is32) < 2 ^ 16 \<and> table_size v is32 \<noteq> 0"
    and "sectors_per_cluster fs = fatfs_calc_cluster_size v is32"
  shows "count_of_clusters (boot_of v name is32) fs = cluster_count v is32"
proof -
  note f = boot_of_fields [OF assms(1), where name = name]
  have root: "((if is32 then 0 else 512) * 32 + (512 - 1)) div (512 :: u32) = (if is32 then 0 else 32)" by (cases is32) simp_all
  show ?thesis
    unfolding count_of_clusters_def Let_def f(2,7-12) cluster_count_def assms(2) root by simp
qed

lemma init_boot:
  assumes fine: "media_fine content fs" and len: "length (bsector (currentsector fs)) = 512"
    and boot: "content (media fs) 0 = boot_of v name is32" and spc: "fatfs_calc_cluster_size v is32 \<noteq> 0"
    and size: "is32 \<or> unat (table_size v is32) < 2 ^ 16 \<and> table_size v is32 \<noteq> 0"
  shows "\<exists>d fs'. content d = content (media fs) \<and>
    fs' = load_parameters (boot_of v name is32) ((set_current (boot_of v name is32) (format_start fs))\<lparr>lba_begin := 0, media := d\<rparr>) \<and>
    fatfs_init fs =
      (if cluster_count v is32 < 4085 then Some (FAT_INIT_WRONG_FILESYS_TYPE, fs')
       else if cluster_count v is32 < 65525 then Some (FAT_INIT_OK, fs'\<lparr>rootdir_first_cluster := 0, fat_type := FAT_TYPE_16\<rparr>)
       else Some (FAT_INIT_OK, fs'\<lparr>fat_type := FAT_TYPE_32\<rparr>))"
proof -
  let ?b = "boot_of v name is32"
  obtain rd where rd: "read_media (disk_io fs) = Some rd" using fine media_ptrs [of "disk_io fs" content] by (auto simp: media_fine_def)
  note f = boot_of_fields [OF size, where name = name]
  define fs0 where "fs0 = format_start fs"
  have fs0: "media fs0 = media fs" "disk_io fs0 = disk_io fs" "length (bsector (currentsector fs0)) = 512"
    using len by (simp_all add: fs0_def format_start_def fatfs_fat_init_def)
  have "media_fine content fs0" using fine fs0 by (simp add: media_fine_def)
  from fine_read [OF this fs0(3), of 0]
  obtain r1 d1 where 1: "disk_read fs0 0 (bsector (currentsector fs0)) 1 = Some (r1, ?b, fs0\<lparr>media := d1\<rparr>)" "r1 \<noteq> 0"
    "content d1 = content (media fs)" unfolding fs0 boot by (elim exE conjE)
  define fs1 where "fs1 = (set_current ?b fs0)\<lparr>media := d1, lba_begin := 0\<rparr>"
  have fs1: "media fs1 = d1" "disk_io fs1 = disk_io fs" "bsector (currentsector fs1) = ?b" "lba_begin fs1 = 0"
    using fs0 by (simp_all add: fs1_def)
  have "media_fine content fs1" "length ?b = 512" using fine fs1 by (simp_all add: media_fine_def)
  from fine_read [OF this, of 0]
  obtain r2 d2 where 2: "disk_read fs1 0 ?b 1 = Some (r2, ?b, fs1\<lparr>media := d2\<rparr>)" "r2 \<noteq> 0"
    "content d2 = content (media fs)" unfolding fs1 1(3) boot by (elim exE conjE)
  define fs2 where "fs2 = load_parameters ?b ((set_current ?b fs0)\<lparr>lba_begin := 0, media := d2\<rparr>)"
  have l: "(set_current ?b fs1)\<lparr>media := d2\<rparr> = (set_current ?b fs0)\<lparr>lba_begin := 0, media := d2\<rparr>"
    by (simp add: fs1_def set_current_def)
  have s: "sectors_per_cluster fs2 = fatfs_calc_cluster_size v is32" by (simp add: fs2_def load_parameters_def Let_def f(1))
  have v: "\<not> valid_partition 0" by (simp add: valid_partition_def)
  have "fatfs_init fs =
      (if cluster_count v is32 < 4085 then Some (FAT_INIT_WRONG_FILESYS_TYPE, fs2)
       else if cluster_count v is32 < 65525 then Some (FAT_INIT_OK, fs2\<lparr>rootdir_first_cluster := 0, fat_type := FAT_TYPE_16\<rparr>)
       else Some (FAT_INIT_OK, fs2\<lparr>fat_type := FAT_TYPE_32\<rparr>))"
    unfolding fatfs_init_def Let_def format_start_def [symmetric] fs0_def [symmetric]
    using 1(2) 2(2) spc rd fs0
    by (simp add: Let_def 1(1) f v fs1_def [symmetric] fs1 2(1) l fs2_def [symmetric] FAT_SECTOR_SIZE_def s count_of_boot [OF size s])
  then show ?thesis using 2(3) unfolding fs2_def fs0_def by blast
qed

end
