(* ===== verification/FatFormatProps.thy ===== *)
theory FatFormatProps
  imports FatFormat
begin

text \<open>
  What a format leaves on the medium, and what a mount makes of it: the sizes of the table and the count of clusters for
  every size of volume, the invariant and the links of the fresh table, the empty root directory, and the sizes for
  which the two disagree about the type of the volume.
\<close>

subsection \<open>Sizes\<close>

definition sizes16 :: "(nat \<times> nat \<times> nat) set" where
  "sizes16 = {(0, 32680, 2), (32681, 262144, 4), (262145, 524288, 8), (524289, 1048576, 16), (1048577, 2097152, 32), (2097153, 4194304, 64)}"

definition sizes32 :: "(nat \<times> nat \<times> nat) set" where
  "sizes32 = {(4194305, 16777216, 8), (16777217, 33554432, 16), (33554433, 67108864, 32), (67108865, 4294967295, 64)}"

lemma spc16_cases:
  assumes "v \<le> 4194304"
  shows "\<exists>(lo, hi, s) \<in> sizes16.
    lo \<le> unat v \<and> unat v \<le> hi \<and> unat (fatfs_calc_cluster_size v False) = s"
  using assms by (simp add: fatfs_calc_cluster_size_def sizes16_def cluster_size_table16_def word_le_nat_alt)

lemma spc32_cases:
  assumes "4194304 < v"
  shows "\<exists>(lo, hi, s) \<in> sizes32.
    lo \<le> unat v \<and> unat v \<le> hi \<and> unat (fatfs_calc_cluster_size v True) = s"
  using assms u32_unat_less [of v]
  by (simp add: fatfs_calc_cluster_size_def sizes32_def cluster_size_table32_def word_le_nat_alt word_less_nat_alt)

lemma unat_table_size:
  assumes "2 \<le> unat (fatfs_calc_cluster_size v is32)"
  shows "unat (table_size v is32) = (unat v div unat (fatfs_calc_cluster_size v is32) + 1) div (if is32 then 128 else 256) + 1"
proof -
  let ?q = "v div ucast (fatfs_calc_cluster_size v is32)"
  have q: "unat ?q = unat v div unat (fatfs_calc_cluster_size v is32)"
    by (simp add: unat_div unsigned_ucast_eq take_bit_nat_eq_self order_less_le_trans [OF unsigned_less])
  have "unat ?q \<le> unat v div 2" unfolding q using assms by (intro div_le_mono2) auto
  then have "unat ?q < 2 ^ 31" using u32_unat_less [of v] by simp
  then have 1: "unat (?q + 1) = unat ?q + 1" by (simp add: unat_word_ariths)
  have "unat ((?q + 1) div (if is32 then 128 else 256)) = (unat ?q + 1) div (if is32 then 128 else 256)"
    by (simp add: unat_div 1)
  moreover have "(unat ?q + 1) div (if is32 then 128 else 256) < 2 ^ 32 - 1"
    using \<open>unat ?q < 2 ^ 31\<close> by (auto simp: div_less_iff_less_mult)
  ultimately show ?thesis unfolding table_size_def q by (simp add: unat_word_ariths)
qed

lemma unat_cluster_count:
  assumes "2 \<le> unat (fatfs_calc_cluster_size v is32)"
  defines "m \<equiv> (if is32 then 32 else 40) + 2 * unat (table_size v is32)"
  assumes "m \<le> unat v"
  shows "unat (cluster_count v is32) = (unat v - m) div unat (fatfs_calc_cluster_size v is32)"
proof -
  let ?m = "table_begin is32 + 2 * table_size v is32 + (if is32 then 0 else 32)"
  have "unat ?m = m" using assms(3) u32_unat_less [of v] unfolding m_def by (auto simp: table_begin_def unat_word_ariths)
  moreover have "unat (ucast (fatfs_calc_cluster_size v is32) :: u32) = unat (fatfs_calc_cluster_size v is32)"
    by (simp add: unsigned_ucast_eq take_bit_nat_eq_self order_less_le_trans [OF unsigned_less])
  moreover have "unat (v - ?m) = unat v - unat ?m"
    using assms(3) calculation(1) by (intro unat_sub) (simp add: word_le_nat_alt)
  ultimately show ?thesis by (simp add: cluster_count_def unat_div)
qed


lemma spc16_ok: "v \<le> 4194304 \<Longrightarrow> 2 \<le> unat (fatfs_calc_cluster_size v False)"
  using spc16_cases [of v] by (auto simp: sizes16_def)

lemma spc32_ok: "4194304 < v \<Longrightarrow> 2 \<le> unat (fatfs_calc_cluster_size v True)"
  using spc32_cases [of v] by (auto simp: sizes32_def)

lemma table16_small:
  assumes "v \<le> 4194304"
  shows "0 < unat (table_size v False)" "unat (table_size v False) \<le> 257"
    "42 \<le> unat v \<Longrightarrow> 40 + 2 * unat (table_size v False) \<le> unat v"
  using spc16_cases [OF assms] unat_table_size [OF spc16_ok [OF assms]] by (auto simp: sizes16_def)

lemma count16:
  assumes "v \<le> 4194304" "42 \<le> v"
  shows "unat (cluster_count v False) =
    (unat v - (40 + 2 * unat (table_size v False))) div unat (fatfs_calc_cluster_size v False)"
  using unat_cluster_count [OF spc16_ok [OF assms(1)]] table16_small(3) [OF assms(1)] assms(2) by (simp add: word_le_nat_alt)

lemma div_range: "0 < s \<Longrightarrow> s * (n div s) \<le> n \<and> n < s * (n div s) + (s :: nat)"
  using dividend_less_times_div [of s n] by simp

lemma count16_div:
  assumes "v \<le> 4194304" "42 \<le> v" "unat (fatfs_calc_cluster_size v False) = s"
  obtains p q where "s * p \<le> unat v" "unat v < s * p + s" "256 * q \<le> p + 1" "p + 1 < 256 * q + 256"
    "unat (cluster_count v False) = (unat v - (42 + 2 * q)) div s"
proof -
  let ?p = "unat v div s"
  let ?q = "(?p + 1) div 256"
  have s: "0 < s" using spc16_ok [OF assms(1)] assms(3) by simp
  have "unat (table_size v False) = ?q + 1" using unat_table_size [OF spc16_ok [OF assms(1)]] by (simp add: assms(3))
  then have "unat (cluster_count v False) = (unat v - (42 + 2 * ?q)) div s" using count16 [OF assms(1,2)] by (simp add: assms(3))
  then show thesis using that [of ?p ?q] div_range [OF s, of "unat v"] div_range [of 256 "?p + 1"] by simp
qed

lemma count16_small: "42 \<le> v \<Longrightarrow> v < 8244 \<Longrightarrow> cluster_count v False < 4085"
proof -
  assume v: "42 \<le> v" "v < 8244"
  then have v': "v \<le> 4194304" "unat v < 8244" "42 \<le> unat v" by (simp_all add: word_less_nat_alt word_le_nat_alt)
  have "unat (fatfs_calc_cluster_size v False) = 2" using spc16_cases [OF v'(1)] v' by (auto simp: sizes16_def)
  then obtain p q where pq: "2 * p \<le> unat v" "unat v < 2 * p + 2" "256 * q \<le> p + 1" "p + 1 < 256 * q + 256"
    "unat (cluster_count v False) = (unat v - (42 + 2 * q)) div 2" by (rule count16_div [OF v'(1) v(1)])
  have "unat v < 8212 \<or> 16 \<le> q" using pq by linarith
  then have "unat v - (42 + 2 * q) < 8170" using v'(2) by linarith
  then show ?thesis using pq(5) by (simp add: word_less_nat_alt div_less_iff_less_mult)
qed

lemma count16_bounds:
  assumes "s * p \<le> V" "V < s * p + s" "256 * q \<le> p + 1" "p + 1 < 256 * q + (256 :: nat)" "8244 \<le> V" "V < 4194152"
    "(lo, hi, s) \<in> sizes16"
    "lo \<le> V" "V \<le> hi"
  shows "4085 * s \<le> V - (42 + 2 * q) \<and> V - (42 + 2 * q) < 65525 * s"
proof -
  have "q \<le> 16" if "s = 2" "V \<le> 8245" using assms(1,3) that by simp
  moreover have "255 \<le> q" if "s = 64" "4177856 \<le> V" using assms(2,4) that by simp
  ultimately have two: "V \<le> 8245 \<and> q \<le> 16 \<or> 8246 \<le> V \<or> s \<noteq> 2" "V < 4177856 \<or> 255 \<le> q \<or> s \<noteq> 64" by fastforce+
  consider "s = 2" "V \<le> 32680" | "s = 4" "32681 \<le> V" "V \<le> 262144" | "s = 8" "262145 \<le> V" "V \<le> 524288"
    | "s = 16" "524289 \<le> V" "V \<le> 1048576" | "s = 32" "1048577 \<le> V" "V \<le> 2097152" | "s = 64" "2097153 \<le> V"
    using assms(7-9) by (auto simp: sizes16_def)
  then show ?thesis
  proof cases
    case 1 show ?thesis using assms(1-6) two(1) 1(2) unfolding 1(1) by (intro conjI) linarith+
  next
    case 2 show ?thesis using assms(1-6) 2(2,3) unfolding 2(1) by (intro conjI) linarith+
  next
    case 3 show ?thesis using assms(1-6) 3(2,3) unfolding 3(1) by (intro conjI) linarith+
  next
    case 4 show ?thesis using assms(1-6) 4(2,3) unfolding 4(1) by (intro conjI) linarith+
  next
    case 5 show ?thesis using assms(1-6) 5(2,3) unfolding 5(1) by (intro conjI) linarith+
  next
    case 6 show ?thesis using assms(1-6) two(2) 6(2) unfolding 6(1) by (intro conjI) linarith+
  qed
qed

lemma count16_mid:
  assumes "8244 \<le> v" "v < 4194152"
  shows "4085 \<le> cluster_count v False \<and> cluster_count v False < 65525"
proof -
  have v: "v \<le> 4194304" "42 \<le> v" "unat v < 4194152" "8244 \<le> unat v" using assms by (simp_all add: word_less_nat_alt word_le_nat_alt)
  obtain lo hi s where s: "(lo, hi, s) \<in> sizes16"
    "lo \<le> unat v" "unat v \<le> hi" "unat (fatfs_calc_cluster_size v False) = s" using spc16_cases [OF v(1)] by blast
  obtain p q where pq: "s * p \<le> unat v" "unat v < s * p + s" "256 * q \<le> p + 1" "p + 1 < 256 * q + 256"
    "unat (cluster_count v False) = (unat v - (42 + 2 * q)) div s" by (rule count16_div [OF v(1,2) s(4)])
  have "0 < s" using s(1) by (auto simp: sizes16_def)
  then show ?thesis using count16_bounds [OF pq(1-4) v(4,3) s(1-3)] pq(5)
    by (simp add: word_less_nat_alt word_le_nat_alt div_less_iff_less_mult less_eq_div_iff_mult_less_eq)
qed

lemma count16_high:
  assumes "4194152 \<le> v" "v \<le> 4194304"
  shows "65525 \<le> cluster_count v False"
proof -
  have v: "v \<le> 4194304" "42 \<le> v" "unat v \<le> 4194304" "4194152 \<le> unat v" using assms by (simp_all add: word_less_nat_alt word_le_nat_alt)
  have "unat (fatfs_calc_cluster_size v False) = 64" using spc16_cases [OF v(1)] v by (auto simp: sizes16_def)
  then obtain p q where pq: "64 * p \<le> unat v" "unat v < 64 * p + 64" "256 * q \<le> p + 1" "p + 1 < 256 * q + 256"
    "unat (cluster_count v False) = (unat v - (42 + 2 * q)) div 64" by (rule count16_div [OF v(1,2)])
  have "unat v < 4194240 \<and> q \<le> 255 \<or> 4194240 \<le> unat v \<and> q \<le> 256" using pq v by linarith
  then have "4193600 \<le> unat v - (42 + 2 * q)" using v by linarith
  then show ?thesis using pq(5) by (simp add: word_le_nat_alt less_eq_div_iff_mult_less_eq)
qed

lemma count32_bounds:
  assumes "s * p \<le> V" "V < s * p + s" "128 * q \<le> p + 1" "p + 1 < 128 * q + (128 :: nat)" "4194304 < V"
    "(lo, hi, s) \<in> sizes32" "lo \<le> V" "V \<le> hi"
  shows "98 + 2 * q < V \<and> q + 1 < 600000 \<and> 65525 * s + (34 + 2 * q) \<le> V"
proof -
  consider "s = 8" "V \<le> 16777216" | "s = 16" "V \<le> 33554432" | "s = 32" "33554433 \<le> V \<and> V \<le> 67108864"
    | "s = 64" "67108865 \<le> V \<and> V \<le> 4294967295"
    using assms(6-8) by (auto simp: sizes32_def)
  then show ?thesis
  proof cases
    case 1
    have "1024 * q \<le> V + 8" using assms(1,3) unfolding 1(1) by linarith
    then show ?thesis using assms(5) 1(2) unfolding 1(1) by (intro conjI) linarith+
  next
    case 2
    have "2048 * q \<le> V + 16" using assms(1,3) unfolding 2(1) by linarith
    then show ?thesis using assms(5) 2(2) unfolding 2(1) by (intro conjI) linarith+
  next
    case 3
    have "4096 * q \<le> V + 32" using assms(1,3) unfolding 3(1) by linarith
    then show ?thesis using assms(5) 3(2) unfolding 3(1) by (intro conjI) linarith+
  next
    case 4
    have "8192 * q \<le> V + 64" using assms(1,3) unfolding 4(1) by linarith
    then show ?thesis using assms(5) 4(2) unfolding 4(1) by (intro conjI) linarith+
  qed
qed

lemma count32:
  assumes "4194304 < v"
  shows "65525 \<le> cluster_count v True" "32 + 2 * unat (table_size v True) + 64 < unat v" "unat (table_size v True) < 600000"
    "0 < unat (table_size v True)"
proof -
  have v: "4194304 < unat v" "unat v < 2 ^ 32" using assms u32_unat_less [of v] by (simp_all add: word_less_nat_alt)
  obtain lo hi s where s: "(lo, hi, s) \<in> sizes32"
    "lo \<le> unat v" "unat v \<le> hi" "unat (fatfs_calc_cluster_size v True) = s" using spc32_cases [OF assms] by blast
  define p where "p = unat v div s"
  define q where "q = (p + 1) div 128"
  have t: "unat (table_size v True) = q + 1" using unat_table_size [OF spc32_ok [OF assms]] by (simp add: s(4) p_def q_def)
  have "0 < s" using s(1) by (auto simp: sizes32_def)
  then have p: "s * p \<le> unat v" "unat v < s * p + s" unfolding p_def using div_range [of s "unat v"] by auto
  have q: "128 * q \<le> p + 1" "p + 1 < 128 * q + 128" unfolding q_def using div_range [of 128 "p + 1"] by auto
  have fit: "98 + 2 * q < unat v \<and> q + 1 < 600000 \<and> 65525 * s + (34 + 2 * q) \<le> unat v"
    by (rule count32_bounds [OF p q v(1) s(1-3)])
  then show "32 + 2 * unat (table_size v True) + 64 < unat v" "unat (table_size v True) < 600000" "0 < unat (table_size v True)"
    by (simp_all add: t)
  have "unat (cluster_count v True) = (unat v - (34 + 2 * q)) div s"
    using unat_cluster_count [OF spc32_ok [OF assms]] fit by (simp add: s(4) t)
  then show "65525 \<le> cluster_count v True"
    using fit \<open>0 < s\<close> by (simp add: word_le_nat_alt less_eq_div_iff_mult_less_eq le_diff_conv2)
qed


subsection \<open>The mounted volume\<close>

lemma in_run_iff:
  assumes "unat l + n \<le> 2 ^ 32"
  shows "in_run l n k \<longleftrightarrow> unat l \<le> unat k \<and> unat k < unat l + n"
proof (cases "l \<le> k")
  case True
  then have "unat (k - l) = unat k - unat l" "unat l \<le> unat k" by (simp_all add: unat_sub word_le_nat_alt)
  then show ?thesis unfolding in_run_def by linarith
next
  case False
  then have "unat k < unat l" by (simp add: word_le_nat_alt)
  moreover have "unat (k - l) = unat k + 2 ^ 32 - unat l" using False by (simp add: unat_sub_if' word_le_nat_alt)
  ultimately show ?thesis unfolding in_run_def using assms by linarith
qed

text \<open>The table, in two copies, and the root directory fit below the end of the address space.\<close>

definition layout_fits :: "u32 \<Rightarrow> bool \<Rightarrow> bool" where
  "layout_fits v is32 \<longleftrightarrow> 0 < unat (table_size v is32) \<and>
     unat (table_begin is32) + 2 * unat (table_size v is32) + root_sectors v is32 < 2 ^ 32"

lemma layout_root: "layout_fits v is32 \<Longrightarrow> unat (root_begin v is32) = unat (table_begin is32) + 2 * unat (table_size v is32)"
  by (auto simp: layout_fits_def root_begin_def table_begin_def unat_word_ariths)

lemma layout_runs:
  assumes "layout_fits v is32"
  shows "in_run (root_begin v is32) (root_sectors v is32) k \<longleftrightarrow>
      unat (root_begin v is32) \<le> unat k \<and> unat k < unat (root_begin v is32) + root_sectors v is32"
    and "in_run (table_begin is32 + 1) (unat (table_size v is32 * 2) - 1) k \<longleftrightarrow>
      unat (table_begin is32) < unat k \<and> unat k < unat (root_begin v is32)"
proof -
  show "in_run (root_begin v is32) (root_sectors v is32) k \<longleftrightarrow>
      unat (root_begin v is32) \<le> unat k \<and> unat k < unat (root_begin v is32) + root_sectors v is32"
    by (rule in_run_iff) (use assms in \<open>simp add: layout_root [OF assms]\<close>, simp add: layout_fits_def)
  have 2: "unat (table_size v is32 * 2) = 2 * unat (table_size v is32)" using assms by (auto simp: layout_fits_def unat_word_ariths)
  have 1: "unat (table_begin is32 + 1) = unat (table_begin is32) + 1" by (simp add: table_begin_def)
  have "in_run (table_begin is32 + 1) (unat (table_size v is32 * 2) - 1) k \<longleftrightarrow>
      unat (table_begin is32 + 1) \<le> unat k \<and> unat k < unat (table_begin is32 + 1) + (unat (table_size v is32 * 2) - 1)"
    by (rule in_run_iff) (use assms in \<open>simp add: 1 2 layout_fits_def\<close>)
  moreover have "0 < unat (table_size v is32)" using assms by (simp add: layout_fits_def)
  ultimately show "in_run (table_begin is32 + 1) (unat (table_size v is32 * 2) - 1) k \<longleftrightarrow>
      unat (table_begin is32) < unat k \<and> unat k < unat (root_begin v is32)"
    unfolding 1 2 layout_root [OF assms] by linarith
qed

lemma formatted_parts:
  assumes "layout_fits v is32"
  shows "formatted v name is32 old 0 = boot_of v name is32"
    and "unat (table_begin is32) \<le> unat k \<Longrightarrow> unat k < unat (root_begin v is32) \<Longrightarrow>
      formatted v name is32 old k = (if k = table_begin is32 then first_fat_sector is32 else zero_sector)"
    and "in_run (root_begin v is32) (root_sectors v is32) k \<Longrightarrow> formatted v name is32 old k = zero_sector"
proof -
  have "0 < unat (table_begin is32)" by (simp add: table_begin_def)
  moreover have "unat (table_begin is32) \<le> unat (root_begin v is32)" by (simp add: layout_root [OF assms])
  ultimately have "\<not> in_run (root_begin v is32) (root_sectors v is32) 0" "table_begin is32 \<noteq> 0"
    "\<not> in_run (table_begin is32 + 1) (unat (table_size v is32 * 2) - 1) 0"
    unfolding layout_runs [OF assms] by (auto simp: table_begin_def)
  then show "formatted v name is32 old 0 = boot_of v name is32" unfolding formatted_def by auto
  show "formatted v name is32 old k = (if k = table_begin is32 then first_fat_sector is32 else zero_sector)"
    if "unat (table_begin is32) \<le> unat k" "unat k < unat (root_begin v is32)"
  proof -
    have "unat (table_begin is32) < unat k \<longleftrightarrow> k \<noteq> table_begin is32" using that(1) by (auto simp: word_unat_eq_iff)
    then show ?thesis using that(2) unfolding formatted_def layout_runs [OF assms] by auto
  qed
qed (simp add: formatted_def)

lemma GET_zero: "p + 4 \<le> 512 \<Longrightarrow> GET_32BIT_WORD zero_sector p = 0" "p + 2 \<le> 512 \<Longrightarrow> GET_16BIT_WORD zero_sector p = 0"
  by (simp_all add: GET_32BIT_WORD_def GET_16BIT_WORD_def)

lemma first_fat_links:
  "j < 128 \<Longrightarrow> link_of FAT_TYPE_32 (GET_32BIT_WORD (first_fat_sector True) (j * 4)) = (if j < 3 then FAT32_LAST_CLUSTER else 0)"
  "j < 256 \<Longrightarrow> link_of FAT_TYPE_16 (GET_16BIT_WORD (first_fat_sector False) (j * 2)) = (if j < 2 then FAT32_LAST_CLUSTER else 0)"
proof -
  assume j: "j < 128"
  consider "j = 0" | "j = 1" | "j = 2" | "3 \<le> j" by linarith
  then show "link_of FAT_TYPE_32 (GET_32BIT_WORD (first_fat_sector True) (j * 4)) = (if j < 3 then FAT32_LAST_CLUSTER else 0)"
    using j by cases (simp_all add: first_fat_sector_def GET_SET_32 GET_SET_32_other GET_zero link_of_def)
next
  assume j: "j < 256"
  consider "j = 0" | "j = 1" | "2 \<le> j" by linarith
  then show "link_of FAT_TYPE_16 (GET_16BIT_WORD (first_fat_sector False) (j * 2)) = (if j < 2 then FAT32_LAST_CLUSTER else 0)"
    using j by cases (simp_all add: first_fat_sector_def GET_SET_16 GET_SET_16_other GET_zero link_of_def)
qed


text \<open>
  A volume with nothing on it: the reserved entries of the table and, on FAT32, the entry of the root directory mark the
  end of a chain, all others are free, and the root directory is all zero.
\<close>

definition fresh_volume :: "('d \<Rightarrow> u32 \<Rightarrow> bytes) \<Rightarrow> 'd fatfs \<Rightarrow> bool" where
  "fresh_volume content fs \<longleftrightarrow>
     (\<forall>c. cluster_ok fs c \<longrightarrow>
        fat_link content fs c = (if c < (case fat_type fs of FAT_TYPE_16 \<Rightarrow> 2 | FAT_TYPE_32 \<Rightarrow> 3) then FAT32_LAST_CLUSTER else 0)) \<and>
     (\<forall>i l. sector_lba fs (fatfs_get_root_cluster fs) i = Some l \<and> (fat_type fs = FAT_TYPE_32 \<longrightarrow> i < ucast (sectors_per_cluster fs)) \<longrightarrow>
        content (media fs) l = replicate 512 0)"

lemma formatted_inv:
  assumes fine: "media_fine content fs" and geo: "geometry v is32 fs" and fit: "layout_fits v is32"
    and buf: "fat_buffers fs = fat_buffers (fatfs_fat_init fs)"
  shows "fat_inv content fs"
proof -
  have "unat (fat_begin_lba fs) + unat (fat_sectors fs) < 2 ^ 32" using geo fit by (auto simp: geometry_def layout_fits_def)
  then show ?thesis
    using fine by (simp add: fat_inv_def media_fine_def buf fatfs_fat_init_def FAT_BUFFERS_def separate_def buffer_ok_def
        FAT_SECTOR_SIZE_def FAT_BUFFER_SECTORS_def)
qed

lemma formatted_link:
  assumes fine: "media_fine content fs" and geo: "geometry v is32 fs" and fit: "layout_fits v is32"
    and buf: "fat_buffers fs = fat_buffers (fatfs_fat_init fs)"
    and disk: "content (media fs) = formatted v name is32 old" and c: "cluster_ok fs c"
  shows "fat_link content fs c = (if c < (case fat_type fs of FAT_TYPE_16 \<Rightarrow> 2 | FAT_TYPE_32 \<Rightarrow> 3) then FAT32_LAST_CLUSTER else 0)"
proof -
  let ?o = "fat_sector_offset (fat_type fs) c"
  let ?l = "fat_begin_lba fs + ?o"
  let ?E = "entries_per_sector (fat_type fs)"
  have inv: "fat_inv content fs" by (rule formatted_inv [OF fine geo fit buf])
  note l = entry_lba [OF inv c]
  have g: "fat_begin_lba fs = table_begin is32" "fat_type fs = (if is32 then FAT_TYPE_32 else FAT_TYPE_16)"
    using geo by (simp_all add: geometry_def)
  have o: "unat ?o < unat (table_size v is32)"
    using c cluster_ok_iff [of fs c] geo by (simp add: word_less_nat_alt geometry_def)
  have "?l \<notin> baddress ` set (fat_buffers fs)"
    using l(3) by (simp add: buf fatfs_fat_init_def FAT_BUFFERS_def)
  then have "fat_view content fs ?l = formatted v name is32 old ?l" by (simp add: view_out disk)
  also have "\<dots> = (if ?l = table_begin is32 then first_fat_sector is32 else zero_sector)"
    by (rule formatted_parts(2) [OF fit]) (use l(1) o in \<open>simp_all add: g(1) layout_root [OF fit]\<close>)
  also have "?l = table_begin is32 \<longleftrightarrow> unat c < ?E"
  proof -
    have "0 < ?E" by (simp add: entries_per_sector_def g)
    moreover have "?l = table_begin is32 \<longleftrightarrow> unat ?o = 0" using l(1) by (simp add: g(1) unat_eq_0)
    ultimately show ?thesis by (simp add: unat_offset div_eq_0_iff)
  qed
  finally have v: "fat_view content fs ?l = (if unat c < ?E then first_fat_sector is32 else zero_sector)" .
  have link: "fat_link content fs c = link_of (fat_type fs) (case fat_type fs of
      FAT_TYPE_16 \<Rightarrow> GET_16BIT_WORD (if unat c < ?E then first_fat_sector is32 else zero_sector) (unat (fat_position (fat_type fs) c))
    | FAT_TYPE_32 \<Rightarrow> GET_32BIT_WORD (if unat c < ?E then first_fat_sector is32 else zero_sector) (unat (fat_position (fat_type fs) c)))"
    unfolding fat_link_def raw_entry_def Let_def v ..
  show ?thesis
  proof (cases "unat c < ?E")
    case True
    then show ?thesis
      using first_fat_links [of "unat c"]
      by (cases is32) (simp_all add: link unat_position g entries_per_sector_def word_less_nat_alt)
  next
    case False
    moreover have "unat c mod ?E < ?E" by (simp add: entries_per_sector_def g)
    ultimately show ?thesis
      by (cases is32)
        (simp_all add: link unat_position g entries_per_sector_def word_less_nat_alt GET_zero link_of_def)
  qed
qed

lemma formatted_root:
  assumes geo: "geometry v is32 fs" and fit: "layout_fits v is32" and disk: "content (media fs) = formatted v name is32 old"
    and i: "sector_lba fs (fatfs_get_root_cluster fs) i = Some l" "fat_type fs = FAT_TYPE_32 \<longrightarrow> i < ucast (sectors_per_cluster fs)"
  shows "content (media fs) l = replicate 512 0"
proof -
  have l: "l = root_begin v is32 + i" "unat i < root_sectors v is32"
    using geo i by (cases is32; auto simp: sector_lba_def fatfs_get_root_cluster_def geometry_def fatfs_lba_of_cluster_def
        root_sectors_def word_less_nat_alt unsigned_ucast_eq take_bit_nat_eq_self order_less_le_trans [OF unsigned_less]
        split: if_splits)+
  then have "in_run (root_begin v is32) (root_sectors v is32) l" by (simp add: in_run_def)
  then show ?thesis unfolding disk by (simp add: formatted_parts(3) [OF fit] zero_sector_def FAT_SECTOR_SIZE_def)
qed


lemma fits16: "v \<le> 4194304 \<Longrightarrow> layout_fits v False"
  using table16_small [of v] by (simp add: layout_fits_def table_begin_def root_sectors_def)

lemma fits32:
  assumes "4194304 < v"
  shows "layout_fits v True"
proof -
  have "unat (fatfs_calc_cluster_size v True) < 256" using unsigned_less [of "fatfs_calc_cluster_size v True", where 'a = nat] by simp
  then show ?thesis using count32 [OF assms] by (simp add: layout_fits_def table_begin_def root_sectors_def)
qed

lemma size16: "v \<le> 4194304 \<Longrightarrow> unat (table_size v False) < 2 ^ 16 \<and> table_size v False \<noteq> 0"
  using table16_small(1,2) [of v] by (auto simp: unat_eq_0)

lemma spc_nonzero: "2 \<le> unat (fatfs_calc_cluster_size v is32) \<Longrightarrow> fatfs_calc_cluster_size v is32 \<noteq> 0"
  by auto

text \<open>The format of a volume of a given size.\<close>

lemma format_ok:
  assumes "media_fine content fs"
  defines "is32 \<equiv> \<lambda>v :: u32. 4194304 < v"
  shows "\<exists>fs1. fatfs_format fs v name = Some (1, fs1) \<and> disk_io fs1 = disk_io fs \<and> geometry v (is32 v) fs1 \<and>
    content (media fs1) = formatted v name (is32 v) (content (media fs))"
proof (cases "v \<le> 4194304")
  case True
  then have "is32 v = False" by (simp add: is32_def not_less)
  then show ?thesis using True format16_ok [OF assms(1) spc_nonzero [OF spc16_ok [OF True]]] by (simp add: fatfs_format_def)
next
  case False
  then have big: "4194304 < v" by (simp add: not_le)
  then have "is32 v = True" by (simp add: is32_def)
  then show ?thesis using False format32_ok [OF assms(1) spc_nonzero [OF spc32_ok [OF big]]] by (simp add: fatfs_format_def)
qed

text \<open>A mount of a formatted medium that finds the type it was formatted with.\<close>

lemma mount_same:
  assumes fine: "media_fine content fs" and len: "length (bsector (currentsector fs)) = 512" and fit: "layout_fits v is32"
    and disk: "content (media fs) = formatted v name is32 old" and spc: "fatfs_calc_cluster_size v is32 \<noteq> 0"
    and size: "is32 \<or> unat (table_size v is32) < 2 ^ 16 \<and> table_size v is32 \<noteq> 0"
    and cnt: "4085 \<le> cluster_count v is32" "cluster_count v is32 < 65525 \<longleftrightarrow> \<not> is32"
  shows "\<exists>fs3. fatfs_init fs = Some (FAT_INIT_OK, fs3) \<and> geometry v is32 fs3 \<and> fat_inv content fs3 \<and> fresh_volume content fs3 \<and>
    disk_io fs3 = disk_io fs \<and> content (media fs3) = content (media fs)"
proof -
  let ?b = "boot_of v name is32"
  have "content (media fs) 0 = ?b" unfolding disk by (rule formatted_parts(1) [OF fit])
  from init_boot [OF fine len this spc size]
  obtain d fs' where d: "content d = content (media fs)"
    "fs' = load_parameters ?b ((set_current ?b (format_start fs))\<lparr>lba_begin := 0, media := d\<rparr>)"
    "fatfs_init fs =
      (if cluster_count v is32 < 4085 then Some (FAT_INIT_WRONG_FILESYS_TYPE, fs')
       else if cluster_count v is32 < 65525 then Some (FAT_INIT_OK, fs'\<lparr>rootdir_first_cluster := 0, fat_type := FAT_TYPE_16\<rparr>)
       else Some (FAT_INIT_OK, fs'\<lparr>fat_type := FAT_TYPE_32\<rparr>))" by (elim exE conjE)
  define fs3 where "fs3 = (if is32 then fs'\<lparr>fat_type := FAT_TYPE_32\<rparr> else fs'\<lparr>rootdir_first_cluster := 0, fat_type := FAT_TYPE_16\<rparr>)"
  note f = boot_of_fields [OF size, where name = name]
  have init: "fatfs_init fs = Some (FAT_INIT_OK, fs3)" unfolding d(3) fs3_def using cnt by auto
  have geo: "geometry v is32 fs3"
    unfolding geometry_def fs3_def d(2) load_parameters_def Let_def f(1,2,8,9,12)
    using f(13,14) by (cases is32) (simp_all add: FAT_SECTOR_SIZE_def root_begin_def)
  have io: "disk_io fs3 = disk_io fs" "media fs3 = d" "fat_buffers fs3 = fat_buffers (fatfs_fat_init fs3)"
    by (simp_all add: fs3_def d(2) load_parameters_def Let_def format_start_def fatfs_fat_init_def)
  have fine3: "media_fine content fs3" using fine io(1) by (simp add: media_fine_def)
  have disk3: "content (media fs3) = formatted v name is32 old" using io(2) d(1) disk by simp
  have "fat_inv content fs3" by (rule formatted_inv [OF fine3 geo fit io(3)])
  moreover have "fresh_volume content fs3"
    unfolding fresh_volume_def
    using formatted_link [OF fine3 geo fit io(3) disk3] formatted_root [where content = content, OF geo fit disk3] by blast
  moreover have "content (media fs3) = content (media fs)" unfolding disk3 disk ..
  ultimately show ?thesis using init geo io(1) by (intro exI [of _ fs3] conjI)
qed


lemma mount_fat32_ok:
  assumes "fat_inv content fs" "geometry v True fs" "media_fine content fs" "4194304 < v"
  shows "fat_ok content fs"
  using assms count32(3) [OF assms(4)]
  by (simp add: fat_ok_def geometry_def media_fine_def entries_per_sector_def link_limit_def in_fat_def table_begin_def
      FAT32_INVALID_CLUSTER_def)

lemma format_facts:
  assumes "is32 \<longleftrightarrow> 4194304 < v" "8244 \<le> v" "v < 4194152 \<or> 4194304 < v"
  shows "layout_fits v is32" "fatfs_calc_cluster_size v is32 \<noteq> 0"
    "is32 \<or> unat (table_size v is32) < 2 ^ 16 \<and> table_size v is32 \<noteq> 0"
    "4085 \<le> cluster_count v is32" "cluster_count v is32 < 65525 \<longleftrightarrow> \<not> is32"
proof -
  have "layout_fits v is32 \<and> fatfs_calc_cluster_size v is32 \<noteq> 0 \<and>
    (is32 \<or> unat (table_size v is32) < 2 ^ 16 \<and> table_size v is32 \<noteq> 0) \<and>
    4085 \<le> cluster_count v is32 \<and> (cluster_count v is32 < 65525 \<longleftrightarrow> \<not> is32)"
  proof (cases is32)
    case True
    then have v: "4194304 < v" using assms(1) by simp
    have "65525 \<le> cluster_count v True" by (rule count32(1) [OF v])
    moreover from this have "4085 \<le> cluster_count v True" by (rule order_trans [rotated]) simp
    ultimately show ?thesis using True fits32 [OF v] spc_nonzero [OF spc32_ok [OF v]] by (simp add: not_less)
  next
    case False
    then have v: "v \<le> 4194304" "v < 4194152" using assms(1,3) by auto
    then show ?thesis
      using False fits16 [OF v(1)] spc_nonzero [OF spc16_ok [OF v(1)]] size16 [OF v(1)] count16_mid [OF assms(2) v(2)] by simp
  qed
  then show "layout_fits v is32" "fatfs_calc_cluster_size v is32 \<noteq> 0"
    "is32 \<or> unat (table_size v is32) < 2 ^ 16 \<and> table_size v is32 \<noteq> 0"
    "4085 \<le> cluster_count v is32" "cluster_count v is32 < 65525 \<longleftrightarrow> \<not> is32" by auto
qed

text \<open>
  C9: formatting a working medium of at least 8244 sectors succeeds, and whoever mounts it afterwards gets the volume
  that was formatted: the same type, FAT16 up to 4194304 sectors and FAT32 above, the same geometry,
  a table in which only the reserved entries and the root directory are taken, and an empty root directory. A FAT32 volume
  meets the invariant on which the other operations on the table rely. Sizes from 4194152 to 4194304 are excepted.
\<close>

theorem format_mount:
  assumes "media_ok (disk_io fs) content" "media_reliable (disk_io fs)"
    and "8244 \<le> volume_sectors" "volume_sectors < 4194152 \<or> 4194304 < volume_sectors"
  shows "\<exists>fs1. fatfs_format fs volume_sectors name = Some (1, fs1) \<and>
    (\<forall>fs2. disk_io fs2 = disk_io fs \<and> media fs2 = media fs1 \<and> length (bsector (currentsector fs2)) = 512 \<longrightarrow>
      (\<exists>fs3. fatfs_init fs2 = Some (FAT_INIT_OK, fs3) \<and>
        fat_type fs3 = (if volume_sectors \<le> 4194304 then FAT_TYPE_16 else FAT_TYPE_32) \<and>
        (fat_type fs3, sectors_per_cluster fs3, fat_sectors fs3, fat_begin_lba fs3, cluster_begin_lba fs3,
           lba_begin fs3, root_entry_count fs3, rootdir_first_cluster fs3) =
        (fat_type fs1, sectors_per_cluster fs1, fat_sectors fs1, fat_begin_lba fs1, cluster_begin_lba fs1,
           lba_begin fs1, root_entry_count fs1, rootdir_first_cluster fs1) \<and>
        fat_inv content fs3 \<and> fresh_volume content fs3 \<and> (4194304 < volume_sectors \<longrightarrow> fat_ok content fs3)))"
proof -
  let ?v = volume_sectors
  define is32 where "is32 \<longleftrightarrow> 4194304 < ?v"
  have fine: "media_fine content fs" using assms(1,2) by (simp add: media_fine_def)
  from format_ok [OF this, of ?v name]
  obtain fs1 where f: "fatfs_format fs ?v name = Some (1, fs1)" "disk_io fs1 = disk_io fs" "geometry ?v is32 fs1"
    "content (media fs1) = formatted ?v name is32 (content (media fs))" unfolding is32_def by (elim exE conjE)
  have facts: "layout_fits ?v is32" "fatfs_calc_cluster_size ?v is32 \<noteq> 0"
    "is32 \<or> unat (table_size ?v is32) < 2 ^ 16 \<and> table_size ?v is32 \<noteq> 0"
    "4085 \<le> cluster_count ?v is32" "cluster_count ?v is32 < 65525 \<longleftrightarrow> \<not> is32"
    by (rule format_facts [OF is32_def assms(3,4)])+
  have "\<exists>fs3. fatfs_init fs2 = Some (FAT_INIT_OK, fs3) \<and> geometry ?v is32 fs3 \<and> fat_inv content fs3 \<and>
      fresh_volume content fs3 \<and> (4194304 < ?v \<longrightarrow> fat_ok content fs3)"
    if fs2: "disk_io fs2 = disk_io fs \<and> media fs2 = media fs1 \<and> length (bsector (currentsector fs2)) = 512" for fs2
  proof -
    have fine2: "media_fine content fs2" using fine fs2 by (simp add: media_fine_def)
    have "length (bsector (currentsector fs2)) = 512" "content (media fs2) = formatted ?v name is32 (content (media fs))"
      using fs2 f(4) by simp_all
    from mount_same [OF fine2 this(1) facts(1) this(2) facts(2-)]
    obtain fs3 where fs3: "fatfs_init fs2 = Some (FAT_INIT_OK, fs3)" "geometry ?v is32 fs3" "fat_inv content fs3"
      "fresh_volume content fs3" "disk_io fs3 = disk_io fs2" by blast
    have "fat_ok content fs3" if "4194304 < ?v"
      using mount_fat32_ok [OF fs3(3) _ _ that] fs3(2,5) fine2 that by (simp add: is32_def media_fine_def)
    then show ?thesis using fs3 by blast
  qed
  moreover have "fat_type fs3 = (if ?v \<le> 4194304 then FAT_TYPE_16 else FAT_TYPE_32) \<and>
      (fat_type fs3, sectors_per_cluster fs3, fat_sectors fs3, fat_begin_lba fs3, cluster_begin_lba fs3,
           lba_begin fs3, root_entry_count fs3, rootdir_first_cluster fs3) =
        (fat_type fs1, sectors_per_cluster fs1, fat_sectors fs1, fat_begin_lba fs1, cluster_begin_lba fs1,
           lba_begin fs1, root_entry_count fs1, rootdir_first_cluster fs1)"
    if "geometry ?v is32 fs3" for fs3 :: "'a fatfs"
    using that f(3) by (auto simp: geometry_def is32_def not_less)
  ultimately show ?thesis using f(1) by blast
qed


theorem format_mount_witness:
  "\<exists>fs1 fs3. fatfs_format demo 5000000 [65, 88] = Some (1, fs1) \<and> fatfs_init (demo\<lparr>media := media fs1\<rparr>) = Some (FAT_INIT_OK, fs3) \<and>
     fat_type fs3 = FAT_TYPE_32 \<and> fat_ok ram_sector fs3 \<and> fresh_volume ram_sector fs3"
proof -
  have io: "media_ok (disk_io demo) ram_sector" "media_reliable (disk_io demo)" using ram_ok ram_reliable by (simp_all add: demo_def)
  have v: "(8244 :: u32) \<le> 5000000" "(5000000 :: u32) < 4194152 \<or> (4194304 :: u32) < 5000000" by simp_all
  from format_mount [OF io v, of "[65, 88]"]
  obtain fs1 where f: "fatfs_format demo 5000000 [65, 88] = Some (1, fs1)"
    "\<forall>fs2. disk_io fs2 = disk_io demo \<and> media fs2 = media fs1 \<and> length (bsector (currentsector fs2)) = 512 \<longrightarrow>
      (\<exists>fs3. fatfs_init fs2 = Some (FAT_INIT_OK, fs3) \<and>
        fat_type fs3 = (if (5000000 :: u32) \<le> 4194304 then FAT_TYPE_16 else FAT_TYPE_32) \<and>
        (fat_type fs3, sectors_per_cluster fs3, fat_sectors fs3, fat_begin_lba fs3, cluster_begin_lba fs3,
           lba_begin fs3, root_entry_count fs3, rootdir_first_cluster fs3) =
        (fat_type fs1, sectors_per_cluster fs1, fat_sectors fs1, fat_begin_lba fs1, cluster_begin_lba fs1,
           lba_begin fs1, root_entry_count fs1, rootdir_first_cluster fs1) \<and>
        fat_inv ram_sector fs3 \<and> fresh_volume ram_sector fs3 \<and> ((4194304 :: u32) < 5000000 \<longrightarrow> fat_ok ram_sector fs3))"
    by (elim exE conjE)
  have "disk_io (demo\<lparr>media := media fs1\<rparr>) = disk_io demo \<and> media (demo\<lparr>media := media fs1\<rparr>) = media fs1 \<and>
      length (bsector (currentsector (demo\<lparr>media := media fs1\<rparr>))) = 512" by (simp add: demo_def)
  from f(2) [rule_format, OF this] obtain fs3 where fs3: "fatfs_init (demo\<lparr>media := media fs1\<rparr>) = Some (FAT_INIT_OK, fs3)"
    "fat_type fs3 = (if (5000000 :: u32) \<le> 4194304 then FAT_TYPE_16 else FAT_TYPE_32)" "fresh_volume ram_sector fs3"
    "(4194304 :: u32) < 5000000 \<longrightarrow> fat_ok ram_sector fs3" by (elim exE conjE)
  have "fat_type fs3 = FAT_TYPE_32" "fat_ok ram_sector fs3" using fs3(2,4) by simp_all
  then show ?thesis using f(1) fs3(1,3) by blast
qed

text \<open>
  C27: some sizes format successfully as FAT16 into a volume that is not one when it is mounted. Of 42 to 8243 sectors the
  mount fails, since it counts fewer than 4085 clusters; of 4194152 to 4194304 sectors it counts 65525 clusters or
  more and takes the volume for FAT32, reading the FAT16 table in entries of 32 bits.
\<close>

theorem format_mount_wrong:
  assumes "media_ok (disk_io fs) content" "media_reliable (disk_io fs)"
    and "42 \<le> volume_sectors \<and> volume_sectors < 8244 \<or> 4194152 \<le> volume_sectors \<and> volume_sectors \<le> 4194304"
  shows "\<exists>fs1. fatfs_format fs volume_sectors name = Some (1, fs1) \<and> fat_type fs1 = FAT_TYPE_16 \<and>
    (\<forall>fs2. disk_io fs2 = disk_io fs \<and> media fs2 = media fs1 \<and> length (bsector (currentsector fs2)) = 512 \<longrightarrow>
      (\<exists>fs3. fatfs_init fs2 = Some (if volume_sectors < 8244 then FAT_INIT_WRONG_FILESYS_TYPE else FAT_INIT_OK, fs3) \<and>
        (8244 \<le> volume_sectors \<longrightarrow> fat_type fs3 = FAT_TYPE_32)))"
proof -
  let ?v = volume_sectors
  have v: "?v \<le> 4194304" "\<not> 4194304 < ?v" using assms(3) by (auto simp: not_less word_le_nat_alt word_less_nat_alt)
  have fine: "media_fine content fs" using assms(1,2) by (simp add: media_fine_def)
  from format_ok [OF this, of ?v name]
  obtain fs1 where f: "fatfs_format fs ?v name = Some (1, fs1)" "geometry ?v False fs1"
    "content (media fs1) = formatted ?v name False (content (media fs))" using v(2) by auto
  have cnt: "cluster_count ?v False < 4085 \<longleftrightarrow> ?v < 8244" "8244 \<le> ?v \<Longrightarrow> 65525 \<le> cluster_count ?v False"
    using assms(3) count16_small [of ?v] count16_high [of ?v] by (auto simp: word_le_nat_alt word_less_nat_alt)
  have "\<exists>fs3. fatfs_init fs2 = Some (if ?v < 8244 then FAT_INIT_WRONG_FILESYS_TYPE else FAT_INIT_OK, fs3) \<and>
      (8244 \<le> ?v \<longrightarrow> fat_type fs3 = FAT_TYPE_32)"
    if fs2: "disk_io fs2 = disk_io fs \<and> media fs2 = media fs1 \<and> length (bsector (currentsector fs2)) = 512" for fs2
  proof -
    have "media_fine content fs2" "length (bsector (currentsector fs2)) = 512" using fine fs2 by (simp_all add: media_fine_def)
    moreover have "content (media fs2) 0 = boot_of ?v name False" using fs2 f(3) formatted_parts(1) [OF fits16 [OF v(1)]] by simp
    moreover have "False \<or> unat (table_size ?v False) < 2 ^ 16 \<and> table_size ?v False \<noteq> 0" using size16 [OF v(1)] by simp
    ultimately obtain fs' where "fatfs_init fs2 =
      (if cluster_count ?v False < 4085 then Some (FAT_INIT_WRONG_FILESYS_TYPE, fs')
       else if cluster_count ?v False < 65525 then Some (FAT_INIT_OK, fs'\<lparr>rootdir_first_cluster := 0, fat_type := FAT_TYPE_16\<rparr>)
       else Some (FAT_INIT_OK, fs'\<lparr>fat_type := FAT_TYPE_32\<rparr>))"
      using init_boot [OF _ _ _ spc_nonzero [OF spc16_ok [OF v(1)]]] by blast
    then show ?thesis using cnt by (cases "?v < 8244") (auto simp: not_less)
  qed
  moreover have "fat_type fs1 = FAT_TYPE_16" using f(2) by (simp add: geometry_def)
  ultimately show ?thesis using f(1) by blast
qed

theorem format_mount_wrong_witness:
  "\<exists>fs1 fs3. fatfs_format demo 4194304 [65, 88] = Some (1, fs1) \<and> fat_type fs1 = FAT_TYPE_16 \<and>
     fatfs_init (demo\<lparr>media := media fs1\<rparr>) = Some (FAT_INIT_OK, fs3) \<and> fat_type fs3 = FAT_TYPE_32"
proof -
  have io: "media_ok (disk_io demo) ram_sector" "media_reliable (disk_io demo)" using ram_ok ram_reliable by (simp_all add: demo_def)
  have v: "(42 :: u32) \<le> 4194304 \<and> (4194304 :: u32) < 8244 \<or> (4194152 :: u32) \<le> 4194304 \<and> (4194304 :: u32) \<le> 4194304" by simp
  from format_mount_wrong [OF io v, of "[65, 88]"]
  obtain fs1 where f: "fatfs_format demo 4194304 [65, 88] = Some (1, fs1)" "fat_type fs1 = FAT_TYPE_16"
    "\<forall>fs2. disk_io fs2 = disk_io demo \<and> media fs2 = media fs1 \<and> length (bsector (currentsector fs2)) = 512 \<longrightarrow>
      (\<exists>fs3. fatfs_init fs2 = Some (if (4194304 :: u32) < 8244 then FAT_INIT_WRONG_FILESYS_TYPE else FAT_INIT_OK, fs3) \<and>
        ((8244 :: u32) \<le> 4194304 \<longrightarrow> fat_type fs3 = FAT_TYPE_32))"
    by (elim exE conjE)
  have "disk_io (demo\<lparr>media := media fs1\<rparr>) = disk_io demo \<and> media (demo\<lparr>media := media fs1\<rparr>) = media fs1 \<and>
      length (bsector (currentsector (demo\<lparr>media := media fs1\<rparr>))) = 512" by (simp add: demo_def)
  from f(3) [rule_format, OF this] obtain fs3 where
    "fatfs_init (demo\<lparr>media := media fs1\<rparr>) = Some (if (4194304 :: u32) < 8244 then FAT_INIT_WRONG_FILESYS_TYPE else FAT_INIT_OK, fs3)"
    "(8244 :: u32) \<le> 4194304 \<longrightarrow> fat_type fs3 = FAT_TYPE_32" by (elim exE conjE)
  then have "fatfs_init (demo\<lparr>media := media fs1\<rparr>) = Some (FAT_INIT_OK, fs3)" "fat_type fs3 = FAT_TYPE_32" by simp_all
  then show ?thesis using f(1,2) by blast
qed

end
