(* ===== verification/QSort.thy ===== *)
theory QSort
  imports Prelude "HOL-Library.Multiset"
begin

text \<open>
  The sorting routine \<open>_quicksort\<close> of \<open>kernel/misc/qsort.c\<close>: quicksort with an explicit stack of
  postponed partitions, which leaves partitions of up to five elements alone, followed by one
  insertion sort over the whole array. The array is the list of its elements, each \<open>size\<close> bytes in the
  source, with \<open>size\<close> not 0; a pointer into it is the number of the element, as an integer, since the
  pointers run outside the array when the comparison function misbehaves. \<open>SWAP\<close> and the final shift
  move whole elements, byte by byte. A comparison or a swap outside the array, a push on
  the full stack, and a loop that does not end are \<^const>\<open>None\<close>. The comparison function is a parameter; its \<open>arg\<close> is part of it.
\<close>

definition MAX_THRESH :: int where "MAX_THRESH = 4"
definition STACK_SIZE :: nat where "STACK_SIZE = 32"

definition elem :: "'a list \<Rightarrow> int \<Rightarrow> 'a option" where
  "elem xs i = (if 0 \<le> i \<and> nat i < length xs then Some (xs ! nat i) else None)"

definition compar :: "('a \<Rightarrow> 'a \<Rightarrow> int) \<Rightarrow> 'a list \<Rightarrow> int \<Rightarrow> int \<Rightarrow> int option" where
  "compar cmp xs i j = do { x \<leftarrow> elem xs i; y \<leftarrow> elem xs j; Some (cmp x y) }"

definition SWAP :: "'a list \<Rightarrow> int \<Rightarrow> int \<Rightarrow> 'a list option" where
  "SWAP xs i j = do { x \<leftarrow> elem xs i; y \<leftarrow> elem xs j; Some (xs[nat i := y, nat j := x]) }"

text \<open>The elements at \<open>lo\<close>, \<open>mid\<close> and \<open>hi\<close> are put in order.\<close>

definition median :: "('a \<Rightarrow> 'a \<Rightarrow> int) \<Rightarrow> 'a list \<Rightarrow> int \<Rightarrow> int \<Rightarrow> int \<Rightarrow> 'a list option" where
  "median cmp xs lo mid hi = do {
     c \<leftarrow> compar cmp xs mid lo;
     xs \<leftarrow> (if c < 0 then SWAP xs mid lo else Some xs);
     c \<leftarrow> compar cmp xs hi mid;
     if c < 0 then do {
       xs \<leftarrow> SWAP xs mid hi;
       c \<leftarrow> compar cmp xs mid lo;
       if c < 0 then SWAP xs mid lo else Some xs
     }
     else Some xs
   }"

partial_function (option) scan_left :: "('a \<Rightarrow> 'a \<Rightarrow> int) \<Rightarrow> 'a list \<Rightarrow> int \<Rightarrow> int \<Rightarrow> int option" where
  "scan_left cmp xs left_ptr mid = do {
     c \<leftarrow> compar cmp xs left_ptr mid;
     if c < 0 then scan_left cmp xs (left_ptr + 1) mid else Some left_ptr
   }"

partial_function (option) scan_right :: "('a \<Rightarrow> 'a \<Rightarrow> int) \<Rightarrow> 'a list \<Rightarrow> int \<Rightarrow> int \<Rightarrow> int option" where
  "scan_right cmp xs mid right_ptr = do {
     c \<leftarrow> compar cmp xs mid right_ptr;
     if c < 0 then scan_right cmp xs mid (right_ptr - 1) else Some right_ptr
   }"

text \<open>The ``collapse the walls'' loop: the array and the two pointers it ends with.\<close>

partial_function (option) collapse ::
  "('a \<Rightarrow> 'a \<Rightarrow> int) \<Rightarrow> 'a list \<Rightarrow> int \<Rightarrow> int \<Rightarrow> int \<Rightarrow> ('a list \<times> int \<times> int) option" where
  "collapse cmp xs mid left_ptr right_ptr = do {
     left_ptr \<leftarrow> scan_left cmp xs left_ptr mid;
     right_ptr \<leftarrow> scan_right cmp xs mid right_ptr;
     if left_ptr < right_ptr then do {
       xs \<leftarrow> SWAP xs left_ptr right_ptr;
       let mid = (if mid = left_ptr then right_ptr else if mid = right_ptr then left_ptr else mid);
       if left_ptr + 1 \<le> right_ptr - 1 then collapse cmp xs mid (left_ptr + 1) (right_ptr - 1)
       else Some (xs, left_ptr + 1, right_ptr - 1)
     }
     else if left_ptr = right_ptr then Some (xs, left_ptr + 1, right_ptr - 1)
     else Some (xs, left_ptr, right_ptr)
   }"

text \<open>
  A stack node is \<^const>\<open>None\<close> when its pointers are \<open>NULL\<close>. The list is the stack with its top first.
  The distance between two pointers is compared with the threshold as a \<open>size_t\<close>, so a negative
  distance is a large one.
\<close>

type_synonym stack_node = "(int \<times> int) option"

definition PUSH :: "stack_node \<Rightarrow> stack_node list \<Rightarrow> stack_node list option" where
  "PUSH node stack = (if length stack < STACK_SIZE then Some (node # stack) else None)"

definition below_thresh :: "int \<Rightarrow> bool" where
  "below_thresh d \<longleftrightarrow> 0 \<le> d \<and> d \<le> MAX_THRESH"

definition next_partition :: "int \<Rightarrow> int \<Rightarrow> int \<Rightarrow> int \<Rightarrow> stack_node list \<Rightarrow> (stack_node \<times> stack_node list) option" where
  "next_partition lo hi left_ptr right_ptr stack =
     (if below_thresh (right_ptr - lo) then
        (if below_thresh (hi - left_ptr) then Some (hd stack, tl stack)
         else Some (Some (left_ptr, hi), stack))
      else if below_thresh (hi - left_ptr) then Some (Some (lo, right_ptr), stack)
      else if right_ptr - lo > hi - left_ptr then
        do { stack \<leftarrow> PUSH (Some (lo, right_ptr)) stack; Some (Some (left_ptr, hi), stack) }
      else
        do { stack \<leftarrow> PUSH (Some (left_ptr, hi)) stack; Some (Some (lo, right_ptr), stack) })"

partial_function (option) quick_loop ::
  "('a \<Rightarrow> 'a \<Rightarrow> int) \<Rightarrow> 'a list \<Rightarrow> stack_node \<Rightarrow> stack_node list \<Rightarrow> 'a list option" where
  "quick_loop cmp xs cur stack =
     (if stack \<noteq> [] then do {
        (lo, hi) \<leftarrow> cur;
        let mid = lo + (hi - lo) div 2;
        xs \<leftarrow> median cmp xs lo mid hi;
        (xs, left_ptr, right_ptr) \<leftarrow> collapse cmp xs mid (lo + 1) (hi - 1);
        (cur, stack) \<leftarrow> next_partition lo hi left_ptr right_ptr stack;
        quick_loop cmp xs cur stack
      }
      else Some xs)"

text \<open>The insertion sort: the smallest of the first elements goes to the front and stops all later searches.\<close>

partial_function (option) find_smallest :: "('a \<Rightarrow> 'a \<Rightarrow> int) \<Rightarrow> 'a list \<Rightarrow> int \<Rightarrow> int \<Rightarrow> int \<Rightarrow> int option" where
  "find_smallest cmp xs thresh tmp_ptr run_ptr =
     (if run_ptr \<le> thresh then do {
        c \<leftarrow> compar cmp xs run_ptr tmp_ptr;
        find_smallest cmp xs thresh (if c < 0 then run_ptr else tmp_ptr) (run_ptr + 1)
      }
      else Some tmp_ptr)"

partial_function (option) insert_pos :: "('a \<Rightarrow> 'a \<Rightarrow> int) \<Rightarrow> 'a list \<Rightarrow> int \<Rightarrow> int \<Rightarrow> int option" where
  "insert_pos cmp xs run_ptr tmp_ptr = do {
     c \<leftarrow> compar cmp xs run_ptr tmp_ptr;
     if c < 0 then insert_pos cmp xs run_ptr (tmp_ptr - 1) else Some (tmp_ptr + 1)
   }"

text \<open>\<open>n\<close> elements below \<open>hi\<close> move up by one place; then \<open>c\<close> takes the free place.\<close>

primrec shift :: "nat \<Rightarrow> nat \<Rightarrow> 'a \<Rightarrow> 'a list \<Rightarrow> 'a list" where
  "shift 0 hi c xs = xs[hi := c]"
| "shift (Suc n) hi c xs = shift n (hi - 1) c (xs[hi := xs ! (hi - 1)])"

partial_function (option) insertion_loop :: "('a \<Rightarrow> 'a \<Rightarrow> int) \<Rightarrow> 'a list \<Rightarrow> int \<Rightarrow> 'a list option" where
  "insertion_loop cmp xs run_ptr =
     (if run_ptr \<le> int (length xs) - 1 then do {
        tmp_ptr \<leftarrow> insert_pos cmp xs run_ptr (run_ptr - 1);
        insertion_loop cmp
          (if tmp_ptr \<noteq> run_ptr then shift (nat (run_ptr - tmp_ptr)) (nat run_ptr) (xs ! nat run_ptr) xs else xs)
          (run_ptr + 1)
      }
      else Some xs)"

definition insertion_sort :: "('a \<Rightarrow> 'a \<Rightarrow> int) \<Rightarrow> 'a list \<Rightarrow> 'a list option" where
  "insertion_sort cmp xs = do {
     let end_ptr = int (length xs) - 1;
     tmp_ptr \<leftarrow> find_smallest cmp xs (min end_ptr MAX_THRESH) 0 1;
     xs \<leftarrow> (if tmp_ptr \<noteq> 0 then SWAP xs tmp_ptr 0 else Some xs);
     insertion_loop cmp xs 2
   }"

definition quicksort :: "('a \<Rightarrow> 'a \<Rightarrow> int) \<Rightarrow> 'a list \<Rightarrow> 'a list option" where
  "quicksort cmp xs =
     (if xs = [] then Some xs
      else do {
        xs \<leftarrow> (if int (length xs) > MAX_THRESH
               then do { stack \<leftarrow> PUSH None []; quick_loop cmp xs (Some (0, int (length xs) - 1)) stack }
               else Some xs);
        insertion_sort cmp xs
      })"

subsection \<open>Accesses inside the array\<close>

lemma compar_nat: "i < length xs \<Longrightarrow> j < length xs \<Longrightarrow> compar cmp xs (int i) (int j) = Some (cmp (xs ! i) (xs ! j))"
  by (simp add: compar_def elem_def)

definition swap :: "'a list \<Rightarrow> nat \<Rightarrow> nat \<Rightarrow> 'a list" where
  "swap xs i j = xs[i := xs ! j, j := xs ! i]"

lemma SWAP_nat: "i < length xs \<Longrightarrow> j < length xs \<Longrightarrow> SWAP xs (int i) (int j) = Some (swap xs i j)"
  by (simp add: SWAP_def elem_def swap_def)

lemma length_swap [simp]: "length (swap xs i j) = length xs"
  by (simp add: swap_def)

lemma mset_swap': "i < length xs \<Longrightarrow> j < length xs \<Longrightarrow> mset (swap xs i j) = mset xs"
  unfolding swap_def by (rule mset_swap)

lemma nth_swap: "i < length xs \<Longrightarrow> j < length xs \<Longrightarrow> swap xs i j ! k = (if k = j then xs ! i else if k = i then xs ! j else xs ! k)"
  by (simp add: swap_def nth_list_update)

text \<open>Arrays that differ only by a permutation of the elements between two places.\<close>

definition same_outside :: "nat \<Rightarrow> nat \<Rightarrow> 'a list \<Rightarrow> 'a list \<Rightarrow> bool" where
  "same_outside lo hi xs ys \<longleftrightarrow> mset ys = mset xs \<and> (\<forall>i. i < lo \<or> hi < i \<longrightarrow> ys ! i = xs ! i)"

lemma same_outside_refl [simp]: "same_outside lo hi xs xs"
  by (simp add: same_outside_def)

lemma same_outside_trans: "same_outside lo hi xs ys \<Longrightarrow> same_outside lo hi ys zs \<Longrightarrow> same_outside lo hi xs zs"
  by (simp add: same_outside_def)

lemma same_outside_length: "same_outside lo hi xs ys \<Longrightarrow> length ys = length xs"
  unfolding same_outside_def by (blast dest: mset_eq_length)

lemma same_outside_swap:
  "i \<in> {lo..hi} \<Longrightarrow> j \<in> {lo..hi} \<Longrightarrow> hi < length xs \<Longrightarrow> same_outside lo hi xs (swap xs i j)"
  by (auto simp: same_outside_def mset_swap' nth_swap)

lemma same_outside_nth: "same_outside lo hi xs ys \<Longrightarrow> i < lo \<or> hi < i \<Longrightarrow> ys ! i = xs ! i"
  unfolding same_outside_def by blast

text \<open>The elements between the two places are the same ones in another order.\<close>

lemma split_three: "lo \<le> hi \<Longrightarrow> hi < length xs \<Longrightarrow> xs = take lo xs @ take (hi + 1 - lo) (drop lo xs) @ drop (hi + 1) xs"
proof -
  assume "lo \<le> hi" "hi < length xs"
  then have "drop (hi + 1 - lo) (drop lo xs) = drop (hi + 1) xs" by simp
  then show ?thesis by (metis append_take_drop_id)
qed

lemma same_outside_elems:
  assumes "same_outside lo hi xs ys" "hi < length xs" "j \<in> {lo..hi}"
  shows "\<exists>k \<in> {lo..hi}. ys ! j = xs ! k"
proof -
  let ?seg = "\<lambda>zs. take (hi + 1 - lo) (drop lo zs)"
  have lh: "lo \<le> hi" using assms(3) by auto
  have len: "length ys = length xs" by (rule same_outside_length [OF assms(1)])
  have eq: "ys ! i = xs ! i" if "i < lo \<or> hi < i" for i by (rule same_outside_nth [OF assms(1) that])
  have "take lo ys = take lo xs" "drop (hi + 1) ys = drop (hi + 1) xs"
    using len eq by (auto intro!: nth_equalityI)
  moreover have "mset ys = mset xs" using assms(1) by (simp add: same_outside_def)
  moreover have "mset ys = mset (take lo ys) + mset (?seg ys) + mset (drop (hi + 1) ys)"
    "mset xs = mset (take lo xs) + mset (?seg xs) + mset (drop (hi + 1) xs)"
    using split_three [OF lh, of ys] split_three [OF lh, of xs] assms(2) len
    by (simp_all only: mset_append [symmetric] append_assoc)
  ultimately have "mset (?seg ys) = mset (?seg xs)" by (metis add_left_cancel add_right_cancel)
  then have "set (?seg ys) = set (?seg xs)" by (rule mset_eq_setD)
  moreover have "ys ! j \<in> set (?seg ys)"
    using assms(2,3) len by (auto simp: in_set_conv_nth intro!: exI [of _ "j - lo"])
  ultimately obtain i where "i < length (?seg xs)" "?seg xs ! i = ys ! j" by (metis in_set_conv_nth)
  then show ?thesis using assms(2) lh by (intro bexI [of _ "lo + i"]) auto
qed

text \<open>The moves of the insertion put the element between the two parts.\<close>

lemma shift_eq: "shift (length B) (length A + length B) c (A @ B @ d # D) = A @ c # B @ D"
proof (induction B arbitrary: d D rule: rev_induct)
  case (snoc b B)
  then show ?case using snoc [of b "b # D"] by (simp add: nth_append list_update_append)
qed (simp add: list_update_append)

subsection \<open>The contract of the comparison function\<close>

locale comparison =
  fixes cmp :: "'a \<Rightarrow> 'a \<Rightarrow> int"
  assumes asym: "cmp x y < 0 \<Longrightarrow> \<not> cmp y x < 0"
    and trans: "\<not> cmp y x < 0 \<Longrightarrow> \<not> cmp z y < 0 \<Longrightarrow> \<not> cmp z x < 0"

context comparison
begin

abbreviation le :: "'a \<Rightarrow> 'a \<Rightarrow> bool" where
  "le x y \<equiv> \<not> cmp y x < 0"

lemma le_refl: "le x x"
  using asym [of x x] by blast

lemma le_lt: "cmp x y < 0 \<Longrightarrow> le x y"
  by (rule asym)

lemma median_ok:
  assumes "lo < mid" "mid < hi" "hi < length xs"
  shows "\<exists>ys. median cmp xs (int lo) (int mid) (int hi) = Some ys \<and> same_outside lo hi xs ys \<and>
    le (ys ! lo) (ys ! mid) \<and> le (ys ! mid) (ys ! hi)"
proof -
  define xs1 where "xs1 = (if cmp (xs ! mid) (xs ! lo) < 0 then swap xs mid lo else xs)"
  have 1: "same_outside lo hi xs xs1" "length xs1 = length xs" "le (xs1 ! lo) (xs1 ! mid)" "xs1 ! hi = xs ! hi"
    using assms by (auto simp: xs1_def nth_swap le_lt intro!: same_outside_swap)
  define xs2 where "xs2 = swap xs1 mid hi"
  have 2: "same_outside lo hi xs xs2" "length xs2 = length xs" "xs2 ! lo = xs1 ! lo" "xs2 ! mid = xs1 ! hi" "xs2 ! hi = xs1 ! mid"
    using assms 1 by (auto simp: xs2_def nth_swap intro!: same_outside_trans [OF 1(1)] same_outside_swap)
  define xs3 where "xs3 = (if cmp (xs2 ! mid) (xs2 ! lo) < 0 then swap xs2 mid lo else xs2)"
  have 3: "same_outside lo hi xs xs3" "length xs3 = length xs"
    using assms 2 by (auto simp: xs3_def intro!: same_outside_trans [OF 2(1)] same_outside_swap)
  have run: "median cmp xs (int lo) (int mid) (int hi) = Some (if cmp (xs1 ! hi) (xs1 ! mid) < 0 then xs3 else xs1)"
    using assms 1(2) 2(2)
    by (simp add: median_def compar_nat SWAP_nat xs1_def [symmetric] if_distrib [where f = Some, symmetric] xs2_def [symmetric] xs3_def [symmetric] cong: if_cong)
  show ?thesis
  proof (cases "cmp (xs1 ! hi) (xs1 ! mid) < 0")
    case True
    have "le (xs3 ! lo) (xs3 ! mid)" "le (xs3 ! mid) (xs3 ! hi)"
      using assms 1(3) 2 True le_lt by (auto simp: xs3_def nth_swap)
    then show ?thesis using run True 3(1) by simp
  next
    case False
    then show ?thesis using run 1 by simp
  qed
qed

lemma scan_left_ok:
  assumes "l \<le> k" "k < length xs" "mid < length xs" "le (xs ! mid) (xs ! k)"
  shows "\<exists>l'. scan_left cmp xs (int l) (int mid) = Some (int l') \<and> l \<le> l' \<and> l' \<le> k \<and>
    (\<forall>i. l \<le> i \<and> i < l' \<longrightarrow> cmp (xs ! i) (xs ! mid) < 0) \<and> le (xs ! mid) (xs ! l')"
  using assms
proof (induction "k - l" arbitrary: l)
  case 0
  then show ?case by (subst scan_left.simps) (auto simp: compar_nat intro!: exI [of _ l])
next
  case (Suc n)
  show ?case
  proof (cases "cmp (xs ! l) (xs ! mid) < 0")
    case True
    then have "l < k" using Suc.prems Suc.hyps(2) by linarith
    moreover have "n = k - (l + 1)" using Suc.hyps(2) by linarith
    ultimately obtain l' where l': "scan_left cmp xs (int (l + 1)) (int mid) = Some (int l')" "l + 1 \<le> l'" "l' \<le> k"
      "\<forall>i. l + 1 \<le> i \<and> i < l' \<longrightarrow> cmp (xs ! i) (xs ! mid) < 0" "le (xs ! mid) (xs ! l')"
      using Suc.hyps(1) [of "l + 1"] Suc.hyps(2) Suc.prems by (auto simp: Suc_le_eq)
    have "scan_left cmp xs (int l) (int mid) = Some (int l')"
      using True l'(1) \<open>l < k\<close> Suc.prems by (subst scan_left.simps) (simp add: compar_nat algebra_simps)
    moreover have "cmp (xs ! i) (xs ! mid) < 0" if "l \<le> i" "i < l'" for i
      using that True l'(4) by (cases "i = l") auto
    ultimately show ?thesis using l' by (intro exI [of _ l']) auto
  next
    case False
    then show ?thesis using Suc.prems by (subst scan_left.simps) (auto simp: compar_nat intro!: exI [of _ l])
  qed
qed

lemma scan_right_ok:
  assumes "k \<le> r" "r < length xs" "mid < length xs" "le (xs ! k) (xs ! mid)"
  shows "\<exists>r'. scan_right cmp xs (int mid) (int r) = Some (int r') \<and> k \<le> r' \<and> r' \<le> r \<and>
    (\<forall>i. r' < i \<and> i \<le> r \<longrightarrow> cmp (xs ! mid) (xs ! i) < 0) \<and> le (xs ! r') (xs ! mid)"
  using assms
proof (induction "r - k" arbitrary: r)
  case 0
  then show ?case by (subst scan_right.simps) (auto simp: compar_nat intro!: exI [of _ r])
next
  case (Suc n)
  show ?case
  proof (cases "cmp (xs ! mid) (xs ! r) < 0")
    case True
    then have "k < r" using Suc.prems Suc.hyps(2) by linarith
    moreover have "k \<le> r - 1" "r - 1 < length xs" using \<open>k < r\<close> Suc.prems by linarith+
    moreover have "n = r - 1 - k" using Suc.hyps(2) by linarith
    ultimately obtain r' where r': "scan_right cmp xs (int mid) (int (r - 1)) = Some (int r')" "k \<le> r'" "r' \<le> r - 1"
      "\<forall>i. r' < i \<and> i \<le> r - 1 \<longrightarrow> cmp (xs ! mid) (xs ! i) < 0" "le (xs ! r') (xs ! mid)"
      using Suc.hyps(1) [of "r - 1"] Suc.prems(3,4) by blast
    have "scan_right cmp xs (int mid) (int r) = Some (int r')"
      using True r'(1) \<open>k < r\<close> Suc.prems by (subst scan_right.simps) (simp add: compar_nat of_nat_diff)
    moreover have "cmp (xs ! mid) (xs ! i) < 0" if "r' < i" "i \<le> r" for i
      using that True r'(4) \<open>k < r\<close> by (cases "i = r") auto
    ultimately show ?thesis using r' by (intro exI [of _ r']) auto
  next
    case False
    then show ?thesis using Suc.prems by (subst scan_right.simps) (auto simp: compar_nat intro!: exI [of _ r])
  qed
qed

text \<open>What holds of an array split at two places around a pivot value.\<close>

definition split_at :: "'a list \<Rightarrow> nat \<Rightarrow> nat \<Rightarrow> 'a \<Rightarrow> nat \<Rightarrow> nat \<Rightarrow> bool" where
  "split_at xs lo hi p l r \<longleftrightarrow> (\<forall>i. lo \<le> i \<and> i < l \<longrightarrow> le (xs ! i) p) \<and> (\<forall>i. r < i \<and> i \<le> hi \<longrightarrow> le p (xs ! i))"

lemma split_step:
  assumes "split_at xs lo hi p l r" "\<forall>i. l \<le> i \<and> i < l' \<longrightarrow> cmp (xs ! i) p < 0" "\<forall>i. r' < i \<and> i \<le> r \<longrightarrow> cmp p (xs ! i) < 0"
  shows "split_at xs lo hi p l' r'"
  unfolding split_at_def
proof (intro conjI allI impI)
  fix i
  show "le (xs ! i) p" if "lo \<le> i \<and> i < l'"
    using assms(1,2) that le_lt by (cases "i < l") (auto simp: split_at_def)
  show "le p (xs ! i)" if "r' < i \<and> i \<le> hi"
    using assms(1,3) that le_lt by (cases "r < i") (auto simp: split_at_def)
qed

lemma split_swap:
  assumes "split_at xs lo hi p l r" "lo < l" "l \<le> r" "r < hi" "hi < length xs" "le p (xs ! l)" "le (xs ! r) p"
  shows "split_at (swap xs l r) lo hi p (l + 1) (r - 1)"
  using assms by (auto simp: split_at_def nth_swap)

lemma collapse_ok:
  assumes "lo < l" "l \<le> r" "r < hi" "hi < length xs" "mid \<le> hi" "lo \<le> mid" "split_at xs lo hi (xs ! mid) l r"
  shows "\<exists>ys l' r'. collapse cmp xs (int mid) (int l) (int r) = Some (ys, int l', int r') \<and> same_outside lo hi xs ys \<and>
    lo \<le> r' \<and> r' < l' \<and> l' \<le> hi \<and> split_at ys lo hi (xs ! mid) l' r'"
  using assms
proof (induction "r + 1 - l" arbitrary: xs mid l r rule: less_induct)
  case less
  let ?p = "xs ! mid"
  have m: "mid < length xs" using less.prems by linarith
  have e: "le ?p (xs ! hi)" "le (xs ! lo) ?p" using less.prems by (auto simp: split_at_def)
  obtain l1 where l1: "scan_left cmp xs (int l) (int mid) = Some (int l1)" "l \<le> l1" "l1 \<le> hi"
    "\<forall>i. l \<le> i \<and> i < l1 \<longrightarrow> cmp (xs ! i) ?p < 0" "le ?p (xs ! l1)"
    using scan_left_ok [of l hi xs mid] e less.prems m by auto
  obtain r1 where r1: "scan_right cmp xs (int mid) (int r) = Some (int r1)" "lo \<le> r1" "r1 \<le> r"
    "\<forall>i. r1 < i \<and> i \<le> r \<longrightarrow> cmp ?p (xs ! i) < 0" "le (xs ! r1) ?p"
    using scan_right_ok [of lo r xs mid] e less.prems m by auto
  have sp: "split_at xs lo hi ?p l1 r1" by (rule split_step [OF less.prems(7) l1(4) r1(4)])
  note eq = collapse.simps [of cmp xs "int mid" "int l" "int r"]
  consider "l1 < r1" | "l1 = r1" | "r1 < l1" by linarith
  then show ?case
  proof cases
    case 1
    have in_range: "l1 < length xs" "r1 < length xs" using 1 r1 less.prems by linarith+
    let ?ys = "swap xs l1 r1"
    let ?m = "if mid = l1 then r1 else if mid = r1 then l1 else mid"
    have pv: "?ys ! ?m = ?p" using in_range by (auto simp: nth_swap)
    have so: "same_outside lo hi xs ?ys" using 1 l1 r1 less.prems by (intro same_outside_swap) auto
    have sp2: "split_at ?ys lo hi ?p (l1 + 1) (r1 - 1)"
      using 1 l1 r1 less.prems by (intro split_swap [OF sp]) auto
    have mid_eq: "(if int mid = int l1 then int r1 else if int mid = int r1 then int l1 else int mid) = int ?m" by simp
    have ptr: "int l1 + 1 = int (l1 + 1)" "int r1 - 1 = int (r1 - 1)" using 1 by auto
    show ?thesis
    proof (cases "l1 + 1 \<le> r1 - 1")
      case True
      have "\<exists>ys l' r'. collapse cmp ?ys (int ?m) (int (l1 + 1)) (int (r1 - 1)) = Some (ys, int l', int r') \<and> same_outside lo hi ?ys ys \<and>
          lo \<le> r' \<and> r' < l' \<and> l' \<le> hi \<and> split_at ys lo hi (?ys ! ?m) l' r'"
        using True 1 l1 r1 less.prems sp2 pv by (intro less.hyps) (auto split: if_splits)
      then obtain ys l' r' where c: "collapse cmp ?ys (int ?m) (int (l1 + 1)) (int (r1 - 1)) = Some (ys, int l', int r')"
        "same_outside lo hi ?ys ys" "lo \<le> r'" "r' < l'" "l' \<le> hi" "split_at ys lo hi ?p l' r'" unfolding pv by blast
      have "collapse cmp xs (int mid) (int l) (int r) = Some (ys, int l', int r')"
        unfolding eq l1(1) r1(1) using 1 True c(1) in_range by (auto simp: SWAP_nat ptr Let_def simp del: of_nat_add of_nat_diff split: if_splits)
      then show ?thesis using c same_outside_trans [OF so c(2)] by blast
    next
      case False
      have "collapse cmp xs (int mid) (int l) (int r) = Some (?ys, int (l1 + 1), int (r1 - 1))"
        unfolding eq l1(1) r1(1) using 1 False in_range by (simp add: SWAP_nat mid_eq ptr Let_def del: of_nat_add of_nat_diff)
      moreover have "lo \<le> r1 - 1" "r1 - 1 < l1 + 1" "l1 + 1 \<le> hi" using 1 False l1 r1 less.prems by linarith+
      ultimately show ?thesis using so sp2 by blast
    qed
  next
    case 2
    have "collapse cmp xs (int mid) (int l) (int r) = Some (xs, int (l1 + 1), int (r1 - 1))"
      unfolding eq l1(1) r1(1) using 2 l1(2) less.prems by (simp add: of_nat_diff)
    moreover have "split_at xs lo hi ?p (l1 + 1) (r1 - 1)"
      using sp 2 l1(5) r1(5) by (auto simp: split_at_def less_Suc_eq not_less) (metis Suc_pred' diff_0_eq_0 le_neq_implies_less less_Suc_eq_le not_less_eq zero_less_diff)
    moreover have "lo \<le> r1 - 1" "r1 - 1 < l1 + 1" "l1 + 1 \<le> hi" using 2 l1 r1 less.prems by linarith+
    ultimately show ?thesis using same_outside_refl by blast
  next
    case 3
    have "collapse cmp xs (int mid) (int l) (int r) = Some (xs, int l1, int r1)"
      unfolding eq l1(1) r1(1) using 3 by simp
    then show ?thesis using 3 l1 r1 sp same_outside_refl by blast
  qed
qed

subsubsection \<open>The loop over the partitions\<close>

text \<open>An array is ordered up to a set of blocks when only elements of the same block may be out of order.\<close>

definition ordered_to :: "'a list \<Rightarrow> (nat \<times> nat) set \<Rightarrow> bool" where
  "ordered_to xs B \<longleftrightarrow> (\<forall>i j. i < j \<and> j < length xs \<longrightarrow> le (xs ! i) (xs ! j) \<or> (\<exists>(a, b) \<in> B. a \<le> i \<and> j \<le> b))"

definition apart :: "nat \<times> nat \<Rightarrow> nat \<times> nat \<Rightarrow> bool" where
  "apart x y \<longleftrightarrow> snd x < fst y \<or> snd y < fst x"

lemma apart_sym: "apart x y \<Longrightarrow> apart y x"
  by (auto simp: apart_def)

lemma ordered_step:
  assumes o: "ordered_to xs (insert (lo, hi) B)" and ap: "\<forall>x \<in> B. apart x (lo, hi)" and hi: "hi < length xs"
    and so: "same_outside lo hi xs ys" and sp: "split_at ys lo hi p l r" and lr: "lo \<le> r" "r < l" "l \<le> hi"
  shows "ordered_to ys (insert (lo, r) (insert (l, hi) B))"
  unfolding ordered_to_def
proof (intro allI impI)
  fix i j assume ij: "i < j \<and> j < length ys"
  have len: "length ys = length xs" by (rule same_outside_length [OF so])
  have out: "le (xs ! i') (xs ! j') \<or> (\<exists>(a, b) \<in> B. a \<le> i' \<and> j' \<le> b)"
    if "i' < j'" "j' < length xs" "\<not> (lo \<le> i' \<and> j' \<le> hi)" for i' j'
    using o that by (auto simp: ordered_to_def)
  have eq: "ys ! k = xs ! k" if "k < lo \<or> hi < k" for k by (rule same_outside_nth [OF so that])
  consider (inside) "lo \<le> i" "j \<le> hi" | (left) "i < lo" "j \<in> {lo..hi}" | (right) "i \<in> {lo..hi}" "hi < j"
    | (none) "i < lo \<or> hi < i" "j < lo \<or> hi < j" by fastforce
  then show "le (ys ! i) (ys ! j) \<or> (\<exists>(a, b) \<in> insert (lo, r) (insert (l, hi) B). a \<le> i \<and> j \<le> b)"
  proof cases
    case inside
    then show ?thesis
      using sp trans [of p "ys ! i" "ys ! j"] ij unfolding split_at_def by (cases "j \<le> r"; cases "l \<le> i") (auto simp: not_le)
  next
    case left
    obtain k where k: "k \<in> {lo..hi}" "ys ! j = xs ! k" using same_outside_elems [OF so hi left(2)] by blast
    have "\<not> (a \<le> i \<and> k \<le> b)" if "(a, b) \<in> B" for a b using ap that left(1) k(1) by (auto simp: apart_def)
    then have "le (xs ! i) (xs ! k)" using out [of i k] left k(1) hi by auto
    then show ?thesis using eq [of i] left(1) k(2) by simp
  next
    case right
    obtain k where k: "k \<in> {lo..hi}" "ys ! i = xs ! k" using same_outside_elems [OF so hi right(1)] by blast
    have "\<not> (a \<le> k \<and> j \<le> b)" if "(a, b) \<in> B" for a b using ap that right k(1) by (auto simp: apart_def)
    then have "le (xs ! k) (xs ! j)" using out [of k j] right k(1) ij len by auto
    then show ?thesis using eq [of j] right(2) k(2) by simp
  next
    case none
    show ?thesis
    proof (cases "i < lo \<and> hi < j")
      case True
      then show ?thesis using out [of i j] eq [of i] eq [of j] ij len by auto
    next
      case False
      then have "\<not> (lo \<le> i \<and> j \<le> hi)" using none ij by linarith
      then show ?thesis using out [of i j] eq [of i] eq [of j] none ij len by auto
    qed
  qed
qed

text \<open>
  The invariant of the loop: \<open>pend\<close> are the partitions still to be sorted, \<open>I\<close> the small ones that were left alone.
\<close>

definition quick_inv :: "'a list \<Rightarrow> (nat \<times> nat) list \<Rightarrow> (nat \<times> nat) set \<Rightarrow> bool" where
  "quick_inv xs pend I \<longleftrightarrow> ordered_to xs (set pend \<union> I) \<and> pairwise apart (set pend \<union> I) \<and> distinct pend \<and> set pend \<inter> I = {} \<and>
     (\<forall>(a, b) \<in> set pend. a + 4 \<le> b \<and> b < length xs) \<and> (\<forall>(a, b) \<in> I. a \<le> b \<and> b \<le> a + 4)"

lemma quick_inv_step:
  assumes inv: "quick_inv xs ((lo, hi) # rest) I"
    and so: "same_outside lo hi xs ys" and sp: "split_at ys lo hi p l r" and lr: "lo \<le> r" "r < l" "l \<le> hi"
    and new: "{(lo, r), (l, hi)} = set P \<union> J" "set P \<inter> J = {}" "distinct P"
    and big: "\<forall>(a, b) \<in> set P. a + 4 \<le> b" and small: "\<forall>(a, b) \<in> J. b \<le> a + 4"
  shows "quick_inv ys (P @ rest) (J \<union> I)"
proof -
  let ?B = "set rest \<union> I"
  have cur: "hi < length xs" "(lo, hi) \<notin> ?B" using inv by (auto simp: quick_inv_def)
  have len: "length ys = length xs" by (rule same_outside_length [OF so])
  have ap: "\<forall>x \<in> ?B. apart x (lo, hi)" "pairwise apart ?B"
    using inv cur(2) by (auto simp: quick_inv_def pairwise_insert)
  have ne: "\<forall>(a, b) \<in> ?B. a \<le> b" using inv by (auto simp: quick_inv_def)
  have sub: "apart x (lo, r)" "apart x (l, hi)" if "x \<in> ?B" for x
    using bspec [OF ap(1) that] lr by (auto simp: apart_def)
  have nin: "(lo, r) \<notin> ?B" "(l, hi) \<notin> ?B"
    using sub(1) [of "(lo, r)"] sub(2) [of "(l, hi)"] lr by (auto simp: apart_def)
  have nP: "set P \<union> J \<subseteq> {(lo, r), (l, hi)}" using new(1) by simp
  have sets: "set (P @ rest) \<union> (J \<union> I) = insert (lo, r) (insert (l, hi) ?B)"
  proof -
    have "set (P @ rest) \<union> (J \<union> I) = (set P \<union> J) \<union> ?B" by auto
    then show ?thesis unfolding new(1) [symmetric] by simp
  qed
  have "ordered_to ys (insert (lo, r) (insert (l, hi) ?B))"
    by (rule ordered_step [OF _ ap(1) cur(1) so sp lr]) (use inv in \<open>simp add: quick_inv_def\<close>)
  moreover have "pairwise apart (insert (lo, r) (insert (l, hi) ?B))"
  proof -
    have LR: "apart (lo, r) (l, hi)" using lr by (simp add: apart_def)
    show ?thesis
      unfolding pairwise_insert using ap(2) sub sub [THEN apart_sym] LR apart_sym [OF LR] by blast
  qed
  moreover have "distinct (P @ rest)" "set (P @ rest) \<inter> (J \<union> I) = {}"
    using inv new(2,3) nin nP by (auto simp: quick_inv_def)
  moreover have "\<forall>(a, b) \<in> set (P @ rest). a + 4 \<le> b \<and> b < length ys"
    using inv big nP lr cur(1) len by (auto simp: quick_inv_def)
  moreover have "\<forall>(a, b) \<in> J \<union> I. a \<le> b \<and> b \<le> a + 4"
    using inv small nP lr by (auto simp: quick_inv_def)
  ultimately show ?thesis unfolding quick_inv_def sets by blast
qed

text \<open>The depth of the stack: every partition is at most half as long as the one below it allows.\<close>

fun stack_bound :: "nat \<Rightarrow> (nat \<times> nat) list \<Rightarrow> bool" where
  "stack_bound N [] = True"
| "stack_bound N ((a, b) # pend) = ((b - a) * 2 ^ length pend \<le> N \<and> stack_bound N pend)"

definition enc :: "(nat \<times> nat) list \<Rightarrow> stack_node list" where
  "enc pend = map (\<lambda>(a, b). Some (int a, int b)) pend @ [None]"

lemma stack_room:
  assumes "stack_bound N ((a, b) # rest)" "a + 4 \<le> b" "N < 2 ^ 32"
  shows "PUSH (Some x) (enc rest) = Some (Some x # enc rest)"
proof -
  have "4 * 2 ^ length rest \<le> (b - a) * 2 ^ length rest" using assms(2) by (intro mult_le_mono1) linarith
  also have "\<dots> \<le> N" using assms(1) by simp
  finally have "4 * 2 ^ length rest \<le> N" .
  then have "(2 :: nat) ^ (length rest + 2) < 2 ^ 32" using assms(3) by (simp add: power_add)
  then have "length rest + 2 < 32" using power_less_imp_less_exp by (metis one_less_numeral_iff semiring_norm(76))
  then show ?thesis by (simp add: PUSH_def enc_def STACK_SIZE_def)
qed

definition pending :: "(nat \<times> nat) list \<Rightarrow> nat" where
  "pending pend = (\<Sum>(a, b) \<leftarrow> pend. b - a)"

lemma next_partition_ok:
  assumes "stack_bound N ((lo, hi) # rest)" "lo + 4 \<le> hi" "N < 2 ^ 32" "lo \<le> r" "r < l" "l \<le> hi"
  shows "\<exists>P J. next_partition (int lo) (int hi) (int l) (int r) (enc rest) = Some (hd (enc (P @ rest)), tl (enc (P @ rest))) \<and>
    {(lo, r), (l, hi)} = set P \<union> J \<and> set P \<inter> J = {} \<and> distinct P \<and> stack_bound N (P @ rest) \<and>
    (\<forall>(a, b) \<in> set P. a + 4 \<le> b) \<and> (\<forall>(a, b) \<in> J. b \<le> a + 4) \<and> pending P \<le> (r - lo) + (hi - l)"
proof -
  have th: "below_thresh (int r - int lo) \<longleftrightarrow> r \<le> lo + 4" "below_thresh (int hi - int l) \<longleftrightarrow> hi \<le> l + 4"
    using assms by (auto simp: below_thresh_def MAX_THRESH_def)
  have b: "stack_bound N rest" "(hi - lo) * 2 ^ length rest \<le> N" using assms(1) by auto
  have sm: "(r - lo) * 2 ^ length rest \<le> N" "(hi - l) * 2 ^ length rest \<le> N"
    using b(2) assms(4-6) by (meson diff_le_mono diff_le_mono2 le_trans less_imp_le mult_le_mono1)+
  have half: "k * 2 * 2 ^ length rest \<le> N" if "k * 2 \<le> hi - lo" for k
    using b(2) that by (meson le_trans mult_le_mono1)
  have ne: "(lo, r) \<noteq> (l, hi)" using assms by auto
  note np = next_partition_def th
  consider (none) "r \<le> lo + 4" "hi \<le> l + 4" | (right) "r \<le> lo + 4" "l + 4 < hi" | (left) "lo + 4 < r" "hi \<le> l + 4"
    | (both) "lo + 4 < r" "l + 4 < hi" by linarith
  then show ?thesis
  proof cases
    case none
    then show ?thesis using b by (intro exI [of _ "[]"] exI [of _ "{(lo, r), (l, hi)}"]) (auto simp: np pending_def)
  next
    case right
    then show ?thesis using b sm by (intro exI [of _ "[(l, hi)]"] exI [of _ "{(lo, r)}"]) (auto simp: np pending_def enc_def)
  next
    case left
    then show ?thesis using b sm by (intro exI [of _ "[(lo, r)]"] exI [of _ "{(l, hi)}"]) (auto simp: np pending_def enc_def)
  next
    case both
    note room = stack_room [OF assms(1-3)]
    show ?thesis
    proof (cases "int r - int lo > int hi - int l")
      case True
      then have "(hi - l) * 2 * 2 ^ length rest \<le> N" using assms(4-6) by (intro half) linarith
      then show ?thesis using b sm both True ne room
        by (intro exI [of _ "[(l, hi), (lo, r)]"] exI [of _ "{}"]) (auto simp: np pending_def enc_def ac_simps)
    next
      case False
      then have "(r - lo) * 2 * 2 ^ length rest \<le> N" using assms(4-6) by (intro half) linarith
      then show ?thesis using b sm both False ne room
        by (intro exI [of _ "[(lo, r), (l, hi)]"] exI [of _ "{}"]) (auto simp: np pending_def enc_def ac_simps)
    qed
  qed
qed

lemma quick_loop_ok:
  assumes "quick_inv xs pend I" "stack_bound N pend" "N < 2 ^ 32"
  shows "\<exists>ys. quick_loop cmp xs (hd (enc pend)) (tl (enc pend)) = Some ys \<and> mset ys = mset xs \<and>
    (\<forall>i j. i + 4 < j \<and> j < length ys \<longrightarrow> le (ys ! i) (ys ! j))"
  using assms
proof (induction "pending pend" arbitrary: xs pend I rule: less_induct)
  case less
  show ?case
  proof (cases pend)
    case Nil
    have "le (xs ! i) (xs ! j)" if "i + 4 < j" "j < length xs" for i j
    proof -
      have o: "ordered_to xs I" and sm: "\<forall>(a, b) \<in> I. a \<le> b \<and> b \<le> a + 4" using less.prems(1) by (auto simp: quick_inv_def Nil)
      have "i < j" using that by linarith
      then have "le (xs ! i) (xs ! j) \<or> (\<exists>(a, b) \<in> I. a \<le> i \<and> j \<le> b)" using o that(2) unfolding ordered_to_def by blast
      moreover have "\<not> (a \<le> i \<and> j \<le> b)" if "(a, b) \<in> I" for a b
        using bspec [OF sm that] \<open>i + 4 < j\<close> by simp
      ultimately show ?thesis by blast
    qed
    then show ?thesis by (subst quick_loop.simps) (simp add: Nil enc_def)
  next
    case (Cons c rest)
    obtain lo hi where c: "c = (lo, hi)" by fastforce
    have lh: "lo + 4 \<le> hi" "hi < length xs" using less.prems(1) by (auto simp: quick_inv_def Cons c)
    define mid where "mid = lo + (hi - lo) div 2"
    have m: "lo < mid" "mid < hi" using lh by (auto simp: mid_def)
    obtain xs1 where x1: "median cmp xs (int lo) (int mid) (int hi) = Some xs1" "same_outside lo hi xs xs1"
      "le (xs1 ! lo) (xs1 ! mid)" "le (xs1 ! mid) (xs1 ! hi)" using median_ok [OF m lh(2)] by blast
    have len: "length xs1 = length xs" by (rule same_outside_length [OF x1(2)])
    have ini: "split_at xs1 lo hi (xs1 ! mid) (lo + 1) (hi - 1)"
      unfolding split_at_def
    proof (intro conjI allI impI)
      show "le (xs1 ! i) (xs1 ! mid)" if "lo \<le> i \<and> i < lo + 1" for i
        using that x1(3) by (metis Suc_eq_plus1 le_antisym less_Suc_eq_le)
      have "i = hi" if "hi - 1 < i \<and> i \<le> hi" for i using that by linarith
      then show "le (xs1 ! mid) (xs1 ! i)" if "hi - 1 < i \<and> i \<le> hi" for i using that x1(4) by metis
    qed
    have rg: "lo < lo + 1" "lo + 1 \<le> hi - 1" "hi - 1 < hi" "hi < length xs1" "mid \<le> hi" "lo \<le> mid" using m lh len by auto
    obtain ys l r where y: "collapse cmp xs1 (int mid) (int (lo + 1)) (int (hi - 1)) = Some (ys, int l, int r)"
      "same_outside lo hi xs1 ys" "lo \<le> r" "r < l" "l \<le> hi" "split_at ys lo hi (xs1 ! mid) l r"
      using collapse_ok [OF rg ini] by blast
    obtain P J where n: "next_partition (int lo) (int hi) (int l) (int r) (enc rest) = Some (hd (enc (P @ rest)), tl (enc (P @ rest)))"
      "{(lo, r), (l, hi)} = set P \<union> J" "set P \<inter> J = {}" "distinct P" "stack_bound N (P @ rest)"
      "\<forall>(a, b) \<in> set P. a + 4 \<le> b" "\<forall>(a, b) \<in> J. b \<le> a + 4" "pending P \<le> (r - lo) + (hi - l)"
      using next_partition_ok [OF less.prems(2) [unfolded Cons c] lh(1) less.prems(3) y(3-5)] by blast
    have so: "same_outside lo hi xs ys" by (rule same_outside_trans [OF x1(2) y(2)])
    have inv: "quick_inv ys (P @ rest) (J \<union> I)"
      by (rule quick_inv_step [OF less.prems(1) [unfolded Cons c] so y(6,3-5) n(2-4,6,7)])
    have "pending (P @ rest) < pending pend" using n(8) y(3-5) by (simp add: pending_def Cons c)
    then obtain zs where z: "quick_loop cmp ys (hd (enc (P @ rest))) (tl (enc (P @ rest))) = Some zs" "mset zs = mset ys"
      "\<forall>i j. i + 4 < j \<and> j < length zs \<longrightarrow> le (zs ! i) (zs ! j)"
      using less.hyps [OF _ inv n(5) less.prems(3)] by blast
    have e: "hd (enc pend) = Some (int lo, int hi)" "tl (enc pend) = enc rest" "enc rest \<noteq> []" by (auto simp: enc_def Cons c)
    have ints: "int mid = int lo + (int hi - int lo) div 2" "int (lo + 1) = int lo + 1" "int (hi - 1) = int hi - 1"
      using lh by (simp_all add: mid_def zdiv_int of_nat_diff)
    have "quick_loop cmp xs (hd (enc pend)) (tl (enc pend)) = Some zs"
      unfolding e
      by (subst quick_loop.simps)
        (simp add: Let_def e(3) x1(1) [unfolded ints] y(1) [unfolded ints] n(1) z(1) del: of_nat_diff)
    then show ?thesis using z so by (auto simp: same_outside_def)
  qed
qed

text \<open>The insertion sort finds the smallest element among the first five, which no later element precedes.\<close>

lemma find_smallest_ok:
  assumes "t < run" "run \<le> Suc th" "th < length xs" "\<forall>i < run. le (xs ! t) (xs ! i)"
  shows "\<exists>t'. find_smallest cmp xs (int th) (int t) (int run) = Some (int t') \<and> t' \<le> th \<and> (\<forall>i \<le> th. le (xs ! t') (xs ! i))"
  using assms
proof (induction "Suc th - run" arbitrary: t run)
  case 0
  then have "run = Suc th" by simp
  then show ?case using 0 by (subst find_smallest.simps) (auto simp: less_Suc_eq_le intro!: exI [of _ t])
next
  case (Suc n)
  define u where "u = (if cmp (xs ! run) (xs ! t) < 0 then run else t)"
  have run: "run \<le> th" "n = Suc th - Suc run" using Suc.hyps(2) by auto
  have "le (xs ! u) (xs ! i)" if "i < Suc run" for i
    using Suc.prems(4) that trans [of "xs ! t" "xs ! u" "xs ! i"] le_lt le_refl
    by (cases "i = run") (auto simp: u_def less_Suc_eq)
  then obtain t' where t': "find_smallest cmp xs (int th) (int u) (int (Suc run)) = Some (int t')" "t' \<le> th"
    "\<forall>i \<le> th. le (xs ! t') (xs ! i)"
  proof -
    have "u < Suc run" "Suc run \<le> Suc th" using Suc.prems(1) run(1) by (auto simp: u_def)
    moreover assume "\<And>i. i < Suc run \<Longrightarrow> le (xs ! u) (xs ! i)"
    ultimately show thesis using Suc.hyps(1) [OF run(2), of u] Suc.prems(3) that by blast
  qed
  have "find_smallest cmp xs (int th) (int t) (int run) = Some (int t')"
    using t'(1) run(1) Suc.prems
    by (subst find_smallest.simps) (simp add: compar_nat u_def add.commute if_distrib [where f = int] cong: if_cong)
  then show ?case using t'(2,3) by blast
qed

lemma insert_pos_ok:
  assumes "t < length S" "le (S ! 0) c" "\<forall>i. t < i \<and> i < length S \<longrightarrow> cmp c (S ! i) < 0"
  shows "\<exists>p. insert_pos cmp (S @ c # D) (int (length S)) (int t) = Some (int p) \<and> 0 < p \<and> p \<le> length S \<and>
    le (S ! (p - 1)) c \<and> (\<forall>i. p \<le> i \<and> i < length S \<longrightarrow> cmp c (S ! i) < 0)"
  using assms
proof (induction t)
  case 0
  then show ?case
    by (subst insert_pos.simps) (auto simp: compar_nat [where i = "length S" and j = 0, simplified] nth_append Suc_le_eq intro!: exI [of _ 1])
next
  case (Suc t)
  have cm: "compar cmp (S @ c # D) (int (length S)) (int (Suc t)) = Some (cmp c (S ! Suc t))"
    using Suc.prems(1) by (subst compar_nat) (auto simp: nth_append)
  show ?case
  proof (cases "cmp c (S ! Suc t) < 0")
    case True
    have "\<forall>i. t < i \<and> i < length S \<longrightarrow> cmp c (S ! i) < 0" using True Suc.prems(3) by (metis Suc_lessI)
    then show ?thesis using Suc.IH Suc.prems True cm by (subst insert_pos.simps) simp
  next
    case False
    then show ?thesis using Suc.prems cm by (subst insert_pos.simps) (auto intro!: exI [of _ "Suc (Suc t)"])
  qed
qed

lemma insertion_loop_ok:
  assumes "sorted_wrt le S" "S \<noteq> []" "\<forall>x \<in> set D. le (S ! 0) x"
  shows "\<exists>ys. insertion_loop cmp (S @ D) (int (length S)) = Some ys \<and> mset ys = mset (S @ D) \<and> sorted_wrt le ys"
  using assms
proof (induction D arbitrary: S)
  case Nil
  then show ?case by (subst insertion_loop.simps) simp
next
  case (Cons c D)
  obtain p where p: "insert_pos cmp (S @ c # D) (int (length S)) (int (length S - 1)) = Some (int p)" "0 < p" "p \<le> length S"
    "le (S ! (p - 1)) c" "\<forall>i. p \<le> i \<and> i < length S \<longrightarrow> cmp c (S ! i) < 0"
  proof -
    have "length S - 1 < length S" "le (S ! 0) c" "\<forall>i. length S - 1 < i \<and> i < length S \<longrightarrow> cmp c (S ! i) < 0"
      using Cons.prems by auto
    then show thesis using insert_pos_ok that by blast
  qed
  define S' where "S' = take p S @ c # drop p S"
  have S: "S = take p S @ drop p S" by simp
  have lo: "le x c" if "x \<in> set (take p S)" for x
  proof -
    obtain i where i: "i < p" "x = S ! i" using \<open>x \<in> _\<close> by (auto simp: in_set_conv_nth)
    then have "le x (S ! (p - 1))"
      using sorted_wrt_nth_less [OF Cons.prems(1), of i "p - 1"] p(2,3) le_refl by (cases "i = p - 1") auto
    then show ?thesis using trans p(4) by blast
  qed
  have hi: "le c y" if "y \<in> set (drop p S)" for y
    using that p(5) le_lt p(3) by (auto simp: in_set_conv_nth)
  have "sorted_wrt le (take p S)" "sorted_wrt le (drop p S)" "\<forall>x \<in> set (take p S). \<forall>y \<in> set (drop p S). le x y"
    using Cons.prems(1) S by (metis sorted_wrt_append)+
  then have srt: "sorted_wrt le S'" using lo hi by (auto simp: S'_def sorted_wrt_append)
  have hd: "S' ! 0 = S ! 0" using p(2,3) by (simp add: S'_def nth_append)
  have ms: "mset S' = add_mset c (mset S)"
    unfolding S'_def by (subst (3) S) (simp only: mset_append mset.simps union_mset_add_mset_right union_mset_add_mset_left)
  obtain ys where ys: "insertion_loop cmp (S' @ D) (int (length S')) = Some ys" "mset ys = mset (S' @ D)" "sorted_wrt le ys"
    using Cons.IH [OF srt] hd Cons.prems(3) by (auto simp: S'_def)
  have sh: "(if int p \<noteq> int (length S) then shift (nat (int (length S) - int p)) (nat (int (length S))) c (S @ c # D) else S @ c # D) = S' @ D"
    using shift_eq [of "drop p S" "take p S" c c D] p(3) by (auto simp: S'_def nat_diff_distrib simp flip: append_assoc)
  have "insertion_loop cmp (S @ c # D) (int (length S)) = Some ys"
  proof -
    have "0 < length S" using Cons.prems(2) by simp
    then have "int (length S) - 1 = int (length S - 1)" by linarith
    note i = this
    have j: "int (length S) + 1 = int (length S')"
      "int (length S) \<le> int (length (S @ c # D)) - 1" "(S @ c # D) ! nat (int (length S)) = c"
      using p(3) by (simp_all add: S'_def)
    show ?thesis
      by (subst insertion_loop.simps) (simp only: i j if_True p(1) Option.bind.simps sh ys(1))
  qed
  then show ?case using ys ms by auto
qed

lemma insertion_sort_ok:
  assumes near: "\<forall>i j. i + 4 < j \<and> j < length xs \<longrightarrow> le (xs ! i) (xs ! j)" and ne: "xs \<noteq> []"
  shows "\<exists>ys. insertion_sort cmp xs = Some ys \<and> mset ys = mset xs \<and> sorted_wrt le ys"
proof -
  define th where "th = min (length xs - 1) 4"
  have th: "th < length xs" "min (int (length xs) - 1) MAX_THRESH = int th"
    using ne by (cases xs; auto simp: th_def MAX_THRESH_def min_def)+
  obtain t where t: "find_smallest cmp xs (int th) 0 1 = Some (int t)" "t \<le> th" "\<forall>i \<le> th. le (xs ! t) (xs ! i)"
    using find_smallest_ok [of 0 1 th xs] th(1) le_refl by auto
  have min: "le (xs ! t) (xs ! i)" if "i < length xs" for i
  proof (cases "i \<le> th")
    case False
    then have "le (xs ! 0) (xs ! i)" using near that by (auto simp: th_def)
    then show ?thesis using trans t(3) by blast
  qed (use t(3) in blast)
  have tl: "t < length xs" "0 < length xs" using t(2) th(1) by auto
  define ys where "ys = (if t \<noteq> 0 then swap xs t 0 else xs)"
  have ys: "mset ys = mset xs" "length ys = length xs" "ys ! 0 = xs ! t"
    using mset_swap' [OF tl] nth_swap [OF tl, of 0] by (auto simp: ys_def)
  have "set ys = set xs" using ys(1) by (rule mset_eq_setD)
  then have all: "\<forall>x \<in> set ys. le (ys ! 0) x" using min ys(3) by (auto simp: in_set_conv_nth)
  have run: "insertion_sort cmp xs = insertion_loop cmp ys 2"
    using t(1) th(2) SWAP_nat [OF tl] by (simp add: insertion_sort_def ys_def Let_def)
  show ?thesis
  proof (cases "length ys < 2")
    case True
    then have "sorted_wrt le ys" by (cases ys) auto
    then show ?thesis unfolding run using True ys(1) by (subst insertion_loop.simps) simp
  next
    case False
    then obtain a b D where D: "ys = [a, b] @ D" by (cases ys; cases "tl ys") auto
    show ?thesis unfolding run using insertion_loop_ok [of "[a, b]" D] all ys(1) by (simp add: D)
  qed
qed

text \<open>The whole function: it returns, with the elements it was given, in order.\<close>

lemma quicksort_ok:
  assumes "length xs \<le> 2 ^ 32"
  shows "\<exists>ys. quicksort cmp xs = Some ys \<and> mset ys = mset xs \<and> sorted_wrt le ys"
proof (cases "length xs > 4")
  case True
  define N where "N = length xs - 1"
  have N: "N < 2 ^ 32" "int (length xs) - 1 = int N" "4 \<le> N" "N < length xs" using assms True by (auto simp: N_def)
  have "quick_inv xs [(0, N)] {}" using N(3,4) by (auto simp: quick_inv_def ordered_to_def N_def)
  moreover have "stack_bound N [(0, N)]" by simp
  moreover have "hd (enc [(0, N)]) = Some (0, int N)" "tl (enc [(0, N)]) = [None]" by (simp_all add: enc_def)
  ultimately obtain ys where ys: "quick_loop cmp xs (Some (0, int N)) [None] = Some ys" "mset ys = mset xs"
    "\<forall>i j. i + 4 < j \<and> j < length ys \<longrightarrow> le (ys ! i) (ys ! j)"
    using quick_loop_ok [OF _ _ N(1)] by metis
  have "ys \<noteq> []" "xs \<noteq> []" using ys(2) True by auto
  then have "quicksort cmp xs = insertion_sort cmp ys"
    using True ys(1) N(2) by (simp add: quicksort_def MAX_THRESH_def PUSH_def STACK_SIZE_def)
  then show ?thesis using insertion_sort_ok [OF ys(3) \<open>ys \<noteq> []\<close>] ys(2) by simp
next
  case False
  show ?thesis
  proof (cases "xs = []")
    case F: False
    then have "quicksort cmp xs = insertion_sort cmp xs" using False by (simp add: quicksort_def MAX_THRESH_def)
    then show ?thesis using insertion_sort_ok [OF _ F] False by auto
  qed (simp add: quicksort_def)
qed

end

subsection \<open>The directory index entries\<close>

text \<open>
  The caller of the sort is the split of a hashed directory block, which orders its entries by hash. Its
  comparison function meets the contract.
\<close>

record ext4_dx_sort_entry =
  hash :: u32
  rec_len :: u32
  dentry :: addr

definition ext4_dir_dx_entry_comparator :: "ext4_dx_sort_entry \<Rightarrow> ext4_dx_sort_entry \<Rightarrow> int" where
  "ext4_dir_dx_entry_comparator entry1 entry2 =
     (if hash entry1 = hash entry2 then 0 else if hash entry1 < hash entry2 then -1 else 1)"

interpretation dx: comparison ext4_dir_dx_entry_comparator
  by unfold_locales (auto simp: ext4_dir_dx_entry_comparator_def split: if_splits)

lemma dx_sorted:
  assumes "length es \<le> 2 ^ 32"
  shows "\<exists>ys. quicksort ext4_dir_dx_entry_comparator es = Some ys \<and> mset ys = mset es \<and> sorted (map hash ys)"
proof -
  obtain ys where ys: "quicksort ext4_dir_dx_entry_comparator es = Some ys" "mset ys = mset es"
    "sorted_wrt (\<lambda>x y. \<not> ext4_dir_dx_entry_comparator y x < 0) ys"
    using dx.quicksort_ok [OF assms] by blast
  have "sorted_wrt (\<lambda>x y. hash x \<le> hash y) ys"
    using ys(3) by (rule sorted_wrt_mono_rel [rotated]) (auto simp: ext4_dir_dx_entry_comparator_def split: if_splits)
  then show ?thesis using ys by (simp add: sorted_map)
qed

text \<open>
  C13: the sort returns for every array of up to \<open>2 ^ 32\<close> elements: it never leaves the array, its stack of
  32 partitions never overflows and all its loops end. The result has the elements it was given, each as often as
  before, and no element that the comparison function puts before an earlier one. The comparison function
  has to be the strict part of a total preorder.
\<close>

theorem quicksort_sorts:
  assumes "\<And>x y. cmp x y < 0 \<Longrightarrow> \<not> cmp y x < 0"
    and "\<And>x y z. \<not> cmp y x < 0 \<Longrightarrow> \<not> cmp z y < 0 \<Longrightarrow> \<not> cmp z x < 0"
    and "length xs \<le> 2 ^ 32"
  shows "\<exists>ys. quicksort cmp xs = Some ys \<and> mset ys = mset xs \<and> sorted_wrt (\<lambda>x y. \<not> cmp y x < 0) ys"
  by (rule comparison.quicksort_ok [OF comparison.intro]) (use assms in blast)+

theorem quicksort_sorts_witness:
  "\<exists>ys. quicksort ext4_dir_dx_entry_comparator
      (map (\<lambda>h. \<lparr>hash = h, rec_len = 16, dentry = 0\<rparr>) [7, 3, 9, 1, 7, 2, 8]) = Some ys \<and> map hash ys = [1, 2, 3, 7, 7, 8, 9]"
proof -
  let ?es = "map (\<lambda>h. \<lparr>hash = h, rec_len = 16, dentry = 0\<rparr>) [7, 3, 9, 1, 7, 2, 8]"
  let ?le = "\<lambda>x y. \<not> ext4_dir_dx_entry_comparator y x < 0"
  have "\<exists>ys. quicksort ext4_dir_dx_entry_comparator ?es = Some ys \<and> mset ys = mset ?es \<and> sorted_wrt ?le ys"
  proof (rule quicksort_sorts)
    show "?le x y" if "ext4_dir_dx_entry_comparator x y < 0" for x y using that by (rule dx.asym)
    show "?le x z" if "?le x y" "?le y z" for x y z using that by (rule dx.trans)
  qed simp
  then obtain ys where ys: "quicksort ext4_dir_dx_entry_comparator ?es = Some ys" "mset ys = mset ?es" "sorted_wrt ?le ys"
    by (elim exE conjE)
  have "sorted_wrt (\<lambda>x y. hash x \<le> hash y) ys"
    using ys(3) by (rule sorted_wrt_mono_rel [rotated]) (auto simp: ext4_dir_dx_entry_comparator_def split: if_splits)
  then have "sorted (map hash ys)" by (simp add: sorted_map)
  moreover have "mset (map hash ys) = mset [1, 2, 3, 7, 7, 8, 9]" unfolding mset_map ys(2) by simp
  ultimately have "sort [1, 2, 3, 7, 7, 8, 9] = map hash ys" by (intro properties_for_sort)
  moreover have "sort [1, 2, 3, 7, 7, 8, 9 :: u32] = [1, 2, 3, 7, 7, 8, 9]" by (rule sorted_sort_id) simp
  ultimately show ?thesis using ys(1) by simp
qed

end
