(* ===== verification/Spec2Isabelle.thy ===== *)
theory Spec2Isabelle
  imports CNumeric Maths SchedulerProps KHeapProps PagingProps AddressSpaces FatProps FatFileProps FatFormatProps QSort
begin

text \<open>
  This development models parts of the AthenX-3.0 kernel, a 32 bit protected mode operating system for
  i686 written in C and assembly, and proves what those parts promise. It follows the layers of the kernel
  upwards: the C library inside the kernel, the scheduler, the kernel heap, physical and virtual memory,
  the FAT file system and the sorting routine. Sources are named by their path below \<open>src/\<close>.

  \<^bold>\<open>Conventions.\<close> Machine integers are words of their width (\<^theory_text>\<open>u8\<close>, \<^theory_text>\<open>u16\<close>, \<^theory_text>\<open>u32\<close>, \<^theory_text>\<open>u64\<close>, \<^theory_text>\<open>addr\<close>), so that
  they wrap around as in C; \<^theory_text>\<open>i32\<close> is a 32 bit word read as a signed number. Status codes that are only
  returned and compared are integers. State is passed explicitly and returned changed; a C struct is a record,
  a linked structure is a function from addresses or indices to nodes. \<open>None\<close> as the result of a whole call
  means that the call does not come back: it loops for ever, faults, or leaves the objects it was given. Loops
  whose end the code does not guarantee are partial functions into \<open>option\<close>, so nothing is assumed about their
  return: where a theorem says that such a loop returns, that is part of its conclusion. There is no fuel anywhere;
  loops with a bound in the source are structural recursions on that bound. Operations are
  definitions that compute, and the theorems with hypotheses are instantiated on concrete states in
  theorems named \<open>..._witness\<close>.

  \<^bold>\<open>Kernel C library.\<close> \<open>CMemory\<close> is the byte store behind C pointers. \<open>CType\<close> (\<open>libk/ctypes.c\<close>) has the
  character classes, \<open>CString\<close> (\<open>libk/string.c\<close>) the block and string functions and the tokenizers,
  \<open>CNumeric\<close> (\<open>libk/string.c\<close>, \<open>kernel/kheap/stdlib.c\<close>) the conversions between numbers and text, and
  \<open>Maths\<close> (\<open>libk/maths.c\<close>) the integer routines. Shown: \<open>memmove\<close> is correct under any overlap, \<open>strtok\<close>
  refines tokenization of strings, \<open>strstr\<close> and \<open>strncat\<close> meet their contracts, \<open>atoi\<close> inverts \<open>itoa\<close> for every
  32 bit integer, \<open>log2\<close> is the integer logarithm, and \<open>strtok_r\<close> never continues.

  \<^bold>\<open>Scheduler.\<close> \<open>Scheduler\<close> models every function of \<open>kernel/multitasking/scheduler.c\<close>, the task switch of
  \<open>asm/scheduler/scheduler.asm\<close> with the stack frames it builds, and the timer interrupt. The record \<open>sched\<close> holds
  the globals and the array of process control blocks; a task is an index into it. \<open>LinkedQueue\<close> has linked queues
  and the locale of a task queue, which \<open>SchedulerLists\<close> interprets with the ready and the terminated list.
  \<open>SchedulerInv\<close> has the invariant, its preservation by every operation, and the scheduler as an inductive transition
  system of system calls and interrupts. \<open>SchedulerProps\<close> has the properties: safety of all reachable states, return
  of the timer interrupt, round robin, restoration of registers across switches, the start of a new process, and
  two defects (a lone sleeper is lost, readying a task twice drops others).

  \<^bold>\<open>Kernel heap.\<close> \<open>KHeap\<close> models \<open>kernel/kheap/kheap.c\<close>: the list of block headers, initialisation, first-fit allocation,
  release, reallocation, the integrity checks, and the locked entry points. \<open>KHeapSearch\<close> relates the pointer search to
  first fit on a list of flags, \<open>KHeapInv\<close> has the invariant of runs of blocks, and \<open>KHeapProps\<close> states the contract of
  a block allocator as a locale, interprets it with \<open>kmalloc\<close> and \<open>kfree\<close>, and gives the properties: allocations held
  together are disjoint, first fit, release inverts allocation, when an exhausted heap hangs, and initialisation.

  \<^bold>\<open>Memory management.\<close> \<open>Bytes\<close> has little-endian access to a byte store. \<open>Paging\<close> models \<open>kernel/pmm/pmm.c\<close>,
  \<open>kernel/vmm/vmm.c\<close> and \<open>asm/pageing/page.asm\<close> over physical memory as bytes: every access of the code goes through
  the translation of the processor once paging is on, so the recursive mapping of the tables is part of what is proved.
  \<open>PagingTables\<close>, \<open>PagingMap\<close> and \<open>PagingInit\<close> have the invariant of the tables and the effect of each operation on
  it; \<open>AddressSpaces\<close> models \<open>clone_directory\<close> and \<open>destroy_directory\<close>. \<open>PagingProps\<close> shows that \<open>map\<close> and \<open>unmap\<close> change
  the translation of exactly one page, that \<open>get_mapping\<close> agrees with the processor, that the page stack is a stack, that
  \<open>init_vmm\<close> establishes the invariant, and that \<open>copy_page_physical\<close> copies in the wrong direction.

  \<^bold>\<open>FAT file system.\<close> All of \<open>drivers/fs/fat32\<close> that is compiled into the kernel. The disk driver
  behind \<open>read_media\<close> and \<open>write_media\<close> is a parameter of the volume: an abstract state and two functions on it. What
  is assumed of it is stated as \<open>media_ok\<close> (a successful transfer reads or writes the sectors it was asked for and
  nothing else) and, where a property is about success, \<open>media_reliable\<close> (transfers succeed); a disk in memory satisfies
  both. \<open>FatDefs\<close> has the volume record, \<open>FatTable\<close> \<open>fat_table.c\<close>, \<open>FatAlloc\<close> and \<open>FatDir\<close> \<open>fat_write.c\<close>, \<open>FatMisc\<close>
  \<open>fat_misc.c\<close>, \<open>FatString\<close> \<open>fat_string.c\<close>, \<open>FatAccess\<close> \<open>fat_access.c\<close>, \<open>FatList\<close> \<open>include/fat_list.h\<close>, \<open>FatFile\<close>
  \<open>fat_filelib.c\<close>, and \<open>Clock\<close> \<open>drivers/time/clock.c\<close>, whose clock chip is an argument. \<open>FatBuffers\<close> shows that the write-back
  buffers of the FAT are transparent, \<open>FatEntries\<close> that the FAT is an array of links, and \<open>FatChains\<close> proves the chain operations
  once, against locales for finding, setting and searching links, and interprets them with the buffered table.
  \<open>FatProps\<close> has the properties of the table (a link set is found, the first blank cluster is found, chains are freed, appended
  to and extended, a purge survives a new mount), \<open>FatNames\<close> those of names (long names survive their entries, the shape of
  short names, splitting inverts joining, the bound on a joined path), \<open>FatFileProps\<close> those of directories and files (an added name is
  found again, handles are managed by two queues, buffered writes) and two defects (a seek drops buffered data,
  \<open>rename\<close> never returns). \<open>FatFormat\<close> models \<open>fat_format.c\<close> and what it writes to the medium; \<open>FatFormatProps\<close> shows that a
  mount of a formatted medium gives back the type and the geometry of the format, an empty table and an empty root directory, and for
  which sizes it does not.

  \<^bold>\<open>Sorting.\<close> \<open>QSort\<close> models \<open>_quicksort\<close> of \<open>kernel/misc/qsort.c\<close>, a quicksort with an explicit stack of 32 partitions that
  leaves short partitions to one final insertion sort. The contract of the comparison function is a locale, interpreted
  with the comparison of hashed directory entries of \<open>drivers/fs/ext/ext4_dir_idx.c\<close>, its only caller. Shown: for every
  array of up to \<open>2 ^ 32\<close> elements it returns, without leaving the array or its stack, with a sorted permutation.

  \<^bold>\<open>Not modelled.\<close> Device drivers, the display, the terminal, interrupt entry and processor setup are input and output
  with hardware. Printing is left out of the modelled functions. The floating-point routines of \<open>libk/maths.c\<close> are not modelled.
  The cluster cache of the FAT library is compiled without entries, and its lock callbacks are never attached. The ext4 library
  but for its comparison of directory entries, the VFS dispatch, the executable loaders, the shell and the user-space library
  are not modelled. The translation look-aside buffer is not modelled: the processor's translation reads the tables directly.
\<close>

end
